(* ===== verification/Rgtp_Prelude.thy ===== *)
theory Rgtp_Prelude
  imports Complex_Main "HOL-Library.Word" "HOL-Library.Monad_Syntax"
begin

text \<open>
  Shared vocabulary of the development: the machine types of the C sources, the
  error codes of \<^verbatim>\<open>include/rgtp/rgtp.h\<close>, the memory primitives
  (\<^verbatim>\<open>memcpy\<close>, \<^verbatim>\<open>memset\<close>, single-byte loads
  and stores) and the generic facts on lists and words that the component
  theories use.

  Conventions.  A C function that returns \<^verbatim>\<open>rgtp_error_t\<close> and
  writes its result through output pointers returns a value of type
  \<open>'a cres\<close>, which is \<open>(rgtp_error + 'a) option\<close>: \<open>Some (Inr r)\<close>
  is \<^verbatim>\<open>RGTP_OK\<close> with the result \<open>r\<close>, \<open>Some (Inl e)\<close>
  is the error code \<open>e\<close>, and \<open>None\<close> is undefined behaviour of C: an
  access outside the object it goes through, or a conversion out of range.  A
  pointer together with its length is the list of the bytes that it delimits, so
  an access past the length is \<open>None\<close>.  A pointer that the code compares
  with \<^verbatim>\<open>NULL\<close> is an \<open>option\<close>; an output pointer that is
  only compared with \<^verbatim>\<open>NULL\<close> is a \<open>bool\<close> (true: not
  \<^verbatim>\<open>NULL\<close>).
\<close>

unbundle bit_operations_syntax

type_synonym u8 = "8 word"
type_synonym u16 = "16 word"
type_synonym u32 = "32 word"
type_synonym u64 = "64 word"
type_synonym bytes = "8 word list"

named_theorems mem_simps "memory primitives on buffers split at the accessed offset"
named_theorems codec_simps "reading back what a fixed-width writer wrote"
named_theorems len_simps "lengths of the byte strings the writers produce"

subsection \<open>Error codes\<close>

text \<open>The error codes other than \<^verbatim>\<open>RGTP_OK\<close>, which is the
  right summand of a result.\<close>

datatype rgtp_error =
    RGTP_ERR_NOMEM | RGTP_ERR_INVALID_ARG | RGTP_ERR_SOCKET | RGTP_ERR_CRYPTO_INIT
  | RGTP_ERR_ENCRYPT | RGTP_ERR_DECRYPT | RGTP_ERR_AUTH_FAIL | RGTP_ERR_MERKLE_FAIL
  | RGTP_ERR_FEC_FAIL | RGTP_ERR_TRUNCATED | RGTP_ERR_CHUNK_INDEX_OOB
  | RGTP_ERR_TIMEOUT | RGTP_ERR_RATE_LIMITED | RGTP_ERR_NOT_SUPPORTED
  | RGTP_ERR_INTERNAL

type_synonym 'a cres = "(rgtp_error + 'a) option"

abbreviation ok :: "'a \<Rightarrow> 'a cres" where "ok r \<equiv> Some (Inr r)"
abbreviation err :: "rgtp_error \<Rightarrow> 'a cres" where "err e \<equiv> Some (Inl e)"

text \<open>The numeric values that callers see.\<close>

fun rgtp_error_code :: "rgtp_error \<Rightarrow> int" where
  "rgtp_error_code RGTP_ERR_NOMEM = -1"
| "rgtp_error_code RGTP_ERR_INVALID_ARG = -2"
| "rgtp_error_code RGTP_ERR_SOCKET = -3"
| "rgtp_error_code RGTP_ERR_CRYPTO_INIT = -4"
| "rgtp_error_code RGTP_ERR_ENCRYPT = -5"
| "rgtp_error_code RGTP_ERR_DECRYPT = -6"
| "rgtp_error_code RGTP_ERR_AUTH_FAIL = -7"
| "rgtp_error_code RGTP_ERR_MERKLE_FAIL = -8"
| "rgtp_error_code RGTP_ERR_FEC_FAIL = -9"
| "rgtp_error_code RGTP_ERR_TRUNCATED = -10"
| "rgtp_error_code RGTP_ERR_CHUNK_INDEX_OOB = -11"
| "rgtp_error_code RGTP_ERR_TIMEOUT = -12"
| "rgtp_error_code RGTP_ERR_RATE_LIMITED = -13"
| "rgtp_error_code RGTP_ERR_NOT_SUPPORTED = -14"
| "rgtp_error_code RGTP_ERR_INTERNAL = -15"

text \<open>Sequencing of two steps that both report an error code: the C idiom
  \<^verbatim>\<open>if (err != RGTP_OK) return err;\<close>.\<close>

definition cbind :: "'a cres \<Rightarrow> ('a \<Rightarrow> 'b cres) \<Rightarrow> 'b cres" where
  "cbind m f = (case m of None \<Rightarrow> None | Some (Inl e) \<Rightarrow> Some (Inl e) | Some (Inr r) \<Rightarrow> f r)"

subsection \<open>Memory\<close>

text \<open>\<^verbatim>\<open>memcpy(dst + off, src, n)\<close>.\<close>

definition mem_copy :: "bytes \<Rightarrow> nat \<Rightarrow> bytes \<Rightarrow> nat \<Rightarrow> bytes option" where
  "mem_copy dst off src n =
    (if off + n \<le> length dst \<and> n \<le> length src
     then Some (take off dst @ take n src @ drop (off + n) dst) else None)"

text \<open>A sequence of byte stores at \<^verbatim>\<open>dst + off\<close>, and the read of
  the \<^verbatim>\<open>n\<close> bytes at \<^verbatim>\<open>src + off\<close>.\<close>

definition mem_put :: "bytes \<Rightarrow> nat \<Rightarrow> bytes \<Rightarrow> bytes option" where
  "mem_put dst off bs = mem_copy dst off bs (length bs)"

definition mem_get :: "bytes \<Rightarrow> nat \<Rightarrow> nat \<Rightarrow> bytes option" where
  "mem_get src off n = (if off + n \<le> length src then Some (take n (drop off src)) else None)"

definition byte_at :: "bytes \<Rightarrow> nat \<Rightarrow> u8 option" where
  "byte_at src off = (if off < length src then Some (src ! off) else None)"

subsection \<open>Facts on results\<close>

lemma cbind_simps [simp]:
  "cbind None f = None"
  "cbind (Some (Inl e)) f = Some (Inl e)"
  "cbind (Some (Inr r)) f = f r"
  by (simp_all add: cbind_def)

lemma cbind_ok_iff: "cbind m f = ok r \<longleftrightarrow> (\<exists>x. m = ok x \<and> f x = ok r)"
  by (auto simp: cbind_def split: option.splits sum.splits)

lemma rgtp_error_code_inj: "rgtp_error_code a = rgtp_error_code b \<Longrightarrow> a = b"
  by (cases a; cases b) simp_all

subsection \<open>Facts on memory\<close>

lemma mem_put_0 [mem_simps]:
  "length bs \<le> length dst \<Longrightarrow> mem_put dst 0 bs = Some (bs @ drop (length bs) dst)"
  by (simp add: mem_put_def mem_copy_def)

lemma mem_put_app [mem_simps]:
  "off = length pre \<Longrightarrow> length bs \<le> length rest \<Longrightarrow>
    mem_put (pre @ rest) off bs = Some ((pre @ bs) @ drop (length bs) rest)"
  by (simp add: mem_put_def mem_copy_def)

lemma mem_copy_app [mem_simps]:
  "off = length pre \<Longrightarrow> n \<le> length rest \<Longrightarrow> n \<le> length src \<Longrightarrow>
    mem_copy (pre @ rest) off src n = Some ((pre @ take n src) @ drop n rest)"
  by (simp add: mem_copy_def)

lemma mem_put_length: "mem_put dst off bs = Some d \<Longrightarrow> length d = length dst"
  by (auto simp: mem_put_def mem_copy_def split: if_splits)

lemma mem_copy_length: "mem_copy dst off src n = Some d \<Longrightarrow> length d = length dst"
  by (auto simp: mem_copy_def split: if_splits)

lemma byte_at_app [codec_simps]:
  "i = length a \<Longrightarrow> byte_at (a @ x # r) i = Some x"
  by (simp add: byte_at_def nth_append)

lemma byte_at_0 [codec_simps]: "byte_at (x # r) 0 = Some x"
  by (simp add: byte_at_def)

lemma byte_at_defined: "i < length p \<Longrightarrow> byte_at p i = Some (p ! i)"
  by (simp add: byte_at_def)

lemma mem_get_defined: "off + n \<le> length p \<Longrightarrow> mem_get p off n = Some (take n (drop off p))"
  by (simp add: mem_get_def)

subsection \<open>Facts on words\<close>

lemma mask_byte: "(0xFF :: 'a::len word) = mask 8"
  by (simp add: mask_eq_exp_minus_1)

lemma byte_lane:
  "8 \<le> m \<Longrightarrow> k \<le> n \<and> n - k < m \<and> n - k < 8 \<and> P (k + (n - k)) \<longleftrightarrow> k \<le> n \<and> n < k + (8::nat) \<and> P n"
  by (auto simp: add.commute)

lemma byte_lane_join:
  "j = k + (8::nat) \<Longrightarrow> (k \<le> n \<and> n < j \<and> b \<or> n < k \<and> b) \<longleftrightarrow> n < j \<and> b"
  by auto

lemma byte_lane_low: "n < (8::nat) \<and> P n \<and> n < 8 \<longleftrightarrow> n < 8 \<and> P n"
  by auto

lemma word_of_nat_unat_16: "n < 65536 \<Longrightarrow> unat (word_of_nat n :: u16) = n"
  by (simp add: unat_of_nat take_bit_nat_eq_self)

lemma word_of_nat_unat_32: "n < 4294967296 \<Longrightarrow> unat (word_of_nat n :: u32) = n"
  by (simp add: unat_of_nat take_bit_nat_eq_self)

lemma unat_u16_bound: "unat (w :: u16) < 65536"
  by (rule order_less_le_trans [OF unsigned_less]) simp

lemma unat_u32_bound: "unat (w :: u32) < 4294967296"
  by (rule order_less_le_trans [OF unsigned_less]) simp

lemma unat_u8_bound: "unat (w :: u8) < 256"
  by (rule order_less_le_trans [OF unsigned_less]) simp

lemma unat_ucast_32_64: "unat (ucast (v :: u32) :: u64) = unat v"
  using unat_u32_bound [of v] by (simp add: unsigned_ucast_eq take_bit_nat_eq_self)

lemma u64_div_u32:
  assumes "unat (a :: u64) div unat c < 4294967296"
  shows "unat (ucast (a div ucast (c :: u32)) :: u32) = unat a div unat c"
proof -
  have "unat (a div ucast c) = unat a div unat c" by (simp add: unat_div unat_ucast_32_64 del: unsigned_ucast_eq)
  then show ?thesis using assms by (simp add: unsigned_ucast_eq take_bit_nat_eq_self)
qed

subsection \<open>Transition systems with an invariant\<close>

text \<open>A sequence of steps, each of which may be undefined.\<close>

primrec run_steps :: "('op \<Rightarrow> 'st \<Rightarrow> 'st option) \<Rightarrow> 'op list \<Rightarrow> 'st \<Rightarrow> 'st option" where
  "run_steps step [] st = Some st"
| "run_steps step (x # xs) st = do {st' \<leftarrow> step x st; run_steps step xs st'}"

text \<open>The interface shared by the stateful components: in a state of the invariant
  every allowed step is defined and keeps the invariant.  Then so does every sequence
  of steps.\<close>

locale step_system =
  fixes step :: "'op \<Rightarrow> 'st \<Rightarrow> 'st option"
    and allowed :: "'op \<Rightarrow> bool"
    and inv :: "'st \<Rightarrow> bool"
  assumes step_inv: "inv st \<Longrightarrow> allowed x \<Longrightarrow> \<exists>st'. step x st = Some st' \<and> inv st'"
begin

lemma run_inv: "inv st \<Longrightarrow> list_all allowed xs \<Longrightarrow> \<exists>st'. run_steps step xs st = Some st' \<and> inv st'"
proof (induction xs arbitrary: st)
  case (Cons x xs)
  then obtain st' where "step x st = Some st'" "inv st'" using step_inv by fastforce
  with Cons show ?case by simp
qed simp

end

subsection \<open>Refinement\<close>

text \<open>The outputs of a sequence of operations of an implementation, whose steps may
  be undefined, and of a specification.\<close>

primrec run_outputs :: "('op \<Rightarrow> 'c \<Rightarrow> ('o \<times> 'c) option) \<Rightarrow> 'op list \<Rightarrow> 'c \<Rightarrow> 'o list option" where
  "run_outputs step [] c = Some []"
| "run_outputs step (x # xs) c = do {
     (r, c') \<leftarrow> step x c;
     rs \<leftarrow> run_outputs step xs c';
     Some (r # rs)}"

primrec spec_outputs :: "('op \<Rightarrow> 'a \<Rightarrow> 'o \<times> 'a) \<Rightarrow> 'op list \<Rightarrow> 'a \<Rightarrow> 'o list" where
  "spec_outputs step [] a = []"
| "spec_outputs step (x # xs) a = (let (r, a') = step x a in r # spec_outputs step xs a')"

text \<open>An implementation refines a specification through an abstraction function when
  in every state of the invariant each allowed operation is defined, gives the output
  of the specification and leads to a state of the invariant that abstracts to the
  specification's.  Then all output sequences agree.\<close>

locale refinement =
  fixes cstep :: "'op \<Rightarrow> 'c \<Rightarrow> ('o \<times> 'c) option"
    and astep :: "'op \<Rightarrow> 'a \<Rightarrow> 'o \<times> 'a"
    and abs :: "'c \<Rightarrow> 'a"
    and inv :: "'c \<Rightarrow> bool"
    and allowed :: "'op \<Rightarrow> bool"
  assumes step_refines:
    "inv c \<Longrightarrow> allowed x \<Longrightarrow> \<exists>r c'. cstep x c = Some (r, c') \<and> inv c' \<and> astep x (abs c) = (r, abs c')"
begin

lemma outputs_refine:
  "inv c \<Longrightarrow> list_all allowed xs \<Longrightarrow> run_outputs cstep xs c = Some (spec_outputs astep xs (abs c))"
proof (induction xs arbitrary: c)
  case (Cons x xs)
  then obtain r c' where "cstep x c = Some (r, c')" "inv c'" "astep x (abs c) = (r, abs c')"
    using step_refines by fastforce
  with Cons show ?case by simp
qed simp

end

end
