(* ===== verification/Rgtp_GF256.thy ===== *)
theory Rgtp_GF256
  imports Rgtp_Prelude "HOL-Library.Signed_Division"
begin

text \<open>
  Arithmetic in the field with 256 elements, from
  \<^verbatim>\<open>src/fec/rgtp_gf256.c\<close>: the construction of the antilog and log
  tables and the operations that read them.  The lemmas identify the tables with the
  powers of the generator 2 modulo the polynomial 0x11D, show that the generator has
  order 255, that multiplication by table is multiplication of polynomials modulo
  0x11D, and that the operations form a field, for which the theory instantiates
  the class \<^verbatim>\<open>field\<close> of the library.
\<close>

unbundle bit_operations_syntax

subsection \<open>Tables and operations\<close>

text \<open>The step of the table loop: \<^verbatim>\<open>x <<= 1; if (x & 0x100u) x ^= 0x11Du;\<close>\<close>

definition gf_next :: "u32 \<Rightarrow> u32" where
  "gf_next x = (let x = push_bit 1 x in if x AND 0x100 \<noteq> 0 then x XOR 0x11D else x)"

text \<open>The two tables, \<^verbatim>\<open>gf_exp[512]\<close> and
  \<^verbatim>\<open>gf_log[256]\<close>, zero before the initialisation.\<close>

definition gf256_loop :: "nat \<Rightarrow> u8 list \<times> u8 list \<times> u32" where
  "gf256_loop n = fold (\<lambda>i (gexp, glog, x).
       (gexp[i := ucast x], glog[unat x := word_of_nat i], gf_next x))
     [0..<n] (replicate 512 0, replicate 256 0, 1)"

definition gf256_double :: "nat \<Rightarrow> u8 list \<Rightarrow> u8 list" where
  "gf256_double n gexp = fold (\<lambda>i gexp. gexp[i := gexp ! (i - 255)]) [256..<n] gexp"

definition gf256_init :: "u8 list \<times> u8 list" where
  "gf256_init =
    (case gf256_loop 255 of (gexp, glog, x) \<Rightarrow>
      (gf256_double 512 (gexp[255 := gexp ! 0]), glog[0 := 0]))"

definition gf_exp :: "u8 list" where "gf_exp = fst gf256_init"
definition gf_log :: "u8 list" where "gf_log = snd gf256_init"

definition gf_add :: "u8 \<Rightarrow> u8 \<Rightarrow> u8" where "gf_add a b = a XOR b"
definition gf_sub :: "u8 \<Rightarrow> u8 \<Rightarrow> u8" where "gf_sub a b = a XOR b"

definition gf_mul :: "u8 \<Rightarrow> u8 \<Rightarrow> u8" where
  "gf_mul a b = (if a = 0 \<or> b = 0 then 0
     else gf_exp ! (unat (gf_log ! unat a) + unat (gf_log ! unat b)))"

definition gf_div :: "u8 \<Rightarrow> u8 \<Rightarrow> u8" where
  "gf_div a b = (if a = 0 then 0
     else gf_exp ! ((unat (gf_log ! unat a) + 255 - unat (gf_log ! unat b)) mod 255))"

definition gf_inv :: "u8 \<Rightarrow> u8" where
  "gf_inv a = gf_exp ! (255 - unat (gf_log ! unat a))"

text \<open>A result of arithmetic on \<^verbatim>\<open>int\<close>, which has 32 bits: outside
  its range the behaviour is undefined.\<close>

definition c_int :: "int \<Rightarrow> int option" where
  "c_int v = (if - (2 ^ 31) \<le> v \<and> v < 2 ^ 31 then Some v else None)"

text \<open>The product \<^verbatim>\<open>(int)gf_log[a] * p\<close> may overflow; the remainder
  of C truncates towards zero.\<close>

definition gf_pow :: "u8 \<Rightarrow> int \<Rightarrow> u8 option" where
  "gf_pow a p = (if p = 0 then Some 1 else if a = 0 then Some 0
     else do {
       v \<leftarrow> c_int (uint (gf_log ! unat a) * p);
       let e = v smod 255;
       let e = (if e < 0 then e + 255 else e);
       Some (gf_exp ! nat e) })"

subsection \<open>The reference: polynomials over two elements modulo 0x11D\<close>

text \<open>Multiplication by the generator, on bytes, and the product as the sum of the
  shifted multiples of one factor selected by the bits of the other.\<close>

definition xtime :: "u8 \<Rightarrow> u8" where
  "xtime a = push_bit 1 a XOR (if bit a 7 then 0x1D else 0)"

fun gf_mul_ref :: "nat \<Rightarrow> u8 \<Rightarrow> u8 \<Rightarrow> u8" where
  "gf_mul_ref 0 a b = 0"
| "gf_mul_ref (Suc n) a b = (if bit b 0 then a else 0) XOR gf_mul_ref n (xtime a) (drop_bit 1 b)"

definition alpha_pow :: "nat \<Rightarrow> u8" where "alpha_pow n = (xtime ^^ n) 1"

subsection \<open>Multiplication by the generator\<close>

lemma xtime_xor [simp]: "xtime (a XOR b) = xtime a XOR xtime b"
  by (simp add: xtime_def push_bit_xor bit_xor_iff xor.assoc xor.left_commute xor.commute)

lemma xtime_0 [simp]: "xtime 0 = 0"
  by (simp add: xtime_def)

lemma small_nat_cases: "n < (8::nat) \<Longrightarrow> n \<in> {0, 1, 2, 3, 4, 5, 6, 7}"
  by auto

lemma bit_poly8: "bit (0x1D :: u8) n \<longleftrightarrow> n \<in> {0, 2, 3, 4}"
proof (cases "n < 8")
  case True
  then show ?thesis by (auto dest!: small_nat_cases)
next
  case False
  then show ?thesis using bit_imp_le_length [of "0x1D :: u8" n] by auto
qed

lemma bit_poly32: "bit (0x11D :: u32) n \<longleftrightarrow> n \<in> {0, 2, 3, 4, 8}"
proof -
  have "(0x11D :: u32) = push_bit 8 1 XOR ucast (0x1D :: u8)" by simp
  then have "bit (0x11D :: u32) n \<longleftrightarrow> bit (push_bit 8 (1 :: u32)) n \<noteq> bit (ucast (0x1D :: u8) :: u32) n"
    by (metis bit_xor_iff)
  then show ?thesis
    unfolding bit_push_bit_iff bit_ucast_iff bit_poly8 by (auto simp: bit_1_iff)
qed

lemma bit_xtime: "bit (xtime a) n \<longleftrightarrow> n < 8 \<and> (1 \<le> n \<and> bit a (n - 1)) \<noteq> (bit a 7 \<and> n \<in> {0, 2, 3, 4})"
proof -
  have "bit (xtime a) n \<longleftrightarrow> bit (push_bit 1 a) n \<noteq> (bit a 7 \<and> n \<in> {0, 2, 3, 4})"
    unfolding xtime_def bit_xor_iff using bit_poly8 [of n] by (auto simp del: push_bit_Suc)
  then show ?thesis
    unfolding bit_push_bit_iff by auto
qed

lemma and_0x100: "x AND 0x100 \<noteq> 0 \<longleftrightarrow> bit x 8" for x :: u32
proof -
  have "(0x100 :: u32) = push_bit 8 1" by simp
  then show ?thesis
    by (metis and_exp_eq_0_iff_not_bit push_bit_of_1)
qed

lemma gf_next_ucast: "gf_next (ucast a) = ucast (xtime a)" for a :: u8
proof (rule bit_word_eqI)
  fix n assume n: "n < LENGTH(32)"
  have sh: "bit (push_bit 1 (ucast a :: u32)) m \<longleftrightarrow> 1 \<le> m \<and> m < 9 \<and> bit a (m - 1)" if "m < 32" for m
    unfolding bit_push_bit_iff bit_ucast_iff using that bit_imp_le_length [of a "m - 1"] by auto
  have "bit (gf_next (ucast a)) n \<longleftrightarrow>
      (1 \<le> n \<and> n < 9 \<and> bit a (n - 1)) \<noteq> (bit a 7 \<and> n \<in> {0, 2, 3, 4, 8})"
    using sh [of n] sh [of 8] n bit_poly32 [of n]
    by (auto simp: gf_next_def Let_def and_0x100 bit_xor_iff simp del: push_bit_Suc)
  then show "bit (gf_next (ucast a)) n = bit (ucast (xtime a) :: u32) n"
    unfolding bit_ucast_iff bit_xtime using n
    by (cases "n < 8"; cases "n = 8") auto
qed

lemma xtime_eq_0: "xtime a = 0 \<longleftrightarrow> a = 0"
proof
  assume *: "xtime a = 0"
  have 7: "\<not> bit a 7" using bit_xtime [of a 0] * by simp
  show "a = 0"
  proof (rule bit_word_eqI)
    fix n assume n: "n < LENGTH(8)"
    show "bit a n = bit 0 n"
      using bit_xtime [of a "Suc n"] * 7 n by (cases "n = 7") auto
  qed
qed simp

lemma xtime_inj: "xtime a = xtime b \<Longrightarrow> a = b"
proof -
  assume "xtime a = xtime b"
  then have "xtime (a XOR b) = 0" by simp
  then have "a XOR b = 0" unfolding xtime_eq_0 .
  moreover have "a = (a XOR b) XOR b" by (simp add: xor.assoc)
  ultimately show "a = b" by simp
qed

lemma xtime_pow_xor: "(xtime ^^ n) (a XOR b) = (xtime ^^ n) a XOR (xtime ^^ n) b"
  by (induction n) simp_all

lemma xtime_pow_0 [simp]: "(xtime ^^ n) 0 = 0"
  by (induction n) simp_all

lemma xtime_pow_inj: "(xtime ^^ n) a = (xtime ^^ n) b \<Longrightarrow> a = b"
  by (induction n) (auto dest: xtime_inj)

lemma alpha_pow_Suc: "alpha_pow (Suc n) = xtime (alpha_pow n)"
  by (simp add: alpha_pow_def)

lemma alpha_pow_0 [simp]: "alpha_pow 0 = 1"
  by (simp add: alpha_pow_def)

lemma alpha_pow_add: "(xtime ^^ m) (alpha_pow n) = alpha_pow (m + n)"
  by (simp add: alpha_pow_def funpow_add)

fun alpha_list :: "nat \<Rightarrow> u8 \<Rightarrow> u8 list" where
  "alpha_list 0 x = []"
| "alpha_list (Suc n) x = x # alpha_list n (xtime x)"

lemma alpha_list_map: "alpha_list n x = map (\<lambda>i. (xtime ^^ i) x) [0..<n]"
proof (induction n arbitrary: x)
  case (Suc n)
  have "alpha_list n (xtime x) = map (\<lambda>i. (xtime ^^ Suc i) x) [0..<n]"
    unfolding Suc by (simp add: funpow_swap1)
  also have "\<dots> = map (\<lambda>i. (xtime ^^ i) x) [Suc 0..<Suc n]"
    unfolding map_Suc_upt [symmetric] map_map comp_def ..
  finally show ?case
    by (simp add: upt_conv_Cons del: upt_Suc)
qed simp

subsection \<open>The generator has order 255\<close>

lemma alpha_order_check: "list_all (\<lambda>x. x \<noteq> 1) (alpha_list 254 2) \<and> last (alpha_list 256 1) = 1"
  by code_simp

lemma alpha_pow_255: "alpha_pow 255 = 1"
proof -
  have "last (alpha_list 256 1) = (xtime ^^ 255) 1"
    unfolding alpha_list_map by (subst last_map) simp_all
  then show ?thesis using alpha_order_check by (simp add: alpha_pow_def)
qed

lemma alpha_pow_ne_1: "0 < n \<Longrightarrow> n < 255 \<Longrightarrow> alpha_pow n \<noteq> 1"
proof -
  assume n: "0 < n" "n < 255"
  have "xtime 1 = 2" by (simp add: xtime_def)
  then have "alpha_pow n = (xtime ^^ (n - 1)) 2"
    using n by (metis Suc_pred' alpha_pow_def comp_apply funpow_Suc_right)
  then have "alpha_pow n \<in> set (alpha_list 254 2)"
    unfolding alpha_list_map using n by auto
  then show ?thesis using alpha_order_check by (auto simp: list_all_iff)
qed

lemma alpha_pow_mod: "alpha_pow (n + 255 * m) = alpha_pow n"
proof (induction m)
  case (Suc m)
  have "alpha_pow (n + 255 * Suc m) = (xtime ^^ (n + 255 * m)) (alpha_pow 255)"
    by (simp add: alpha_pow_add algebra_simps)
  then show ?case using Suc by (simp add: alpha_pow_255 flip: alpha_pow_def)
qed simp

lemma alpha_pow_mod_eq: "alpha_pow (n mod 255) = alpha_pow n"
  using alpha_pow_mod [of "n mod 255" "n div 255"] by simp

lemma alpha_pow_nonzero: "alpha_pow n \<noteq> 0"
  by (induction n) (simp_all add: alpha_pow_Suc xtime_eq_0)

lemma alpha_pow_inj: "i < 255 \<Longrightarrow> j < 255 \<Longrightarrow> alpha_pow i = alpha_pow j \<Longrightarrow> i = j"
proof (induction i j rule: linorder_wlog)
  case (le i j)
  have "(xtime ^^ i) 1 = (xtime ^^ i) (alpha_pow (j - i))"
    using le by (simp add: alpha_pow_add flip: alpha_pow_def)
  then have "alpha_pow (j - i) = 1"
    by (metis xtime_pow_inj)
  then show ?case using le alpha_pow_ne_1 [of "j - i"] by (cases "j - i = 0") auto
qed auto

lemma alpha_pow_surj: "a \<noteq> 0 \<Longrightarrow> \<exists>i < 255. alpha_pow i = a"
proof -
  assume a: "a \<noteq> 0"
  have inj: "inj_on alpha_pow {..<255}"
    by (intro inj_onI) (auto intro: alpha_pow_inj)
  have "card (alpha_pow ` {..<255}) = 255"
    by (simp add: card_image [OF inj])
  moreover have "card (UNIV - {0 :: u8}) = 255"
    by (simp add: card_Diff_subset card_word)
  moreover have "alpha_pow ` {..<255} \<subseteq> UNIV - {0}"
    by (auto simp: alpha_pow_nonzero)
  ultimately have "alpha_pow ` {..<255} = UNIV - {0}"
    by (intro card_subset_eq) simp_all
  then have "a \<in> alpha_pow ` {..<255}" using a by simp
  then show ?thesis by auto
qed

subsection \<open>The tables\<close>

definition gpow :: "nat \<Rightarrow> u32" where "gpow n = ucast (alpha_pow n)"

lemma gf_next_gpow: "gf_next (gpow n) = gpow (Suc n)"
  by (simp add: gpow_def gf_next_ucast alpha_pow_Suc)

lemma unat_gpow: "unat (gpow n) = unat (alpha_pow n)"
  using unat_u8_bound [of "alpha_pow n"] by (simp add: gpow_def unsigned_ucast_eq take_bit_nat_eq_self)

lemma gf256_loop_inv:
  assumes "n \<le> 255"
  shows "\<exists>e l. gf256_loop n = (e, l, gpow n) \<and> length e = 512 \<and> length l = 256 \<and>
    (\<forall>i < n. e ! i = alpha_pow i) \<and> (\<forall>i < n. l ! unat (alpha_pow i) = word_of_nat i)"
  using assms
proof (induction n)
  case 0
  then show ?case by (simp add: gf256_loop_def gpow_def)
next
  case (Suc n)
  then obtain e l where IH: "gf256_loop n = (e, l, gpow n)" "length e = 512" "length l = 256"
      "\<forall>i < n. e ! i = alpha_pow i" "\<forall>i < n. l ! unat (alpha_pow i) = word_of_nat i"
    by auto
  have step: "gf256_loop (Suc n) =
      (e[n := ucast (gpow n)], l[unat (gpow n) := word_of_nat n], gpow (Suc n))"
    using IH(1) by (simp add: gf256_loop_def gf_next_gpow)
  have ne: "unat (alpha_pow i) \<noteq> unat (alpha_pow n)" if "i < n" for i
    using that Suc.prems alpha_pow_inj [of i n] by (auto dest: unsigned_word_eqI)
  have lt: "unat (alpha_pow i) < 256" for i
    by (rule unat_u8_bound)
  have conv: "ucast (gpow n) = alpha_pow n"
    by (rule bit_word_eqI) (auto simp: gpow_def bit_simps)
  have "\<forall>i < Suc n. e[n := ucast (gpow n)] ! i = alpha_pow i"
    using IH Suc.prems by (auto simp: nth_list_update less_Suc_eq conv)
  moreover have "\<forall>i < Suc n. l[unat (gpow n) := word_of_nat n] ! unat (alpha_pow i) = word_of_nat i"
    using IH lt ne ne [THEN not_sym] by (auto simp: less_Suc_eq unat_gpow nth_list_update)
  ultimately show ?case
    unfolding step using IH by simp
qed

lemma gf256_double_inv:
  assumes "length e = 512" and "\<forall>i < 256. e ! i = alpha_pow i" and "256 \<le> n" and "n \<le> 512"
  shows "length (gf256_double n e) = 512 \<and> (\<forall>i < n. gf256_double n e ! i = alpha_pow i)"
  using assms(3,4)
proof (induction n rule: dec_induct)
  case base
  then show ?case using assms by (simp add: gf256_double_def)
next
  case (step n)
  have "gf256_double (Suc n) e = (gf256_double n e)[n := gf256_double n e ! (n - 255)]"
    using step by (simp add: gf256_double_def)
  moreover have "alpha_pow (n - 255) = alpha_pow n"
    using step alpha_pow_mod [of "n - 255" 1] by simp
  ultimately show ?case
    using step by (auto simp: nth_list_update less_Suc_eq)
qed

lemma gf_tables:
  shows gf_exp_nth: "i < 512 \<Longrightarrow> gf_exp ! i = alpha_pow i"
    and gf_exp_length: "length gf_exp = 512"
    and gf_log_length: "length gf_log = 256"
    and gf_log_alpha: "i < 255 \<Longrightarrow> gf_log ! unat (alpha_pow i) = word_of_nat i"
proof -
  obtain e l where *: "gf256_loop 255 = (e, l, gpow 255)" "length e = 512" "length l = 256"
      "\<forall>i < 255. e ! i = alpha_pow i" "\<forall>i < 255. l ! unat (alpha_pow i) = word_of_nat i"
    using gf256_loop_inv [of 255] by auto
  define e' where "e' = e[255 := e ! 0]"
  have e': "length e' = 512" "\<forall>i < 256. e' ! i = alpha_pow i"
    using * less_antisym [of _ 255] by (auto simp: e'_def nth_list_update alpha_pow_255)
  have init: "gf256_init = (gf256_double 512 e', l[0 := 0])"
    by (simp add: gf256_init_def * e'_def)
  show "i < 512 \<Longrightarrow> gf_exp ! i = alpha_pow i" "length gf_exp = 512"
    using gf256_double_inv [OF e', of 512] by (simp_all add: gf_exp_def init)
  show "length gf_log = 256" using * by (simp add: gf_log_def init)
  have "unat (alpha_pow i) \<noteq> 0" for i
    using alpha_pow_nonzero [of i] by (simp add: unat_eq_zero)
  then show "i < 255 \<Longrightarrow> gf_log ! unat (alpha_pow i) = word_of_nat i"
    using * by (simp add: gf_log_def init nth_list_update)
qed

subsection \<open>The operations on powers of the generator\<close>

lemma gf_log_unat: "i < 255 \<Longrightarrow> unat (gf_log ! unat (alpha_pow i)) = i"
  by (simp add: gf_log_alpha unat_of_nat take_bit_nat_eq_self)

lemma gf_mul_zero [simp]: "gf_mul 0 b = 0" "gf_mul a 0 = 0"
  by (simp_all add: gf_mul_def)

lemma gf_mul_alpha_less: "i < 255 \<Longrightarrow> j < 255 \<Longrightarrow> gf_mul (alpha_pow i) (alpha_pow j) = alpha_pow (i + j)"
  by (simp add: gf_mul_def alpha_pow_nonzero gf_log_unat gf_exp_nth)

lemma gf_mul_alpha: "gf_mul (alpha_pow i) (alpha_pow j) = alpha_pow (i + j)"
proof -
  have "gf_mul (alpha_pow (i mod 255)) (alpha_pow (j mod 255)) = alpha_pow (i mod 255 + j mod 255)"
    by (rule gf_mul_alpha_less) simp_all
  moreover have "alpha_pow (i mod 255 + j mod 255) = alpha_pow (i + j)"
    using alpha_pow_mod_eq [of "i mod 255 + j mod 255"] alpha_pow_mod_eq [of "i + j"] by (simp add: mod_add_eq)
  ultimately show ?thesis by (simp add: alpha_pow_mod_eq)
qed

lemma gf_cases: obtains "a = 0" | i where "i < 255" "a = alpha_pow i"
  using alpha_pow_surj by blast

lemma gf_mul_xtime: "gf_mul (alpha_pow i) b = (xtime ^^ i) b"
  by (cases b rule: gf_cases) (simp_all add: gf_mul_alpha alpha_pow_add)

lemma gf_mul_commute: "gf_mul a b = gf_mul b a"
  by (auto simp: gf_mul_def add.commute)

lemma gf_mul_assoc: "gf_mul (gf_mul a b) c = gf_mul a (gf_mul b c)"
  by (cases a rule: gf_cases; cases b rule: gf_cases; cases c rule: gf_cases)
    (simp_all add: gf_mul_alpha add.assoc)

lemma gf_mul_one [simp]: "gf_mul 1 a = a" "gf_mul a 1 = a"
  using gf_mul_xtime [of 0 a] by (simp_all add: gf_mul_commute)

lemma gf_mul_xor: "gf_mul a (b XOR c) = gf_mul a b XOR gf_mul a c"
  by (cases a rule: gf_cases) (simp_all add: gf_mul_xtime xtime_pow_xor)

lemma gf_mul_eq_0: "gf_mul a b = 0 \<longleftrightarrow> a = 0 \<or> b = 0"
  by (cases a rule: gf_cases; cases b rule: gf_cases) (simp_all add: gf_mul_alpha alpha_pow_nonzero)

lemma gf_inv_mul: "a \<noteq> 0 \<Longrightarrow> gf_mul (gf_inv a) a = 1"
  by (cases a rule: gf_cases)
    (simp_all add: gf_inv_def gf_log_unat gf_exp_nth gf_mul_alpha alpha_pow_255)

lemma gf_div_mul: "b \<noteq> 0 \<Longrightarrow> gf_div a b = gf_mul a (gf_inv b)"
proof (cases a rule: gf_cases; cases b rule: gf_cases)
  fix i j assume *: "i < 255" "a = alpha_pow i" "j < 255" "b = alpha_pow j"
  have "gf_div a b = alpha_pow ((i + 255 - j) mod 255)"
    using * by (simp add: gf_div_def alpha_pow_nonzero gf_log_unat gf_exp_nth less_trans [OF mod_less_divisor])
  also have "\<dots> = alpha_pow (i + (255 - j))"
    using * by (simp add: alpha_pow_mod_eq)
  finally show ?thesis
    using * by (simp add: gf_inv_def gf_log_unat gf_exp_nth gf_mul_alpha)
qed (simp_all add: gf_div_def)

lemma gf_log_2: "gf_log ! unat (2 :: u8) = 1" and alpha_pow_1: "alpha_pow 1 = 2"
proof -
  show 1: "alpha_pow 1 = 2" by (simp add: alpha_pow_def xtime_def)
  show "gf_log ! unat (2 :: u8) = 1"
    using gf_log_alpha [of 1] by (simp only: 1) simp
qed

subsection \<open>Table multiplication is polynomial multiplication\<close>

lemma xtime_gf_mul: "xtime a = gf_mul 2 a"
  using gf_mul_xtime [of 1 a] by (simp add: alpha_pow_1 [unfolded One_nat_def])

lemma take_bit_split:
  "take_bit (Suc n) b = (if bit b 0 then 1 else 0) XOR xtime (take_bit n (drop_bit 1 b))" for b :: u8
proof (rule bit_word_eqI)
  fix m assume m: "m < LENGTH(8)"
  have 8: "\<not> bit b 8" using bit_imp_le_length [of b 8] by auto
  have c: "bit (take_bit n (drop_bit 1 b)) k \<longleftrightarrow> k < n \<and> bit b (k + 1)" for k
    by (simp add: bit_simps)
  have "bit (xtime (take_bit n (drop_bit 1 b))) m \<longleftrightarrow> 1 \<le> m \<and> m - 1 < n \<and> bit b m"
    unfolding bit_xtime c using m 8 by auto
  moreover have "bit (if bit b 0 then 1 else 0 :: u8) m \<longleftrightarrow> m = 0 \<and> bit b 0"
    by (auto simp: bit_1_iff)
  ultimately show "bit (take_bit (Suc n) b) m =
      bit ((if bit b 0 then 1 else 0) XOR xtime (take_bit n (drop_bit 1 b))) m"
    unfolding bit_xor_iff bit_take_bit_iff by (cases m) auto
qed

lemma gf_mul_ref_take: "gf_mul_ref n a b = gf_mul a (take_bit n b)"
proof (induction n arbitrary: a b)
  case (Suc n)
  have "gf_mul a (xtime c) = gf_mul (xtime a) c" for c
    by (metis xtime_gf_mul gf_mul_assoc gf_mul_commute)
  then show ?case
    unfolding take_bit_split gf_mul_xor by (simp add: Suc)
qed simp

lemma gf_mul_eq_ref: "gf_mul a b = gf_mul_ref 8 a b"
  by (simp add: gf_mul_ref_take take_bit_word_eq_self)

lemmas [code] = gf_mul_eq_ref

subsection \<open>The field instance\<close>

datatype gf = Gf u8

primrec gf_byte :: "gf \<Rightarrow> u8" where "gf_byte (Gf a) = a"

instantiation gf :: field
begin

definition zero_gf :: gf where "0 = Gf 0"
definition one_gf :: gf where "1 = Gf 1"
definition plus_gf :: "gf \<Rightarrow> gf \<Rightarrow> gf" where "a + b = Gf (gf_add (gf_byte a) (gf_byte b))"
definition minus_gf :: "gf \<Rightarrow> gf \<Rightarrow> gf" where "a - b = Gf (gf_sub (gf_byte a) (gf_byte b))"
definition uminus_gf :: "gf \<Rightarrow> gf" where "- a = (a :: gf)"
definition times_gf :: "gf \<Rightarrow> gf \<Rightarrow> gf" where "a * b = Gf (gf_mul (gf_byte a) (gf_byte b))"
definition inverse_gf :: "gf \<Rightarrow> gf" where
  "inverse a = (if gf_byte a = 0 then Gf 0 else Gf (gf_inv (gf_byte a)))"
definition divide_gf :: "gf \<Rightarrow> gf \<Rightarrow> gf" where "a div b = a * inverse (b :: gf)"

instance
proof
  fix a b c :: gf
  show "a + b + c = a + (b + c)" by (simp add: plus_gf_def gf_add_def xor.assoc)
  show "a + b = b + a" by (simp add: plus_gf_def gf_add_def xor.commute)
  show "0 + a = a" by (cases a) (simp add: plus_gf_def zero_gf_def gf_add_def)
  show "- a + a = 0" by (simp add: plus_gf_def zero_gf_def uminus_gf_def gf_add_def)
  show "a - b = a + - b" by (simp add: plus_gf_def minus_gf_def uminus_gf_def gf_add_def gf_sub_def)
  show "a * b * c = a * (b * c)" by (simp add: times_gf_def gf_mul_assoc)
  show "a * b = b * a" by (simp add: times_gf_def gf_mul_commute)
  show "1 * a = a" by (cases a) (simp add: times_gf_def one_gf_def)
  show "(a + b) * c = a * c + b * c"
    by (simp add: times_gf_def plus_gf_def gf_add_def gf_mul_xor gf_mul_commute [of _ "gf_byte c"])
  show "(0 :: gf) \<noteq> 1" by (simp add: zero_gf_def one_gf_def)
  show "a \<noteq> 0 \<Longrightarrow> inverse a * a = 1"
    by (cases a) (simp add: inverse_gf_def times_gf_def zero_gf_def one_gf_def gf_inv_mul)
  show "a div b = a * inverse b" by (simp add: divide_gf_def)
  show "inverse (0 :: gf) = 0" by (simp add: inverse_gf_def zero_gf_def)
qed

end

text \<open>The operations of the code as operations of the field.\<close>

named_theorems gf_field "the byte operations as field operations"

lemma Gf_xor [gf_field]: "Gf (a XOR b) = Gf a + Gf b"
  by (simp add: plus_gf_def gf_add_def)

lemma Gf_add [gf_field]: "Gf (gf_add a b) = Gf a + Gf b"
  by (simp add: plus_gf_def)

lemma Gf_mul [gf_field]: "Gf (gf_mul a b) = Gf a * Gf b"
  by (simp add: times_gf_def)

lemma Gf_inv: "a \<noteq> 0 \<Longrightarrow> Gf (gf_inv a) = inverse (Gf a)"
  by (simp add: inverse_gf_def)

lemma Gf_div: "b \<noteq> 0 \<Longrightarrow> Gf (gf_div a b) = Gf a / Gf b"
  by (simp add: gf_div_mul divide_inverse Gf_mul Gf_inv)

lemma Gf_0 [gf_field]: "Gf 0 = 0" by (simp add: zero_gf_def)
lemma Gf_1 [gf_field]: "Gf 1 = 1" by (simp add: one_gf_def)
lemma Gf_eq_0 [simp]: "Gf a = 0 \<longleftrightarrow> a = 0" by (simp add: zero_gf_def)
lemma Gf_byte [simp]: "Gf (gf_byte x) = x" by (cases x) simp
lemma gf_byte_0_1 [simp]: "gf_byte 0 = 0" "gf_byte 1 = 1" by (simp_all add: zero_gf_def one_gf_def)
lemma gf_byte_eq: "gf_byte x = a \<longleftrightarrow> x = Gf a" by (cases x) simp

lemma gf_add_self [simp]: "x + x = (0 :: gf)"
  by (simp add: plus_gf_def gf_add_def zero_gf_def)

lemma gf_minus_eq_plus [simp]: "x - y = x + (y :: gf)"
  by (simp add: plus_gf_def minus_gf_def gf_add_def gf_sub_def)

lemma gf_uminus_id [simp]: "- x = (x :: gf)"
  by (simp add: uminus_gf_def)

abbreviation alpha :: gf where "alpha \<equiv> Gf 2"

lemma Gf_alpha_pow [gf_field]: "Gf (alpha_pow n) = alpha ^ n"
proof (induction n)
  case (Suc n)
  have "Gf (alpha_pow (Suc n)) = Gf (gf_mul 2 (alpha_pow n))"
    by (simp add: alpha_pow_Suc xtime_gf_mul)
  then show ?case using Suc by (simp add: Gf_mul)
qed (simp add: Gf_1)

lemma alpha_power_inj: "i < 255 \<Longrightarrow> j < 255 \<Longrightarrow> alpha ^ i = alpha ^ j \<Longrightarrow> i = j"
  using alpha_pow_inj [of i j] by (simp flip: Gf_alpha_pow)

lemma gf_nonzero_power: "x \<noteq> 0 \<Longrightarrow> \<exists>i < 255. x = alpha ^ i"
  using alpha_pow_surj [of "gf_byte x"]
  by (cases x) (auto simp: zero_gf_def simp flip: Gf_alpha_pow)

lemma alpha_powi_mod: "power_int alpha k = alpha ^ nat (k mod 255)"
proof -
  have one: "alpha ^ 255 = 1"
    by (simp add: alpha_pow_255 Gf_1 flip: Gf_alpha_pow)
  have "power_int alpha k = power_int alpha (k mod 255 + 255 * (k div 255))"
    by simp
  also have "\<dots> = power_int alpha (k mod 255) * power_int (power_int alpha 255) (k div 255)"
    by (subst power_int_add) (simp_all add: power_int_mult)
  finally show ?thesis
    by (simp add: one power_int_def [of alpha "k mod 255"])
qed

lemma smod_fix: "(if k smod 255 < 0 then k smod 255 + 255 else k smod 255) = k mod 255" for k :: int
proof (cases "0 \<le> k")
  case True
  then have "k smod 255 = k mod 255"
    by (cases "k = 0") (simp_all add: signed_modulo_int_def signed_divide_int_def minus_div_mult_eq_mod)
  then show ?thesis by simp
next
  case False
  then have "k smod 255 = - (- k mod 255)"
    by (simp add: signed_modulo_int_def signed_divide_int_def)
  then show ?thesis by (simp add: zmod_zminus1_eq_if)
qed

lemma gf_log_bound: "a \<noteq> 0 \<Longrightarrow> uint (gf_log ! unat a) \<le> 254" for a :: u8
proof (cases a rule: gf_cases)
  fix i assume "i < 255" "a = alpha_pow i"
  then show ?thesis using gf_log_unat [of i] by (simp add: uint_nat)
qed simp

lemma gf_pow_trivial: "p = 0 \<or> a = 0 \<Longrightarrow> gf_pow a p = Some (gf_byte (power_int (Gf a) p))"
  by (auto simp: gf_pow_def Gf_0 power_int_0_left_if)

text \<open>Where the product does not overflow the code computes the power of the field.\<close>

lemma gf_pow_eq:
  assumes "c_int (uint (gf_log ! unat a) * p) \<noteq> None"
  shows "gf_pow a p = Some (gf_byte (power_int (Gf a) p))"
proof (cases "p = 0 \<or> a = 0")
  case True
  then show ?thesis by (rule gf_pow_trivial)
next
  case False
  then obtain i where i: "i < 255" "a = alpha_pow i" by (cases a rule: gf_cases) auto
  have "uint (gf_log ! unat a) = int i"
    using i by (metis gf_log_unat uint_nat)
  then have "gf_pow a p = Some (gf_exp ! nat ((int i * p) mod 255))"
    using False assms unfolding gf_pow_def Let_def c_int_def
    by (simp add: smod_fix split: if_splits)
  also have "gf_exp ! nat ((int i * p) mod 255) = alpha_pow (nat ((int i * p) mod 255))"
    by (rule gf_exp_nth) (simp add: nat_less_iff less_trans [OF pos_mod_bound])
  also have "Gf (alpha_pow (nat ((int i * p) mod 255))) = power_int (Gf a) p"
    by (simp add: Gf_alpha_pow i power_int_mult flip: alpha_powi_mod)
  then have "alpha_pow (nat ((int i * p) mod 255)) = gf_byte (power_int (Gf a) p)"
    by (metis gf_byte.simps)
  finally show ?thesis .
qed

text \<open>The largest logarithm is 254, so exponents up to \<open>(2 ^ 31 - 1) div 254\<close>
  are safe for every base.\<close>

lemma gf_pow_small:
  assumes "\<bar>p\<bar> \<le> 8454660"
  shows "gf_pow a p = Some (gf_byte (power_int (Gf a) p))"
proof (cases "a = 0")
  case True
  then show ?thesis by (intro gf_pow_trivial) simp
next
  case False
  define l where "l = uint (gf_log ! unat a)"
  have l: "0 \<le> l" "l \<le> 254" using gf_log_bound [OF False] by (simp_all add: l_def)
  have "\<bar>l * p\<bar> \<le> 254 * 8454660"
    unfolding abs_mult using l assms by (intro mult_mono) simp_all
  then show ?thesis by (intro gf_pow_eq) (auto simp: c_int_def abs_le_iff simp flip: l_def)
qed

lemma gf_pow_2: "n < 2 ^ 31 \<Longrightarrow> gf_pow 2 (int n) = Some (alpha_pow n)"
proof -
  assume n: "n < 2 ^ 31"
  have "c_int (uint (gf_log ! unat (2 :: u8)) * int n) = Some (int n)"
    unfolding gf_log_2 using n by (simp add: c_int_def)
  moreover have "gf_byte (power_int alpha (int n)) = alpha_pow n"
    by (simp flip: Gf_alpha_pow)
  ultimately show ?thesis using gf_pow_eq [of 2 "int n"] by simp
qed

subsection \<open>Properties\<close>

text \<open>C16: multiplication through the log and antilog tables is multiplication of
  polynomials over the two-element field modulo x^8 + x^4 + x^3 + x^2 + 1.\<close>

theorem gf_mul_polynomial: "gf_mul a b = gf_mul_ref 8 a b"
  by (rule gf_mul_eq_ref)

text \<open>C17: the operations make the 256 bytes a field: addition is exclusive or,
  multiplication is commutative, associative and distributes over addition, and
  \<^verbatim>\<open>gf_inv\<close> and \<^verbatim>\<open>gf_div\<close> invert and divide
  where the divisor is not 0.  \<^verbatim>\<open>gf_pow\<close> obeys the laws of powers
  for exponents of absolute value up to 8454660, the bound below which its product
  cannot overflow \<^verbatim>\<open>int\<close> for any base; the bound is sharp, since the
  next exponent overflows for the inverse of 2.\<close>

theorem gf256_field:
  "gf_mul a b = gf_mul b a \<and>
   gf_mul (gf_mul a b) c = gf_mul a (gf_mul b c) \<and>
   gf_mul a (gf_add b c) = gf_add (gf_mul a b) (gf_mul a c) \<and>
   gf_mul 1 a = a \<and>
   (a \<noteq> 0 \<longrightarrow> gf_mul (gf_inv a) a = 1) \<and>
   (b \<noteq> 0 \<longrightarrow> gf_mul (gf_div a b) b = a) \<and>
   gf_pow a 0 = Some 1 \<and> gf_pow a 1 = Some a \<and>
   (\<bar>p\<bar> \<le> 8454660 \<and> \<bar>q\<bar> \<le> 8454660 \<and> \<bar>p + q\<bar> \<le> 8454660 \<longrightarrow>
     (\<exists>x y z. gf_pow a p = Some x \<and> gf_pow a q = Some y \<and> gf_pow a (p + q) = Some z \<and>
       (a \<noteq> 0 \<longrightarrow> z = gf_mul x y))) \<and>
   gf_pow (gf_inv 2) 8454661 = None \<and> gf_pow (gf_inv 2) (- 8454661) = None"
proof -
  have add: "gf_byte (power_int (Gf a) (p + q)) = gf_mul (gf_byte (power_int (Gf a) p)) (gf_byte (power_int (Gf a) q))"
    if "a \<noteq> 0"
    unfolding gf_byte_eq Gf_mul using that by (simp add: power_int_add)
  have one: "gf_pow a 1 = Some a" by (simp add: gf_pow_small)
  have "gf_inv 2 = alpha_pow 254"
    using gf_log_2 gf_exp_nth [of 254] by (simp add: gf_inv_def)
  then have "uint (gf_log ! unat (gf_inv 2)) = 254" "gf_inv 2 \<noteq> 0"
    using gf_log_unat [of 254] alpha_pow_nonzero [of 254] by (simp_all add: uint_nat)
  then have over: "gf_pow (gf_inv 2) 8454661 = None" "gf_pow (gf_inv 2) (- 8454661) = None"
    by (simp_all add: gf_pow_def c_int_def)
  show ?thesis
    by (intro conjI impI, rule gf_mul_commute)
      (simp_all add: add one over gf_pow_small gf_mul_assoc gf_add_def gf_mul_xor gf_inv_mul gf_div_mul)
qed

theorem gf256_field_witness:
  "gf_mul (gf_inv 2) 2 = 1 \<and> gf_mul (gf_div 7 2) 2 = 7 \<and>
   (\<exists>x y. gf_pow 2 3 = Some x \<and> gf_pow 2 (-5) = Some y \<and> gf_pow 2 (3 + -5) = Some (gf_mul x y))"
  using gf256_field [of 2 2 0 3 "-5"] gf256_field [of 7 2 0 0 0] by auto

end
