(* ===== verification/Rgtp_RSEncode.thy ===== *)
theory Rgtp_RSEncode
  imports Rgtp_GF256
begin

text \<open>
  The systematic Reed-Solomon encoder of
  \<^verbatim>\<open>src/fec/rgtp_rs_encode.c\<close>: the generator polynomial and the
  shift register that divides by it.  A list of bytes is read as the polynomial whose
  coefficient of degree \<open>i\<close> is the element at index \<open>i\<close>.  The lemmas
  show that the generator is the product of the linear factors at the first powers of
  the generator element of the field, and that the register ends with the one
  remainder that makes the codeword vanish at these powers.
\<close>

unbundle bit_operations_syntax

subsection \<open>The encoder\<close>

definition RGTP_RS_MAX_N :: nat where "RGTP_RS_MAX_N = 255"
definition RGTP_RS_MAX_T :: nat where "RGTP_RS_MAX_T = 127"

text \<open>One pass of the inner loop of \<^verbatim>\<open>build_generator\<close>, from
  \<open>j = m - 1\<close> down to 0, in place.\<close>

definition generator_pass :: "u8 \<Rightarrow> nat \<Rightarrow> u8 list \<Rightarrow> u8 list" where
  "generator_pass rt m g = fold (\<lambda>j g.
      let g = g[j + 1 := g ! (j + 1) XOR g ! j] in g[j := gf_mul (g ! j) rt])
    (rev [0..<m]) g"

text \<open>The outer loop, over \<open>i\<close>.\<close>

primrec generator_loop :: "nat list \<Rightarrow> u8 list \<Rightarrow> u8 list option" where
  "generator_loop [] g = Some g"
| "generator_loop (i # is) g = do {
     rt \<leftarrow> gf_pow 2 (int i);
     generator_loop is (generator_pass rt (i + 1) g) }"

text \<open>The array has \<^verbatim>\<open>RGTP_RS_MAX_T + 1\<close> elements, of which the
  first \<^verbatim>\<open>t + 1\<close> are used; clearing more of them is out of
  bounds.\<close>

definition build_generator :: "u8 \<Rightarrow> u8 list option" where
  "build_generator t =
    (if unat t + 1 > RGTP_RS_MAX_T + 1 then None
     else generator_loop [0..<unat t] ((replicate (unat t + 1) 0)[0 := 1]))"

text \<open>The shift register for one data symbol: the inner loop runs from
  \<open>t - 1\<close> down to 1.\<close>

definition rs_register_step :: "u8 list \<Rightarrow> nat \<Rightarrow> u8 \<Rightarrow> u8 list \<Rightarrow> u8 list" where
  "rs_register_step g t s reg =
    (let feedback = s XOR reg ! (t - 1);
         reg = fold (\<lambda>j reg. reg[j := reg ! (j - 1) XOR gf_mul feedback (g ! j)]) (rev [1..<t]) reg
     in reg[0 := gf_mul feedback (g ! 0)])"

definition rgtp_rs_encode :: "u8 \<Rightarrow> u8 \<Rightarrow> bytes option \<Rightarrow> bool \<Rightarrow> bytes cres" where
  "rgtp_rs_encode k n data_ptr parity_out =
    (case data_ptr of
       None \<Rightarrow> err RGTP_ERR_INVALID_ARG
     | Some data \<Rightarrow>
         if \<not> parity_out then err RGTP_ERR_INVALID_ARG
         else if k = 0 \<or> n = 0 \<or> k \<ge> n \<or> unat n > RGTP_RS_MAX_N then err RGTP_ERR_INVALID_ARG
         else do {
           let t = n - k;
           g \<leftarrow> build_generator t;
           if unat t > RGTP_RS_MAX_T \<or> length data < unat k then None
           else ok (fold (\<lambda>i reg. rs_register_step g (unat t) (data ! i) reg) (rev [0..<unat k])
             (replicate (unat t) 0)) })"

subsection \<open>Polynomials\<close>

lemma gf_add_eq_0: "x + y = 0 \<longleftrightarrow> x = (y :: gf)"
  by (metis gf_minus_eq_plus eq_iff_diff_eq_0)

definition poly :: "u8 list \<Rightarrow> gf \<Rightarrow> gf" where
  "poly p x = foldr (\<lambda>c acc. Gf c + x * acc) p 0"

lemma poly_simps [simp]: "poly [] x = 0" "poly (c # p) x = Gf c + x * poly p x"
  by (simp_all add: poly_def)

lemma poly_append: "poly (p @ q) x = poly p x + x ^ length p * poly q x"
  by (induction p) (simp_all add: algebra_simps)

lemma poly_sum: "poly p x = (\<Sum>i<length p. Gf (p ! i) * x ^ i)"
proof (induction p)
  case (Cons c p)
  then show ?case
    by (simp add: sum.lessThan_Suc_shift sum_distrib_left algebra_simps del: sum.lessThan_Suc)
qed simp

lemma poly_replicate_0 [simp]: "poly (replicate n 0) x = 0"
  by (induction n) simp_all

lemma poly_zeros: "\<forall>c \<in> set p. c = 0 \<Longrightarrow> poly p x = 0"
  by (induction p) simp_all

lemma gf_add_left_cancel [simp]: "x + (x + y) = (y :: gf)"
  by (simp flip: add.assoc)

text \<open>Division by a linear factor, on lists of field elements.\<close>

definition gpoly :: "gf list \<Rightarrow> gf \<Rightarrow> gf" where
  "gpoly p x = foldr (\<lambda>c acc. c + x * acc) p 0"

lemma gpoly_simps [simp]: "gpoly [] x = 0" "gpoly (c # p) x = c + x * gpoly p x"
  by (simp_all add: gpoly_def)

lemma gpoly_map: "gpoly (map Gf p) x = poly p x"
  by (induction p) simp_all

lemma gpoly_sum: "gpoly p x = (\<Sum>i<length p. p ! i * x ^ i)"
proof (induction p)
  case (Cons c p)
  then show ?case
    by (simp add: sum.lessThan_Suc_shift sum_distrib_left algebra_simps del: sum.lessThan_Suc)
qed simp

fun quot :: "gf \<Rightarrow> gf list \<Rightarrow> gf list" where
  "quot a [] = []"
| "quot a [c] = []"
| "quot a (c # d # p) = gpoly (d # p) a # quot a (d # p)"

lemma quot_length: "length (quot a p) = length p - 1"
  by (induction p rule: quot.induct) simp_all

lemma quot_division: "gpoly p x = gpoly p a + (x - a) * gpoly (quot a p) x"
proof (induction a p rule: quot.induct)
  case (3 a c d p)
  have "gpoly (c # d # p) x = c + x * (gpoly (d # p) a + (x - a) * gpoly (quot a (d # p)) x)"
    using 3 by (metis gpoly_simps(2))
  also have "\<dots> = gpoly (c # d # p) a + (x - a) * gpoly (quot a (c # d # p)) x"
    by (simp add: algebra_simps)
  finally show ?case .
qed simp_all

lemma quot_zero: "\<forall>c \<in> set (quot a p). c = 0 \<Longrightarrow> \<forall>c \<in> set (tl p). c = 0"
proof (induction a p rule: quot.induct)
  case (3 a c d p)
  then have "\<forall>c \<in> set p. c = 0" and "gpoly (d # p) a = 0" by auto
  moreover have "gpoly q a = 0" if "\<forall>c \<in> set q. c = 0" for q
    using that by (induction q) simp_all
  ultimately show ?case by auto
qed simp_all

text \<open>A polynomial with at least as many roots as coefficients is zero.\<close>

lemma gpoly_roots_zero:
  assumes "finite S" and "length p \<le> card S" and "\<And>x. x \<in> S \<Longrightarrow> gpoly p x = 0"
  shows "\<forall>c \<in> set p. c = 0"
  using assms
proof (induction "length p" arbitrary: p S)
  case (Suc n)
  then obtain c cs where p: "p = c # cs" by (cases p) auto
  obtain a where a: "a \<in> S" using Suc by fastforce
  have "gpoly (quot a p) x = 0" if "x \<in> S - {a}" for x
  proof -
    have "gpoly p x = 0" "gpoly p a = 0" using that a Suc.prems by auto
    then have "(x - a) * gpoly (quot a p) x = 0"
      using quot_division [of p x a] by simp
    then show ?thesis using that by (simp del: gf_minus_eq_plus)
  qed
  then have "\<forall>c \<in> set (quot a p). c = 0"
    using Suc.prems Suc.hyps(2) a
    by (intro Suc.hyps(1) [of "quot a p" "S - {a}"]) (auto simp: quot_length card_Diff_singleton)
  then have tl: "\<forall>c \<in> set cs. c = 0"
    using quot_zero [of a p] p by simp
  then have "gpoly cs a = 0" by (induction cs) simp_all
  then have "c = 0" using Suc.prems(3) [OF a] p by simp
  with tl p show ?case by simp
qed simp

lemma poly_unique:
  assumes "length p = length q" and "finite S" and "length p \<le> card S"
    and "\<And>x. x \<in> S \<Longrightarrow> poly p x = poly q x"
  shows "p = q"
proof -
  define d where "d = map2 (\<lambda>a b. Gf a + Gf b) p q"
  have "gpoly (map2 (\<lambda>a b. Gf a + Gf b) p q) x = poly p x + poly q x" for x
    using assms(1) by (induction p q rule: list_induct2) (simp_all add: distrib_left ac_simps)
  then have "gpoly d x = 0" if "x \<in> S" for x using that assms(4) by (simp add: d_def)
  then have "\<forall>c \<in> set d. c = 0"
    using assms by (intro gpoly_roots_zero [of S]) (auto simp: d_def)
  with assms(1) show ?thesis
    unfolding d_def
    by (induction p q rule: list_induct2 [consumes 1]) (auto simp: gf_add_eq_0)
qed

lemma poly_xor:
  "length p = length q \<Longrightarrow> poly (map2 (XOR) p q) x = poly p x + poly q x"
  by (induction p q rule: list_induct2) (simp_all add: Gf_xor distrib_left ac_simps)

lemma poly_scale: "poly (map (gf_mul r) p) x = Gf r * poly p x"
  by (induction p) (simp_all add: Gf_mul algebra_simps)

lemma poly_snoc: "p \<noteq> [] \<Longrightarrow> poly p x = poly (butlast p) x + x ^ (length p - 1) * Gf (last p)"
  using poly_append [of "butlast p" "[last p]" x] by simp

subsection \<open>The generator polynomial\<close>

lemma generator_pass_length [simp]: "length (generator_pass rt m g) = length g"
  unfolding generator_pass_def by (induction m arbitrary: g) (simp_all add: Let_def)

lemma generator_pass_Suc:
  "generator_pass rt (Suc m) g =
    generator_pass rt m ((g[m + 1 := g ! (m + 1) XOR g ! m])[m := gf_mul (g ! m) rt])"
  by (simp add: generator_pass_def Let_def)

lemma generator_pass_nth:
  "m < length g \<Longrightarrow> j < length g \<Longrightarrow> generator_pass rt m g ! j =
    (if j < m then gf_mul (g ! j) rt else g ! j) XOR (if 1 \<le> j \<and> j \<le> m then g ! (j - 1) else 0)"
proof (induction m arbitrary: g)
  case 0
  then show ?case by (auto simp: generator_pass_def)
next
  case (Suc m)
  then show ?case
    unfolding generator_pass_Suc
    by (subst Suc.IH; cases "j = m"; cases "j < m") (auto simp: nth_list_update)
qed

lemma generator_pass_shift:
  assumes "m < length g" and "\<forall>j. m \<le> j \<and> j < length g \<longrightarrow> g ! j = 0"
  shows "generator_pass rt m g = map2 (XOR) (map (gf_mul rt) g) (0 # butlast g)"
proof (rule nth_equalityI)
  fix j assume "j < length (generator_pass rt m g)"
  then have j: "j < length g" by simp
  have "g ! (j - 1) = 0" if "m < j"
  proof -
    have "m \<le> j - 1 \<and> j - 1 < length g" using that j by auto
    then show ?thesis using assms(2) by blast
  qed
  then show "generator_pass rt m g ! j = map2 (XOR) (map (gf_mul rt) g) (0 # butlast g) ! j"
    using assms j
    by (cases "j \<le> m") (auto simp: generator_pass_nth nth_Cons' nth_butlast gf_mul_commute)
qed (use assms in auto)

definition generator_prefix :: "nat \<Rightarrow> nat \<Rightarrow> u8 list" where
  "generator_prefix t n = fold (\<lambda>i g. generator_pass (alpha_pow i) (i + 1) g) [0..<n]
     ((replicate (t + 1) 0)[0 := 1])"

lemma generator_loop_fold:
  "\<forall>i \<in> set is. i < 255 \<Longrightarrow>
    generator_loop is g = Some (fold (\<lambda>i g. generator_pass (alpha_pow i) (i + 1) g) is g)"
  by (induction "is" arbitrary: g) (simp_all add: gf_pow_2)

lemma generator_prefix_inv:
  assumes "n \<le> t"
  shows "length (generator_prefix t n) = t + 1 \<and> generator_prefix t n ! n = 1 \<and>
    (\<forall>j. n < j \<and> j < t + 1 \<longrightarrow> generator_prefix t n ! j = 0) \<and>
    poly (generator_prefix t n) x = (\<Prod>i<n. x + alpha ^ i)"
  using assms
proof (induction n)
  case 0
  have "poly ((replicate (t + 1) 0)[0 := 1]) x = 1"
    by (simp add: Gf_1)
  then show ?case by (auto simp: generator_prefix_def nth_Cons')
next
  case (Suc n)
  define g where "g = generator_prefix t n"
  have IH: "length g = t + 1" "g ! n = 1" "\<forall>j. n < j \<and> j < t + 1 \<longrightarrow> g ! j = 0"
      "poly g x = (\<Prod>i<n. x + alpha ^ i)"
    using Suc by (simp_all add: g_def)
  have step: "generator_prefix t (Suc n) = generator_pass (alpha_pow n) (n + 1) g"
    by (simp add: generator_prefix_def g_def)
  have shift: "generator_pass (alpha_pow n) (n + 1) g
      = map2 (XOR) (map (gf_mul (alpha_pow n)) g) (0 # butlast g)"
    using Suc.prems IH by (intro generator_pass_shift) auto
  have "last g = 0"
    using IH Suc.prems by (subst last_conv_nth) auto
  then have "poly (butlast g) x = poly g x"
    using IH(1) poly_snoc [of g x] by (cases g) (simp_all add: Gf_0)
  then have "poly (generator_prefix t (Suc n)) x = (\<Prod>i<Suc n. x + alpha ^ i)"
    unfolding step shift using IH
    by (subst poly_xor) (simp_all add: poly_scale Gf_alpha_pow Gf_0 algebra_simps)
  moreover have "generator_prefix t (Suc n) ! j = 0" if "Suc n < j" "j < t + 1" for j
  proof -
    have "n < j - 1 \<and> j - 1 < t + 1" "n < j \<and> j < t + 1" using that by auto
    then have "g ! (j - 1) = 0" "g ! j = 0" using IH(3) by blast+
    then show ?thesis
      unfolding step shift using IH(1) that by (simp add: nth_Cons' nth_butlast)
  qed
  moreover have "generator_prefix t (Suc n) ! Suc n = 1"
    unfolding step shift using IH Suc.prems by (simp add: nth_Cons' nth_butlast)
  ultimately show ?case using IH(1) by (simp add: step)
qed

lemma build_generator_correct:
  assumes "unat t \<le> RGTP_RS_MAX_T"
  obtains g where "build_generator t = Some g" "length g = unat t + 1" "g ! unat t = 1"
    "\<And>x. poly g x = (\<Prod>i<unat t. x + alpha ^ i)"
proof
  show "build_generator t = Some (generator_prefix (unat t) (unat t))"
    using assms generator_loop_fold [of "[0..<unat t]"]
    by (simp add: build_generator_def generator_prefix_def RGTP_RS_MAX_T_def)
qed (use generator_prefix_inv [of "unat t" "unat t"] in auto)

subsection \<open>The shift register\<close>

definition shift_down :: "(nat \<Rightarrow> u8 \<Rightarrow> u8) \<Rightarrow> nat \<Rightarrow> u8 list \<Rightarrow> u8 list" where
  "shift_down h m r = fold (\<lambda>j r. r[j := h j (r ! (j - 1))]) (rev [1..<m]) r"

lemma shift_down_step:
  "1 \<le> m \<Longrightarrow> shift_down h (Suc m) r = shift_down h m (r[m := h m (r ! (m - 1))])"
  by (simp add: shift_down_def)

lemma shift_down_low [simp]: "m \<le> 1 \<Longrightarrow> shift_down h m r = r"
  by (simp add: shift_down_def)

lemma shift_down_length [simp]: "length (shift_down h m r) = length r"
proof (induction m arbitrary: r)
  case (Suc m)
  then show ?case by (cases "1 \<le> m") (simp_all add: shift_down_step)
qed simp

lemma shift_down_nth:
  "j < length r \<Longrightarrow> m \<le> length r \<Longrightarrow>
    shift_down h m r ! j = (if 1 \<le> j \<and> j < m then h j (r ! (j - 1)) else r ! j)"
proof (induction m arbitrary: r)
  case (Suc m)
  then show ?case
    by (cases "1 \<le> m") (auto simp: shift_down_step nth_list_update)
qed simp

lemma rs_register_step_alt:
  "rs_register_step g t s reg = (shift_down (\<lambda>j v. v XOR gf_mul (s XOR reg ! (t - 1)) (g ! j)) t reg)
     [0 := gf_mul (s XOR reg ! (t - 1)) (g ! 0)]"
  by (simp add: rs_register_step_def shift_down_def Let_def)

lemma rs_register_step_shift:
  assumes "length reg = t" and "0 < t" and "length g = t + 1"
  shows "rs_register_step g t s reg =
    map2 (XOR) (0 # butlast reg) (map (gf_mul (s XOR last reg)) (butlast g))"
proof (rule nth_equalityI)
  have last: "reg ! (t - 1) = last reg" using assms by (subst last_conv_nth) auto
  show "length (rs_register_step g t s reg) =
      length (map2 (XOR) (0 # butlast reg) (map (gf_mul (s XOR last reg)) (butlast g)))"
    using assms by (simp add: rs_register_step_alt)
  fix j assume "j < length (rs_register_step g t s reg)"
  then have j: "j < t"
    using assms by (simp add: rs_register_step_alt)
  show "rs_register_step g t s reg ! j =
      map2 (XOR) (0 # butlast reg) (map (gf_mul (s XOR last reg)) (butlast g)) ! j"
    using assms j unfolding rs_register_step_alt last
    by (cases "j = 0") (simp_all add: nth_list_update shift_down_nth nth_Cons' nth_butlast)
qed

lemma rs_register_step_poly:
  assumes "length reg = t" and "0 < t" and "length g = t + 1" and "g ! t = 1" and "poly g x = 0"
  shows "poly (rs_register_step g t s reg) x = x * poly reg x + x ^ t * Gf s"
proof -
  have g: "poly (butlast g) x = x ^ t"
  proof -
    have "last g = 1" using assms by (subst last_conv_nth) auto
    then have "poly (butlast g) x + x ^ t = 0"
      using poly_snoc [of g x] assms by (cases "g = []") (simp_all add: Gf_1)
    then show ?thesis by (simp add: gf_add_eq_0)
  qed
  have r: "poly reg x = poly (butlast reg) x + x ^ (t - 1) * Gf (last reg)"
    using poly_snoc [of reg x] assms by auto
  have "x * poly (butlast reg) x = x * poly reg x + x ^ t * Gf (last reg)"
    unfolding r using assms(2) by (cases t) (simp_all add: algebra_simps)
  then show ?thesis
    unfolding rs_register_step_shift [OF assms(1-3)]
    using assms g by (subst poly_xor) (simp_all add: poly_scale Gf_xor Gf_0 algebra_simps)
qed

lemma rs_register_step_length: "length (rs_register_step g t s reg) = length reg"
  by (simp add: rs_register_step_alt)

lemma rs_register_fold:
  assumes "0 < t" and "length g = t + 1" and "g ! t = 1"
  shows "length (foldr (rs_register_step g t) ds (replicate t 0)) = t \<and>
    (poly g x = 0 \<longrightarrow> poly (foldr (rs_register_step g t) ds (replicate t 0)) x = x ^ t * poly ds x)"
proof (induction ds)
  case (Cons d ds)
  then show ?case
    using assms by (auto simp: rs_register_step_length rs_register_step_poly algebra_simps)
qed simp

lemma fold_rev_index:
  "k \<le> length data \<Longrightarrow> fold (\<lambda>i. f (data ! i)) (rev [0..<k]) r = foldr f (take k data) r"
proof -
  assume "k \<le> length data"
  then have "take k data = map ((!) data) [0..<k]"
    by (simp add: list_eq_iff_nth_eq)
  then show ?thesis by (simp add: foldr_conv_fold rev_map fold_map comp_def)
qed

subsection \<open>The encoder\<close>

lemma parity_symbols: "k < n \<Longrightarrow> unat (n - k) = unat n - unat k" for n k :: u8
  by (simp add: unat_sub_if_size word_le_nat_alt word_less_nat_alt)

lemma alpha_points: "t \<le> 255 \<Longrightarrow> card ((\<lambda>i. alpha ^ i) ` {..<t}) = t"
  by (subst card_image) (auto intro!: inj_onI alpha_power_inj)

lemma rgtp_rs_encode_unfold:
  assumes "k \<noteq> 0" and "k < n" and "length data = unat k" and "unat n - unat k \<le> RGTP_RS_MAX_T"
  obtains g where "length g = unat n - unat k + 1" "g ! (unat n - unat k) = 1"
    "\<And>x. poly g x = (\<Prod>i<unat n - unat k. x + alpha ^ i)"
    "rgtp_rs_encode k n (Some data) True =
      ok (foldr (rs_register_step g (unat n - unat k)) data (replicate (unat n - unat k) 0))"
proof -
  have t: "unat (n - k) = unat n - unat k" using assms by (simp add: parity_symbols)
  obtain g where g: "build_generator (n - k) = Some g" "length g = unat n - unat k + 1"
      "g ! (unat n - unat k) = 1" "\<And>x. poly g x = (\<Prod>i<unat n - unat k. x + alpha ^ i)"
    using build_generator_correct [of "n - k"] assms unfolding t by metis
  have "unat n \<le> RGTP_RS_MAX_N" and "n \<noteq> 0"
    using unat_u8_bound [of n] assms(2) by (auto simp: RGTP_RS_MAX_N_def)
  then have "rgtp_rs_encode k n (Some data) True =
      ok (foldr (rs_register_step g (unat n - unat k)) data (replicate (unat n - unat k) 0))"
    using assms g(1) by (simp add: rgtp_rs_encode_def t not_le Let_def fold_rev_index)
  with g that show thesis by blast
qed

subsection \<open>Properties\<close>

text \<open>C10: for every block of \<open>k\<close> data symbols and up to 127 parity symbols the
  encoder returns the one parity block for which the codeword, read as a polynomial
  with the parity as its low coefficients, vanishes at the first \<open>n - k\<close> powers
  of the generator element; it never leaves its arrays.\<close>

theorem rs_encode_codeword:
  assumes "k \<noteq> 0" and "k < n" and "length data = unat k" and "unat n - unat k \<le> RGTP_RS_MAX_T"
  shows "\<exists>par. rgtp_rs_encode k n (Some data) True = ok par \<and> length par = unat n - unat k \<and>
    (\<forall>r. length r = unat n - unat k \<longrightarrow>
      ((\<forall>i < unat n - unat k. poly (r @ data) (alpha ^ i) = 0) \<longleftrightarrow> r = par))"
proof -
  define t where "t = unat n - unat k"
  obtain g where g: "length g = t + 1" "g ! t = 1" "\<And>x. poly g x = (\<Prod>i<t. x + alpha ^ i)"
    and enc: "rgtp_rs_encode k n (Some data) True = ok (foldr (rs_register_step g t) data (replicate t 0))"
    using rgtp_rs_encode_unfold [OF assms] unfolding t_def by metis
  define par where "par = foldr (rs_register_step g t) data (replicate t 0)"
  have t: "0 < t" "t \<le> 255"
    using assms(2) unat_u8_bound [of n] by (simp_all add: t_def word_less_nat_alt)
  have len: "length par = t"
    using rs_register_fold [OF t(1) g(1,2)] by (simp add: par_def)
  have root: "poly g (alpha ^ i) = 0" if "i < t" for i
    unfolding g(3) using that by (intro prod_zero) (auto intro!: bexI [of _ i])
  have par: "poly par (alpha ^ i) = (alpha ^ i) ^ t * poly data (alpha ^ i)" if "i < t" for i
    using rs_register_fold [OF t(1) g(1,2)] root [OF that] by (simp add: par_def)
  have "(\<forall>i < t. poly (r @ data) (alpha ^ i) = 0) \<longleftrightarrow> r = par" if r: "length r = t" for r
  proof
    assume *: "\<forall>i < t. poly (r @ data) (alpha ^ i) = 0"
    have "poly r x = poly par x" if "x \<in> (\<lambda>i. alpha ^ i) ` {..<t}" for x
      using that * par r by (auto simp: poly_append gf_add_eq_0)
    then show "r = par"
      using r len t(2) alpha_points [of t] by (intro poly_unique [where S = "(\<lambda>i. alpha ^ i) ` {..<t}"]) auto
  qed (use par len in \<open>simp add: poly_append\<close>)
  then show ?thesis
    unfolding t_def [symmetric] using enc len by (auto simp: par_def)
qed

theorem rs_encode_codeword_witness:
  "\<exists>par. rgtp_rs_encode 2 4 (Some [7, 9]) True = ok par \<and> length par = 2 \<and>
    poly (par @ [7, 9]) 1 = 0 \<and> poly (par @ [7, 9]) alpha = 0"
proof -
  obtain par where par: "rgtp_rs_encode 2 4 (Some [7, 9]) True = ok par" "length par = 2"
      "\<forall>i < 2. poly (par @ [7, 9]) (alpha ^ i) = 0"
    using rs_encode_codeword [of 2 4 "[7, 9]"] by (auto simp: RGTP_RS_MAX_T_def)
  then show ?thesis
    using spec [OF par(3), of 0] spec [OF par(3), of 1] by auto
qed

text \<open>The parameters that the interface documents are not all safe: with more than
  127 parity symbols the encoder writes past the end of its arrays.\<close>

theorem rs_encode_overflow:
  assumes "k \<noteq> 0" and "k < n" and "unat n - unat k > RGTP_RS_MAX_T"
  shows "rgtp_rs_encode k n (Some data) True = None"
proof -
  have "n \<noteq> 0" "unat n \<le> RGTP_RS_MAX_N"
    using unat_u8_bound [of n] assms(2) by (auto simp: RGTP_RS_MAX_N_def)
  then show ?thesis
    using assms by (simp add: rgtp_rs_encode_def build_generator_def parity_symbols not_le Let_def)
qed

theorem rs_encode_overflow_witness: "rgtp_rs_encode 1 200 (Some [0]) True = None"
  by (rule rs_encode_overflow) (simp_all add: RGTP_RS_MAX_T_def)

end
