(* ===== verification/Rgtp_RSDecode.thy ===== *)
theory Rgtp_RSDecode
  imports Rgtp_RSEncode
begin

text \<open>
  The erasure decoder of \<^verbatim>\<open>src/fec/rgtp_rs_decode.c\<close>: Gaussian
  elimination over the field and the evaluation matrix of the received positions.
  The lemmas show that elimination keeps the solutions of the system, that it never
  reports a singular matrix for the matrices the decoder builds, and that the decoder
  interpolates the received symbols.  They also show that this is not the inverse of
  the systematic encoder and what comes back instead.
\<close>

unbundle bit_operations_syntax

subsection \<open>Gaussian elimination\<close>

type_synonym matrix = "u8 list list"

definition find_pivot :: "nat \<Rightarrow> nat \<Rightarrow> matrix \<Rightarrow> nat option" where
  "find_pivot k col mat = find (\<lambda>row. mat ! row ! col \<noteq> 0) [col..<k]"

definition swap_rows :: "nat \<Rightarrow> nat \<Rightarrow> matrix \<Rightarrow> matrix" where
  "swap_rows col pivot_row mat =
    (if pivot_row \<noteq> col then mat[col := mat ! pivot_row, pivot_row := mat ! col] else mat)"

definition scale_row :: "nat \<Rightarrow> nat \<Rightarrow> matrix \<Rightarrow> matrix" where
  "scale_row k col mat =
    (let inv_pivot = gf_inv (mat ! col ! col)
     in mat[col := map (\<lambda>j. if col \<le> j then gf_mul (mat ! col ! j) inv_pivot else mat ! col ! j) [0..<k + 1]])"

definition eliminate_row :: "nat \<Rightarrow> nat \<Rightarrow> nat \<Rightarrow> matrix \<Rightarrow> matrix" where
  "eliminate_row k col row mat =
    (if row = col \<or> mat ! row ! col = 0 then mat
     else (let factor = mat ! row ! col
           in mat[row := map (\<lambda>j. if col \<le> j then mat ! row ! j XOR gf_mul factor (mat ! col ! j)
                else mat ! row ! j) [0..<k + 1]]))"

definition eliminate_column :: "nat \<Rightarrow> nat \<Rightarrow> matrix \<Rightarrow> matrix" where
  "eliminate_column k col mat = fold (eliminate_row k col) [0..<k] mat"

fun gauss_columns :: "nat \<Rightarrow> nat list \<Rightarrow> matrix \<Rightarrow> rgtp_error + matrix" where
  "gauss_columns k [] mat = Inr mat"
| "gauss_columns k (col # cols) mat =
    (case find_pivot k col mat of
       None \<Rightarrow> Inl RGTP_ERR_FEC_FAIL
     | Some pivot_row \<Rightarrow>
         gauss_columns k cols (eliminate_column k col (scale_row k col (swap_rows col pivot_row mat))))"

definition gauss_elim :: "nat \<Rightarrow> matrix \<Rightarrow> rgtp_error + matrix" where
  "gauss_elim k mat = gauss_columns k [0..<k] mat"

subsection \<open>The decoder\<close>

definition erasure_mask :: "nat \<Rightarrow> u8 list \<Rightarrow> bool list" where
  "erasure_mask n pos = fold (\<lambda>p erased. if unat p < n then erased[unat p := True] else erased) pos
     (replicate n False)"

definition good_positions :: "nat \<Rightarrow> nat \<Rightarrow> bool list \<Rightarrow> nat list" where
  "good_positions k n erased = take k (filter (\<lambda>i. \<not> erased ! i) [0..<n])"

definition evaluation_row :: "nat \<Rightarrow> u8 list \<Rightarrow> nat \<Rightarrow> u8 list option" where
  "evaluation_row k received pos = do {
     row \<leftarrow> those (map (\<lambda>col. gf_pow 2 (int pos * int col)) [0..<k]);
     Some (row @ [received ! pos]) }"

definition evaluation_matrix :: "nat \<Rightarrow> nat list \<Rightarrow> u8 list \<Rightarrow> matrix option" where
  "evaluation_matrix k good received = those (map (evaluation_row k received) good)"

definition rgtp_rs_decode ::
    "u8 \<Rightarrow> u8 \<Rightarrow> bytes option \<Rightarrow> u8 list option \<Rightarrow> u8 \<Rightarrow> bool \<Rightarrow> bytes cres" where
  "rgtp_rs_decode k n received_ptr erasure_pos erasure_count data_out =
    (case received_ptr of
       None \<Rightarrow> err RGTP_ERR_INVALID_ARG
     | Some received \<Rightarrow>
         if \<not> data_out then err RGTP_ERR_INVALID_ARG
         else if k = 0 \<or> n = 0 \<or> k \<ge> n \<or> unat n > RGTP_RS_MAX_N then err RGTP_ERR_INVALID_ARG
         else if erasure_count > n - k then err RGTP_ERR_FEC_FAIL
         else (case erasure_pos of Some ep \<Rightarrow> if length ep < unat erasure_count then None else
                 Some (erasure_mask (unat n) (take (unat erasure_count) ep))
               | None \<Rightarrow> Some (erasure_mask (unat n) []))
           \<bind> (\<lambda>erased.
             let good = good_positions (unat k) (unat n) erased in
             if length good < unat k then err RGTP_ERR_FEC_FAIL
             else if \<exists>p \<in> set good. length received \<le> p then None
             else do {
               mat \<leftarrow> evaluation_matrix (unat k) good received;
               (case gauss_elim (unat k) mat of
                  Inl e \<Rightarrow> err e
                | Inr mat \<Rightarrow> ok (map (\<lambda>col. mat ! col ! unat k) [0..<unat k])) }))"

subsection \<open>Solutions of a linear system\<close>

text \<open>A matrix with \<open>k\<close> rows and \<open>k + 1\<close> columns; a vector solves it
  when every row, the last column included, sums to zero.\<close>

definition wf_matrix :: "nat \<Rightarrow> matrix \<Rightarrow> bool" where
  "wf_matrix k mat \<longleftrightarrow> length mat = k \<and> (\<forall>r \<in> set mat. length r = k + 1)"

definition row_value :: "nat \<Rightarrow> u8 list \<Rightarrow> (nat \<Rightarrow> gf) \<Rightarrow> gf" where
  "row_value k row y = (\<Sum>j<k + 1. Gf (row ! j) * y j)"

definition solves :: "nat \<Rightarrow> matrix \<Rightarrow> (nat \<Rightarrow> gf) \<Rightarrow> bool" where
  "solves k mat y \<longleftrightarrow> (\<forall>r < k. row_value k (mat ! r) y = 0)"

definition unit_columns :: "nat \<Rightarrow> nat \<Rightarrow> matrix \<Rightarrow> bool" where
  "unit_columns k c mat \<longleftrightarrow> (\<forall>r < k. \<forall>j < c. mat ! r ! j = (if r = j then 1 else 0))"

lemma wf_matrix_row: "wf_matrix k mat \<Longrightarrow> r < k \<Longrightarrow> length (mat ! r) = k + 1"
  by (simp add: wf_matrix_def)

lemma wf_matrix_update: "wf_matrix k mat \<Longrightarrow> length row = k + 1 \<Longrightarrow> wf_matrix k (mat[r := row])"
  by (auto simp: wf_matrix_def dest!: set_update_subset_insert [THEN subsetD])

lemma swap_rows_wf:
  "wf_matrix k mat \<Longrightarrow> c < k \<Longrightarrow> p < k \<Longrightarrow> wf_matrix k (swap_rows c p mat)"
  by (auto simp: swap_rows_def intro!: wf_matrix_update wf_matrix_row)

lemma swap_rows_nth:
  "length mat = k \<Longrightarrow> c < k \<Longrightarrow> p < k \<Longrightarrow> r < k \<Longrightarrow>
    swap_rows c p mat ! r = (if r = c then mat ! p else if r = p then mat ! c else mat ! r)"
  by (auto simp: swap_rows_def nth_list_update)

lemma swap_rows_solves:
  assumes "wf_matrix k mat" and "c < k" and "p < k"
  shows "solves k (swap_rows c p mat) y \<longleftrightarrow> solves k mat y"
  using assms unfolding solves_def wf_matrix_def
  by (auto simp: swap_rows_nth)

lemma row_value_scale:
  assumes "\<And>j. j < k + 1 \<Longrightarrow> Gf (row' ! j) = c * Gf (row ! j)"
  shows "row_value k row' y = c * row_value k row y"
  using assms by (simp add: row_value_def sum_distrib_left algebra_simps del: sum.lessThan_Suc)

lemma row_value_add:
  assumes "\<And>j. j < k + 1 \<Longrightarrow> Gf (row' ! j) = Gf (row ! j) + c * Gf (piv ! j)"
  shows "row_value k row' y = row_value k row y + c * row_value k piv y"
  using assms by (simp add: row_value_def sum_distrib_left sum.distrib [symmetric] algebra_simps
      del: sum.lessThan_Suc)

text \<open>Scaling the pivot row, whose entries left of the pivot are zero.\<close>

lemma scale_row_facts:
  assumes "wf_matrix k mat" and "c < k" and "unit_columns k c mat" and "mat ! c ! c \<noteq> 0"
  defines "mat' \<equiv> scale_row k c mat"
  shows "wf_matrix k mat'" "unit_columns k c mat'" "mat' ! c ! c = 1"
    "solves k mat' y \<longleftrightarrow> solves k mat y"
proof -
  define row where "row = map (\<lambda>j. if c \<le> j then gf_mul (mat ! c ! j) (gf_inv (mat ! c ! c)) else mat ! c ! j) [0..<k + 1]"
  have mat': "mat' = mat[c := row]"
    by (simp add: mat'_def scale_row_def row_def Let_def)
  have len: "length mat = k" using assms(1) by (simp add: wf_matrix_def)
  have zero: "mat ! c ! j = 0" if "j < c" for j
    using assms(2,3) that by (auto simp: unit_columns_def)
  show wf: "wf_matrix k mat'"
    unfolding mat' using assms(1) by (rule wf_matrix_update) (simp add: row_def)
  show "unit_columns k c mat'"
    using assms(2,3) zero len unfolding mat' unit_columns_def
    by (auto simp: nth_list_update row_def simp del: upt_Suc)
  show "mat' ! c ! c = 1"
    using assms(2,4) len by (simp add: mat' row_def gf_mul_commute [of _ "gf_inv _"] gf_inv_mul del: upt_Suc)
  have "Gf (row ! j) = inverse (Gf (mat ! c ! c)) * Gf (mat ! c ! j)" if "j < k + 1" for j
    using that zero [of j] assms(4) by (auto simp: row_def Gf_mul Gf_inv Gf_0 simp del: upt_Suc)
  then have rv: "row_value k row y = inverse (Gf (mat ! c ! c)) * row_value k (mat ! c) y" for y
    by (rule row_value_scale)
  have "row_value k row y = 0 \<longleftrightarrow> row_value k (mat ! c) y = 0" for y
    unfolding rv using assms(4) by simp
  then show "solves k mat' y \<longleftrightarrow> solves k mat y"
    using assms(2) len unfolding solves_def mat' by (auto simp: nth_list_update)
qed

text \<open>Eliminating one row with the pivot row.\<close>

lemma eliminate_row_facts:
  assumes "wf_matrix k mat" and "c < k" and "row < k" and "unit_columns k c mat" and "mat ! c ! c = 1"
  defines "mat' \<equiv> eliminate_row k c row mat"
  shows "wf_matrix k mat'" "unit_columns k c mat'" "mat' ! c = mat ! c"
    "mat' ! row ! c = (if row = c then 1 else 0)" "\<And>r. r \<noteq> row \<Longrightarrow> mat' ! r = mat ! r"
    "solves k mat' y \<longleftrightarrow> solves k mat y"
proof -
  have len: "length mat = k" using assms(1) by (simp add: wf_matrix_def)
  have zero: "mat ! c ! j = 0" if "j < c" for j
    using assms(2,4) that by (auto simp: unit_columns_def)
  define f where "f = mat ! row ! c"
  define new where "new = map (\<lambda>j. if c \<le> j then mat ! row ! j XOR gf_mul f (mat ! c ! j) else mat ! row ! j) [0..<k + 1]"
  have cases: "mat' = mat \<and> (row = c \<or> f = 0) \<or> mat' = mat[row := new] \<and> row \<noteq> c"
    unfolding mat'_def eliminate_row_def new_def f_def Let_def by (simp del: upt_Suc)
  have new_c: "new ! c = 0" and new_low: "\<And>j. j < c \<Longrightarrow> new ! j = mat ! row ! j"
    using assms(2,5) by (simp_all add: new_def f_def del: upt_Suc)
  show "wf_matrix k mat'"
    using cases assms(1) by (auto intro!: wf_matrix_update simp: new_def)
  show "unit_columns k c mat'"
    using cases assms(3,4) new_low len unfolding unit_columns_def by (auto simp: nth_list_update)
  show "mat' ! c = mat ! c" "\<And>r. r \<noteq> row \<Longrightarrow> mat' ! r = mat ! r"
    using cases by auto
  show "mat' ! row ! c = (if row = c then 1 else 0)"
    using cases assms(3,5) new_c len by (auto simp: f_def)
  have "Gf (new ! j) = Gf (mat ! row ! j) + Gf f * Gf (mat ! c ! j)" if "j < k + 1" for j
    using that zero [of j] by (auto simp: new_def Gf_mul Gf_xor Gf_0 simp del: upt_Suc)
  then have rv: "row_value k new y = row_value k (mat ! row) y + Gf f * row_value k (mat ! c) y" for y
    by (rule row_value_add)
  show "solves k mat' y \<longleftrightarrow> solves k mat y"
    using cases
  proof
    assume *: "mat' = mat[row := new] \<and> row \<noteq> c"
    have eq: "row_value k (mat' ! r) y =
        (if r = row then row_value k (mat ! row) y + Gf f * row_value k (mat ! c) y else row_value k (mat ! r) y)"
      if "r < k" for r
      using * len that by (auto simp: rv nth_list_update)
    show ?thesis
    proof
      assume s: "solves k mat' y"
      then have "row_value k (mat ! c) y = 0" using * assms(2) eq [of c] by (auto simp: solves_def)
      then show "solves k mat y"
        using s eq unfolding solves_def by (metis add.right_neutral mult_zero_right)
    next
      assume "solves k mat y"
      then show "solves k mat' y"
        using eq assms(2,3) by (auto simp: solves_def)
    qed
  qed simp
qed

lemma eliminate_column_facts:
  assumes "wf_matrix k mat" and "c < k" and "unit_columns k c mat" and "mat ! c ! c = 1"
  defines "mat' \<equiv> eliminate_column k c mat"
  shows "wf_matrix k mat'" "unit_columns k (Suc c) mat'" "solves k mat' y \<longleftrightarrow> solves k mat y"
proof -
  define M where "M n = fold (eliminate_row k c) [0..<n] mat" for n
  have inv: "wf_matrix k (M n) \<and> unit_columns k c (M n) \<and> M n ! c = mat ! c \<and>
      (\<forall>r < n. M n ! r ! c = (if r = c then 1 else 0)) \<and> (solves k (M n) y \<longleftrightarrow> solves k mat y)"
    if "n \<le> k" for n
    using that
  proof (induction n)
    case 0
    then show ?case using assms by (simp add: M_def)
  next
    case (Suc n)
    have step: "M (Suc n) = eliminate_row k c n (M n)"
      by (simp add: M_def)
    have IH: "wf_matrix k (M n)" "unit_columns k c (M n)" "M n ! c ! c = 1" "M n ! c = mat ! c"
        "\<forall>r < n. M n ! r ! c = (if r = c then 1 else 0)" "solves k (M n) y \<longleftrightarrow> solves k mat y"
      using Suc assms(4) by auto
    note f = eliminate_row_facts [OF IH(1) assms(2) _ IH(2,3), of n]
    have n: "n < k" using Suc.prems by simp
    show ?case
      unfolding step
      using f(1,2,3,4,6) [OF n] f(5) [OF n] IH by (auto simp: less_Suc_eq)
  qed
  have "mat' = M k" by (simp add: mat'_def M_def eliminate_column_def)
  then show "wf_matrix k mat'" "unit_columns k (Suc c) mat'" "solves k mat' y \<longleftrightarrow> solves k mat y"
    using inv [of k] by (auto simp: unit_columns_def less_Suc_eq)
qed

text \<open>Without a pivot the homogeneous system has a solution that is not zero.\<close>

lemma no_pivot_kernel:
  assumes "c < k" and "unit_columns k c mat" and "find_pivot k c mat = None"
  shows "\<exists>y. solves k mat y \<and> y c \<noteq> 0 \<and> y k = 0"
proof -
  define y where "y j = (if j < c then Gf (mat ! j ! c) else if j = c then 1 else 0)" for j
  have below: "mat ! r ! c = 0" if "c \<le> r" "r < k" for r
    using assms(3) that by (auto simp: find_pivot_def find_None_iff)
  have "row_value k (mat ! r) y = 0" if r: "r < k" for r
  proof -
    have "row_value k (mat ! r) y = (\<Sum>j<k + 1. if j < c then (if j = r then Gf (mat ! j ! c) else 0)
        else if j = c then Gf (mat ! r ! c) else 0)"
      unfolding row_value_def using assms(1,2) r
      by (intro sum.cong) (auto simp: y_def unit_columns_def Gf_0 Gf_1)
    also have "\<dots> = (\<Sum>j<k + 1. (if j = r then (if j < c then Gf (mat ! j ! c) else 0) else 0)
        + (if j = c then Gf (mat ! r ! c) else 0))"
      by (intro sum.cong) auto
    also have "\<dots> = (if r < c then Gf (mat ! r ! c) else 0) + Gf (mat ! r ! c)"
      unfolding sum.distrib using r assms(1) by (simp add: sum.delta del: sum.lessThan_Suc)
    also have "\<dots> = 0"
      using below [of r] r by (auto simp: Gf_0)
    finally show ?thesis .
  qed
  then have "solves k mat y" by (simp add: solves_def)
  moreover have "y c \<noteq> 0" "y k = 0" using assms(1) by (simp_all add: y_def)
  ultimately show ?thesis by blast
qed

lemma find_pivot_Some: "find_pivot k c mat = Some p \<Longrightarrow> c \<le> p \<and> p < k \<and> mat ! p ! c \<noteq> 0"
  by (auto simp: find_pivot_def find_Some_iff)

lemma swap_rows_unit:
  assumes "wf_matrix k mat" and "c < k" and "c \<le> p" and "p < k" and "unit_columns k c mat"
  shows "unit_columns k c (swap_rows c p mat)"
  using assms unfolding unit_columns_def wf_matrix_def by (auto simp: swap_rows_nth)

definition injective_system :: "nat \<Rightarrow> matrix \<Rightarrow> bool" where
  "injective_system k mat \<longleftrightarrow> (\<forall>y. solves k mat y \<and> y k = 0 \<longrightarrow> (\<forall>j < k. y j = 0))"

lemma gauss_columns_correct:
  assumes "wf_matrix k mat" and "unit_columns k c mat" and "injective_system k mat" and "c \<le> k"
  shows "\<exists>m. gauss_columns k [c..<k] mat = Inr m \<and> wf_matrix k m \<and> unit_columns k k m \<and>
    (\<forall>y. solves k m y \<longleftrightarrow> solves k mat y)"
  using assms
proof (induction "k - c" arbitrary: c mat)
  case 0
  then show ?case by simp
next
  case (Suc d)
  then have c: "c < k" by simp
  then have upt: "[c..<k] = c # [Suc c..<k]" by (simp add: upt_conv_Cons)
  show ?case
  proof (cases "find_pivot k c mat")
    case None
    then obtain y where "solves k mat y" "y c \<noteq> 0" "y k = 0"
      using no_pivot_kernel [OF c Suc.prems(2)] by blast
    then show ?thesis using Suc.prems(3) c by (auto simp: injective_system_def)
  next
    case (Some p)
    note p = find_pivot_Some [OF Some]
    define m1 where "m1 = swap_rows c p mat"
    define m2 where "m2 = scale_row k c m1"
    define m3 where "m3 = eliminate_column k c m2"
    have m1: "wf_matrix k m1" "unit_columns k c m1" "m1 ! c ! c \<noteq> 0"
        "\<And>y. solves k m1 y \<longleftrightarrow> solves k mat y"
      using Suc.prems c p
      by (simp_all add: m1_def swap_rows_wf swap_rows_unit swap_rows_solves)
        (simp add: swap_rows_nth [of mat k] wf_matrix_def)
    note m2 = scale_row_facts [OF m1(1) c m1(2,3), folded m2_def]
    note m3 = eliminate_column_facts [OF m2(1) c m2(2,3), folded m3_def]
    have same: "solves k m3 y \<longleftrightarrow> solves k mat y" for y
      using m1(4) m2(4) m3(3) by blast
    then have "injective_system k m3" using Suc.prems(3) by (simp add: injective_system_def)
    then obtain m where "gauss_columns k [Suc c..<k] m3 = Inr m" "wf_matrix k m" "unit_columns k k m"
        "\<forall>y. solves k m y \<longleftrightarrow> solves k m3 y"
      using Suc.hyps(1) [of "Suc c" m3] Suc.hyps(2) m3(1,2) c by fastforce
    then show ?thesis
      unfolding upt using Some same by (simp add: m1_def m2_def m3_def)
  qed
qed

lemma gauss_elim_correct:
  assumes "wf_matrix k mat" and "injective_system k mat"
  obtains m where "gauss_elim k mat = Inr m" "solves k mat (\<lambda>j. if j < k then Gf (m ! j ! k) else 1)"
proof -
  obtain m where m: "gauss_columns k [0..<k] mat = Inr m" "wf_matrix k m" "unit_columns k k m"
      "\<forall>y. solves k m y \<longleftrightarrow> solves k mat y"
    using gauss_columns_correct [of k mat 0] assms by (auto simp: unit_columns_def)
  have "row_value k (m ! r) (\<lambda>j. if j < k then Gf (m ! j ! k) else 1) = 0" if r: "r < k" for r
  proof -
    have "(\<Sum>j<k. Gf (m ! r ! j) * (if j < k then Gf (m ! j ! k) else 1))
        = (\<Sum>j<k. if j = r then Gf (m ! r ! k) else 0)"
      using m(3) r by (intro sum.cong) (auto simp: unit_columns_def Gf_0 Gf_1)
    then show ?thesis
      using r by (simp add: row_value_def sum.delta)
  qed
  then have "solves k m (\<lambda>j. if j < k then Gf (m ! j ! k) else 1)" by (simp add: solves_def)
  then show thesis using m that by (auto simp: gauss_elim_def)
qed

subsection \<open>The evaluation matrix\<close>

text \<open>No exponent of the matrix overflows: it is the Vandermonde matrix of the
  positions.\<close>

definition vandermonde :: "nat \<Rightarrow> nat list \<Rightarrow> u8 list \<Rightarrow> matrix" where
  "vandermonde k good received =
    map (\<lambda>pos. map (\<lambda>col. alpha_pow (pos * col)) [0..<k] @ [received ! pos]) good"

lemma those_map_Some: "\<forall>x \<in> set xs. f x = Some (g x) \<Longrightarrow> those (map f xs) = Some (map g xs)"
  by (induction xs) simp_all

lemma evaluation_matrix_vandermonde:
  assumes "k \<le> 255" and "set good \<subseteq> {..<255}"
  shows "evaluation_matrix k good received = Some (vandermonde k good received)"
proof -
  have "gf_pow 2 (int pos * int col) = Some (alpha_pow (pos * col))" if "pos < 255" "col < 255" for pos col
  proof -
    have "pos * col \<le> 254 * 254" using that by (intro mult_le_mono) simp_all
    then show ?thesis using gf_pow_2 [of "pos * col"] by simp
  qed
  then have "evaluation_row k received pos = Some (map (\<lambda>col. alpha_pow (pos * col)) [0..<k] @ [received ! pos])"
    if "pos < 255" for pos
    using that assms(1)
    by (simp add: evaluation_row_def those_map_Some [where g = "\<lambda>col. alpha_pow (pos * col)"])
  then show ?thesis
    unfolding evaluation_matrix_def vandermonde_def using assms(2) by (intro those_map_Some) auto
qed

lemma vandermonde_wf: "length good = k \<Longrightarrow> wf_matrix k (vandermonde k good received)"
  by (auto simp: wf_matrix_def vandermonde_def)

lemma vandermonde_row:
  assumes "r < length good" and "length good = k"
  shows "row_value k (vandermonde k good received ! r) y =
    gpoly (map y [0..<k]) (alpha ^ (good ! r)) + Gf (received ! (good ! r)) * y k"
proof -
  let ?row = "map (\<lambda>col. alpha_pow (good ! r * col)) [0..<k] @ [received ! (good ! r)]"
  have pow: "Gf (alpha_pow (good ! r * j)) = (alpha ^ (good ! r)) ^ j" for j
    by (simp add: Gf_alpha_pow power_mult)
  have "(\<Sum>j<k. Gf (?row ! j) * y j) = (\<Sum>j<k. y j * (alpha ^ (good ! r)) ^ j)"
    by (intro sum.cong) (simp_all add: nth_append pow)
  moreover have "Gf (?row ! k) = Gf (received ! (good ! r))"
    by (simp add: nth_append)
  ultimately show ?thesis
    using assms by (simp add: vandermonde_def row_value_def gpoly_sum)
qed

lemma vandermonde_injective:
  assumes "length good = k" and "distinct good" and "set good \<subseteq> {..<255}"
  shows "injective_system k (vandermonde k good received)"
  unfolding injective_system_def
proof (intro allI impI)
  fix y j assume y: "solves k (vandermonde k good received) y \<and> y k = 0" and j: "j < k"
  have "inj_on (\<lambda>p. alpha ^ p) (set good)"
    using assms(3) by (auto intro!: inj_onI alpha_power_inj)
  then have "card ((\<lambda>p. alpha ^ p) ` set good) = k"
    using assms by (simp add: card_image distinct_card)
  moreover have "gpoly (map y [0..<k]) x = 0" if x: "x \<in> (\<lambda>p. alpha ^ p) ` set good" for x
  proof -
    obtain r where "r < k" "x = alpha ^ (good ! r)"
      using x assms(1) by (auto simp: in_set_conv_nth)
    then show ?thesis
      using y assms(1) vandermonde_row [of r good k received y] by (simp add: solves_def)
  qed
  ultimately have "\<forall>c \<in> set (map y [0..<k]). c = 0"
    by (intro gpoly_roots_zero [of "(\<lambda>p. alpha ^ p) ` set good"]) auto
  then show "y j = 0" using j by auto
qed

lemma gauss_evaluation:
  assumes "length good = k" and "distinct good" and "set good \<subseteq> {..<255}"
  obtains m where "gauss_elim k (vandermonde k good received) = Inr m"
    "\<And>p. p \<in> set good \<Longrightarrow> poly (map (\<lambda>c. m ! c ! k) [0..<k]) (alpha ^ p) = Gf (received ! p)"
proof -
  obtain m where m: "gauss_elim k (vandermonde k good received) = Inr m"
      "solves k (vandermonde k good received) (\<lambda>j. if j < k then Gf (m ! j ! k) else 1)"
    using gauss_elim_correct [OF vandermonde_wf vandermonde_injective] assms by blast
  have "poly (map (\<lambda>c. m ! c ! k) [0..<k]) (alpha ^ p) = Gf (received ! p)" if p: "p \<in> set good" for p
  proof -
    obtain r where r: "r < k" "p = good ! r"
      using p assms(1) by (auto simp: in_set_conv_nth)
    define y where "y = (\<lambda>j. if j < k then Gf (m ! j ! k) else 1)"
    have eq: "map y [0..<k] = map Gf (map (\<lambda>c. m ! c ! k) [0..<k])" and "y k = 1"
      by (simp_all add: y_def)
    have "row_value k (vandermonde k good received ! r) y = 0"
      using m(2) r by (simp add: solves_def y_def)
    then show ?thesis
      using vandermonde_row [of r good k received y] r assms(1) \<open>y k = 1\<close>
      unfolding eq gpoly_map by (simp add: gf_add_eq_0)
  qed
  with m(1) that show thesis by blast
qed

subsection \<open>The positions\<close>

lemma erasure_mask_length: "length (erasure_mask n pos) = n"
proof -
  have "length (fold (\<lambda>p e. if unat p < n then e[unat p := True] else e) pos e0) = length e0" for e0
    by (induction pos arbitrary: e0) simp_all
  then show ?thesis by (simp add: erasure_mask_def)
qed

lemma erasure_mask_nth:
  "i < n \<Longrightarrow> erasure_mask n pos ! i \<longleftrightarrow> (\<exists>p \<in> set pos. unat p = i)"
proof -
  have "i < n \<Longrightarrow> length e0 = n \<Longrightarrow>
      fold (\<lambda>p e. if unat p < n then e[unat p := True] else e) pos e0 ! i \<longleftrightarrow>
        e0 ! i \<or> (\<exists>p \<in> set pos. unat p = i)" for e0
    by (induction pos arbitrary: e0) (auto simp: nth_list_update)
  then show "i < n \<Longrightarrow> erasure_mask n pos ! i \<longleftrightarrow> (\<exists>p \<in> set pos. unat p = i)"
    by (simp add: erasure_mask_def)
qed

lemma good_positions_facts:
  "distinct (good_positions k n e)" "set (good_positions k n e) \<subseteq> {i. i < n \<and> \<not> e ! i}"
  by (auto simp: good_positions_def dest: in_set_takeD)

lemma good_positions_length:
  assumes "length pos \<le> n - k" and "k \<le> n"
  shows "length (good_positions k n (erasure_mask n pos)) = k"
proof -
  have "card {i. i < n \<and> erasure_mask n pos ! i} \<le> card (unat ` set pos)"
    by (intro card_mono) (auto simp: erasure_mask_nth)
  also have "\<dots> \<le> length pos"
    by (meson card_image_le card_length finite_set le_trans)
  finally have erased: "card {i. i < n \<and> erasure_mask n pos ! i} \<le> n - k" using assms by simp
  have "{i. i < n} = {i. i < n \<and> \<not> erasure_mask n pos ! i} \<union> {i. i < n \<and> erasure_mask n pos ! i}"
    by auto
  then have "n = card {i. i < n \<and> \<not> erasure_mask n pos ! i} + card {i. i < n \<and> erasure_mask n pos ! i}"
    by (metis (no_types, lifting) card_Collect_less_nat card_Un_disjoint disjoint_iff finite_Collect_less_nat
        finite_Un mem_Collect_eq)
  moreover have "length (filter (\<lambda>i. \<not> erasure_mask n pos ! i) [0..<n])
      = card {i. i < n \<and> \<not> erasure_mask n pos ! i}"
    by (subst distinct_card [symmetric]) (auto intro: arg_cong [where f = card])
  ultimately show ?thesis
    using erased assms(2) by (simp add: good_positions_def)
qed

lemma good_positions_0:
  assumes "0 < k" and "0 < n" and "0 \<notin> unat ` set pos"
  shows "0 \<in> set (good_positions k n (erasure_mask n pos))"
proof -
  have "\<not> erasure_mask n pos ! 0" using assms(2,3) by (auto simp: erasure_mask_nth)
  then show ?thesis
    using assms(1,2) by (cases k) (simp_all add: good_positions_def upt_conv_Cons)
qed

text \<open>A block of \<open>k\<close> symbols is determined by the values of its polynomial at
  \<open>k\<close> positions.\<close>

lemma interpolation_unique:
  assumes "length good = k" and "distinct good" and "set good \<subseteq> {..<255}"
    and "length x = k" and "length d = k" and "\<And>p. p \<in> set good \<Longrightarrow> poly x (alpha ^ p) = poly d (alpha ^ p)"
  shows "x = d"
proof -
  have inj: "inj_on (\<lambda>p. alpha ^ p) (set good)"
    using assms(3) by (auto intro!: inj_onI alpha_power_inj)
  then show ?thesis
    using assms card_image [OF inj]
    by (intro poly_unique [where S = "(\<lambda>p. alpha ^ p) ` set good"]) (auto simp: distinct_card)
qed

subsection \<open>The parity of one data symbol\<close>

lemma encode_length:
  assumes "k \<noteq> 0" and "k < n" and "length data = unat k" and "unat n - unat k \<le> RGTP_RS_MAX_T"
    and "rgtp_rs_encode k n (Some data) True = ok par"
  shows "length par = unat n - unat k"
proof -
  have "0 < unat n - unat k" using assms(2) by (simp add: word_less_nat_alt)
  then show ?thesis
    using rgtp_rs_encode_unfold [OF assms(1-4)] rs_register_fold assms(5) by (metis Inr_inject option.inject)
qed

lemma generator_constant: "(\<Prod>i<t. (0 :: gf) + alpha ^ i) = alpha ^ (t * (t - 1) div 2)"
proof -
  have "(\<Prod>i<t. (0 :: gf) + alpha ^ i) = alpha ^ (\<Sum>i<t. i)" by (simp add: power_sum)
  moreover have "(\<Sum>i<t. i) = t * (t - 1) div 2" using Sum_Ico_nat [of 0 t] by (simp add: atLeast0LessThan)
  ultimately show ?thesis by simp
qed

lemma encode_single_parity:
  assumes "1 < n" and "unat n - 1 \<le> RGTP_RS_MAX_T" and "rgtp_rs_encode 1 n (Some [d]) True = ok par"
  shows "Gf (par ! 0) = Gf d * alpha ^ ((unat n - 1) * (unat n - 2) div 2)"
proof -
  have n: "0 < unat n - 1" using assms(1) by (simp add: word_less_nat_alt)
  obtain g where g: "length g = unat n - 1 + 1" "\<And>x. poly g x = (\<Prod>i<unat n - 1. x + alpha ^ i)"
    and enc: "rgtp_rs_encode 1 n (Some [d]) True = ok (rs_register_step g (unat n - 1) d (replicate (unat n - 1) 0))"
    using rgtp_rs_encode_unfold [of 1 n "[d]"] assms by auto
  have "par ! 0 = gf_mul d (g ! 0)"
    using enc assms(3) n by (simp add: rs_register_step_alt)
  moreover have "Gf (g ! 0) = poly g 0" using g(1) by (cases g) simp_all
  ultimately show ?thesis
    unfolding g(2) generator_constant by (simp add: Gf_mul numeral_2_eq_2)
qed

subsection \<open>Properties\<close>

lemma rgtp_rs_decode_interpolates:
  assumes "k \<noteq> 0" and "k < n" and "length received = unat n"
    and "length pos = unat cnt" and "unat cnt \<le> unat n - unat k"
  obtains x where "rgtp_rs_decode k n (Some received) (Some pos) cnt True = ok x" "length x = unat k"
    "\<And>p. p \<in> set (good_positions (unat k) (unat n) (erasure_mask (unat n) pos)) \<Longrightarrow>
      poly x (alpha ^ p) = Gf (received ! p)"
proof -
  define good where "good = good_positions (unat k) (unat n) (erasure_mask (unat n) pos)"
  have kn: "unat k < unat n" "unat n \<le> 255"
    using assms(2) unat_u8_bound [of n] by (simp_all add: word_less_nat_alt)
  have good: "length good = unat k" "distinct good" "set good \<subseteq> {..<unat n}"
    using good_positions_length [of pos "unat n" "unat k"] good_positions_facts [of "unat k" "unat n"] assms kn
    by (auto simp: good_def)
  then have small: "set good \<subseteq> {..<255}" using kn by auto
  then obtain m where m: "gauss_elim (unat k) (vandermonde (unat k) good received) = Inr m"
      "\<And>p. p \<in> set good \<Longrightarrow> poly (map (\<lambda>c. m ! c ! unat k) [0..<unat k]) (alpha ^ p) = Gf (received ! p)"
    using gauss_evaluation [OF good(1,2)] by metis
  have checks: "n \<noteq> 0" "\<not> n \<le> k" "\<not> unat n > RGTP_RS_MAX_N" "\<not> cnt > n - k"
    using assms kn by (auto simp: RGTP_RS_MAX_N_def not_less word_le_nat_alt parity_symbols)
  have bounds: "\<not> (\<exists>p \<in> set good. length received \<le> p)"
    using good(3) assms(3) by auto
  have "rgtp_rs_decode k n (Some received) (Some pos) cnt True = ok (map (\<lambda>c. m ! c ! unat k) [0..<unat k])"
    using assms(1,4) checks bounds good(1) m(1) kn evaluation_matrix_vandermonde [OF _ small, of "unat k" received]
    unfolding good_def by (simp add: rgtp_rs_decode_def Let_def)
  with m(2) show thesis
    using that [of "map (\<lambda>c. m ! c ! unat k) [0..<unat k]"] by (simp add: good_def)
qed

text \<open>C12: the decoder recovers the coefficients of a polynomial from its values: if
  every symbol that is not erased is the value of the polynomial \<open>d\<close> at the
  power of the generator element given by its position, and at most \<open>n - k\<close>
  positions are erased, the decoder returns \<open>d\<close>.  In particular the elimination
  never reports a singular matrix and nothing is read out of bounds.\<close>

theorem rs_decode_recovers:
  assumes "k \<noteq> 0" and "k < n" and "length received = unat n" and "length d = unat k"
    and "length pos = unat cnt" and "unat cnt \<le> unat n - unat k"
    and "\<And>p. p < unat n \<Longrightarrow> p \<notin> unat ` set pos \<Longrightarrow> Gf (received ! p) = poly d (alpha ^ p)"
  shows "rgtp_rs_decode k n (Some received) (Some pos) cnt True = ok d"
proof -
  define good where "good = good_positions (unat k) (unat n) (erasure_mask (unat n) pos)"
  obtain x where x: "rgtp_rs_decode k n (Some received) (Some pos) cnt True = ok x" "length x = unat k"
      "\<And>p. p \<in> set good \<Longrightarrow> poly x (alpha ^ p) = Gf (received ! p)"
    using rgtp_rs_decode_interpolates [OF assms(1-3,5,6)] unfolding good_def by metis
  have kn: "unat k < unat n" "unat n \<le> 255"
    using assms(2) unat_u8_bound [of n] by (simp_all add: word_less_nat_alt)
  have good: "length good = unat k" "distinct good" "set good \<subseteq> {i. i < unat n \<and> \<not> erasure_mask (unat n) pos ! i}"
    using good_positions_length [of pos "unat n" "unat k"] good_positions_facts [of "unat k" "unat n"] assms kn
    by (auto simp: good_def)
  have "poly x (alpha ^ p) = poly d (alpha ^ p)" if p: "p \<in> set good" for p
    using p x(3) assms(7) good(3) by (force simp: erasure_mask_nth)
  moreover have "set good \<subseteq> {..<255}" using good(3) kn by auto
  ultimately have "x = d"
    using interpolation_unique [OF good(1,2)] x(2) assms(4) by blast
  with x(1) show ?thesis by simp
qed

theorem rs_decode_recovers_witness:
  "rgtp_rs_decode 1 3 (Some [5, 0, 5]) (Some [1]) 1 True = ok [5]"
proof (rule rs_decode_recovers)
  fix p assume "p < unat (3 :: u8)" "p \<notin> unat ` set [1 :: u8]"
  then have "p = 0 \<or> p = 2" by auto
  then show "Gf ([5, 0, 5] ! p) = poly [5] (alpha ^ p)" by auto
qed simp_all

text \<open>C14: what the decoder does with the code words of the encoder, data followed
  by parity.  With at most \<open>n - k\<close> erasures it always returns a block without an
  error, but this block is the data exactly when every symbol it reads is the value of the
  data polynomial at the power of the generator element given by its position, which the
  encoder does not arrange.  So the intact first symbol already makes the result wrong
  whenever the exclusive or of the other data symbols is not zero; and a single data
  symbol \<open>d\<close> with \<open>t\<close> parity symbols, of which only the first
  parity symbol arrives, comes back multiplied by \<open>alpha ^ (t (t - 1) / 2)\<close>.\<close>

theorem rs_decode_not_inverse:
  assumes "k \<noteq> 0" and "k < n" and "length data = unat k" and "unat n - unat k \<le> RGTP_RS_MAX_T"
    and "rgtp_rs_encode k n (Some data) True = ok par"
    and "length pos = unat cnt" and "unat cnt \<le> unat n - unat k"
  shows "\<exists>x. rgtp_rs_decode k n (Some (data @ par)) (Some pos) cnt True = ok x \<and>
    (x = data \<longleftrightarrow> (\<forall>p \<in> set (good_positions (unat k) (unat n) (erasure_mask (unat n) pos)).
       Gf ((data @ par) ! p) = poly data (alpha ^ p))) \<and>
    (0 \<notin> unat ` set pos \<and> poly (tl data) 1 \<noteq> 0 \<longrightarrow> x \<noteq> data) \<and>
    (k = 1 \<and> (\<forall>i < unat n. i \<in> unat ` set pos \<longleftrightarrow> i \<noteq> 1) \<longrightarrow>
       map Gf x = [Gf (hd data) * alpha ^ ((unat n - 1) * (unat n - 2) div 2)])"
proof -
  define good where "good = good_positions (unat k) (unat n) (erasure_mask (unat n) pos)"
  have kn: "unat k < unat n" "unat n \<le> 255"
    using assms(2) unat_u8_bound [of n] by (simp_all add: word_less_nat_alt)
  have len: "length par = unat n - unat k" using encode_length [OF assms(1-5)] .
  then have word: "length (data @ par) = unat n" using assms(3) kn by simp
  obtain x where x: "rgtp_rs_decode k n (Some (data @ par)) (Some pos) cnt True = ok x" "length x = unat k"
      "\<And>p. p \<in> set good \<Longrightarrow> poly x (alpha ^ p) = Gf ((data @ par) ! p)"
    using rgtp_rs_decode_interpolates [OF assms(1,2) word assms(6,7)] unfolding good_def by metis
  have "length good = unat k" "distinct good" "set good \<subseteq> {..<unat n}"
    using good_positions_length [of pos "unat n" "unat k"] good_positions_facts [of "unat k" "unat n"] assms kn
    by (auto simp: good_def)
  then have good: "length good = unat k" "distinct good" "set good \<subseteq> {..<255}" using kn(2) by auto
  have iff: "x = data \<longleftrightarrow> (\<forall>p \<in> set good. Gf ((data @ par) ! p) = poly data (alpha ^ p))"
    using interpolation_unique [OF good, of x data] x(2,3) assms(3) by auto
  have wrong: "x \<noteq> data" if *: "0 \<notin> unat ` set pos" "poly (tl data) 1 \<noteq> 0"
  proof -
    have "0 < unat k" "0 < unat n" using assms(1) kn(1) unat_gt_0 [of k] by linarith+
    then have "0 \<in> set good" unfolding good_def using *(1) by (rule good_positions_0)
    moreover have "data \<noteq> []" using assms(1,3) by (auto simp: unat_eq_zero)
    ultimately show ?thesis
      unfolding iff using *(2) by (cases data) (auto intro!: bexI [of _ 0])
  qed
  have single: "map Gf x = [Gf (hd data) * alpha ^ ((unat n - 1) * (unat n - 2) div 2)]"
    if *: "k = 1" "\<forall>i < unat n. i \<in> unat ` set pos \<longleftrightarrow> i \<noteq> 1"
  proof -
    obtain d where d: "data = [d]" using assms(3) *(1) by (auto simp: length_Suc_conv)
    obtain v where v: "x = [v]" using x(2) *(1) by (auto simp: length_Suc_conv)
    have "p = 1" if "p \<in> set good" for p
    proof -
      have "p < unat n \<and> \<not> erasure_mask (unat n) pos ! p"
        using that good_positions_facts(2) unfolding good_def by blast
      then have "p < unat n" "p \<notin> unat ` set pos" by (auto simp: erasure_mask_nth)
      then show ?thesis using *(2) by blast
    qed
    moreover obtain q where "q \<in> set good" using good(1) *(1) by (cases good) auto
    ultimately have "1 \<in> set good" by metis
    then have "Gf v = Gf (par ! 0)" using x(3) [of 1] v d by simp
    then show ?thesis
      using encode_single_parity [of n d par] assms(2,4,5) *(1) d v by simp
  qed
  show ?thesis
    by (intro exI [of _ x] conjI impI; (elim conjE)?) (fact x(1) iff [unfolded good_def] wrong single)+
qed

theorem rs_decode_not_inverse_witness:
  "\<exists>par x. rgtp_rs_encode 1 3 (Some [7]) True = ok par \<and>
    rgtp_rs_decode 1 3 (Some ([7] @ par)) (Some [0, 2]) 2 True = ok x \<and> map Gf x = [Gf 7 * alpha] \<and> x \<noteq> [7]"
proof -
  obtain par where par: "rgtp_rs_encode 1 3 (Some [7]) True = ok par"
    using rgtp_rs_encode_unfold [of 1 3 "[7]"] by (auto simp: RGTP_RS_MAX_T_def)
  have erased: "\<forall>i < unat (3 :: u8). i \<in> unat ` set [0 :: u8, 2] \<longleftrightarrow> i \<noteq> 1" by auto
  obtain x where x: "rgtp_rs_decode 1 3 (Some ([7] @ par)) (Some [0, 2]) 2 True = ok x" "map Gf x = [Gf 7 * alpha]"
    using rs_decode_not_inverse [of 1 3 "[7]" par "[0, 2]" 2, OF _ _ _ _ par] erased
    by (simp add: RGTP_RS_MAX_T_def del: set_simps) metis
  have "Gf 7 * alpha \<noteq> Gf 7" using mult_cancel_left1 [of "Gf 7" alpha] by (simp add: one_gf_def)
  then show ?thesis using par x by auto
qed

end
