(* ===== verification/Rgtp_SIMD.thy ===== *)
theory Rgtp_SIMD
  imports Rgtp_GF256
begin

text \<open>
  The vectorised multiply-accumulate of \<^verbatim>\<open>src/fec/rgtp_rs_simd.c\<close>:
  the scalar loop, the SSE4.2, AVX2 and NEON versions over split nibble tables, and
  the dispatch.  A region given by \<^verbatim>\<open>dst\<close>, \<^verbatim>\<open>src\<close>
  and \<^verbatim>\<open>len\<close> is a pair of byte lists of that length.  A vector
  register is the list of its bytes; the intrinsics are modelled with the lane
  structure that their manuals give them.  The lemmas show that every version computes
  what the scalar loop computes.
\<close>

unbundle bit_operations_syntax

subsection \<open>The scalar loop\<close>

definition gf_mul_tail :: "u8 \<Rightarrow> bytes \<Rightarrow> bytes \<Rightarrow> bytes" where
  "gf_mul_tail c src dst = map2 (\<lambda>d s. d XOR gf_mul c s) dst src"

definition xor_region :: "bytes \<Rightarrow> bytes \<Rightarrow> bytes" where
  "xor_region src dst = map2 (\<lambda>d s. d XOR s) dst src"

definition rgtp_gf_mul_region_scalar :: "u8 \<Rightarrow> bytes \<Rightarrow> bytes \<Rightarrow> bytes" where
  "rgtp_gf_mul_region_scalar c src dst =
    (if c = 0 then dst else if c = 1 then xor_region src dst else gf_mul_tail c src dst)"

subsection \<open>Vector intrinsics\<close>

text \<open>\<^verbatim>\<open>_mm_shuffle_epi8\<close>: an index with its top bit set selects
  zero.\<close>

definition mm_shuffle_epi8 :: "bytes \<Rightarrow> bytes \<Rightarrow> bytes" where
  "mm_shuffle_epi8 tbl idx = map (\<lambda>i. if bit i 7 then 0 else tbl ! unat (i AND 0x0F)) idx"

text \<open>\<^verbatim>\<open>_mm_srli_epi16\<close>: a shift of 16-bit lanes, so bits of the
  high byte of a lane move into the low byte.\<close>

definition lane16 :: "u8 \<Rightarrow> u8 \<Rightarrow> u16" where
  "lane16 lo hi = ucast lo OR push_bit 8 (ucast hi)"

fun mm_srli_epi16 :: "nat \<Rightarrow> bytes \<Rightarrow> bytes" where
  "mm_srli_epi16 n (lo # hi # v) =
    (let w = drop_bit n (lane16 lo hi)
     in ucast w # ucast (drop_bit 8 w) # mm_srli_epi16 n v)"
| "mm_srli_epi16 n v = v"

text \<open>The 256-bit shuffle works on its two 128-bit halves.\<close>

definition mm256_shuffle_epi8 :: "bytes \<Rightarrow> bytes \<Rightarrow> bytes" where
  "mm256_shuffle_epi8 tbl idx =
    mm_shuffle_epi8 (take 16 tbl) (take 16 idx) @ mm_shuffle_epi8 (drop 16 tbl) (drop 16 idx)"

text \<open>\<^verbatim>\<open>vqtbl1q_u8\<close>: an index out of range selects zero.\<close>

definition vqtbl1q_u8 :: "bytes \<Rightarrow> bytes \<Rightarrow> bytes" where
  "vqtbl1q_u8 tbl idx = map (\<lambda>i. if unat i < 16 then tbl ! unat i else 0) idx"

abbreviation and_vec :: "u8 \<Rightarrow> bytes \<Rightarrow> bytes" where "and_vec m v \<equiv> map (\<lambda>x. x AND m) v"
abbreviation xor_vec :: "bytes \<Rightarrow> bytes \<Rightarrow> bytes" where "xor_vec a b \<equiv> map2 (XOR) a b"

subsection \<open>The vectorised versions\<close>

definition tbl_lo :: "u8 \<Rightarrow> bytes" where
  "tbl_lo c = map (\<lambda>i. gf_mul c (word_of_nat i)) [0..<16]"

definition tbl_hi :: "u8 \<Rightarrow> bytes" where
  "tbl_hi c = map (\<lambda>i. gf_mul c (push_bit 4 (word_of_nat i))) [0..<16]"

definition sse_block :: "u8 \<Rightarrow> bytes \<Rightarrow> bytes \<Rightarrow> bytes" where
  "sse_block c v d =
    (let lo = and_vec 0x0F v;
         hi = and_vec 0x0F (mm_srli_epi16 4 v);
         res = xor_vec (mm_shuffle_epi8 (tbl_lo c) lo) (mm_shuffle_epi8 (tbl_hi c) hi)
     in xor_vec d res)"

definition avx2_block :: "u8 \<Rightarrow> bytes \<Rightarrow> bytes \<Rightarrow> bytes" where
  "avx2_block c v d =
    (let lo_tbl = tbl_lo c @ tbl_lo c; hi_tbl = tbl_hi c @ tbl_hi c;
         lo = and_vec 0x0F v;
         hi = and_vec 0x0F (mm_srli_epi16 4 v);
         res = xor_vec (mm256_shuffle_epi8 lo_tbl lo) (mm256_shuffle_epi8 hi_tbl hi)
     in xor_vec d res)"

definition neon_block :: "u8 \<Rightarrow> bytes \<Rightarrow> bytes \<Rightarrow> bytes" where
  "neon_block c v d =
    (let lo = and_vec 0x0F v;
         hi = and_vec 0x0F (map (drop_bit 4) v);
         res = xor_vec (vqtbl1q_u8 (tbl_lo c) lo) (vqtbl1q_u8 (tbl_hi c) hi)
     in xor_vec d res)"

text \<open>A loop over whole blocks of \<open>w\<close> bytes; the rest is left to the
  continuation.\<close>

function block_loop :: "nat \<Rightarrow> (bytes \<Rightarrow> bytes \<Rightarrow> bytes) \<Rightarrow> (bytes \<Rightarrow> bytes \<Rightarrow> bytes) \<Rightarrow> bytes \<Rightarrow> bytes \<Rightarrow> bytes" where
  "block_loop w blk rest src dst =
    (if 0 < w \<and> w \<le> length src
     then blk (take w src) (take w dst) @ block_loop w blk rest (drop w src) (drop w dst)
     else rest src dst)"
  by auto
termination
  by (relation "measure (\<lambda>(w, blk, rest, src, dst). length src)") auto

declare block_loop.simps [simp del]

definition rgtp_gf_mul_region_sse42 :: "u8 \<Rightarrow> bytes \<Rightarrow> bytes \<Rightarrow> bytes" where
  "rgtp_gf_mul_region_sse42 c src dst =
    (if c = 0 then dst else if c = 1 then xor_region src dst
     else block_loop 16 (sse_block c) (gf_mul_tail c) src dst)"

definition rgtp_gf_mul_region_avx2 :: "u8 \<Rightarrow> bytes \<Rightarrow> bytes \<Rightarrow> bytes" where
  "rgtp_gf_mul_region_avx2 c src dst =
    (if c = 0 then dst else if c = 1 then xor_region src dst
     else block_loop 32 (avx2_block c) (block_loop 16 (sse_block c) (gf_mul_tail c)) src dst)"

definition rgtp_gf_mul_region_neon :: "u8 \<Rightarrow> bytes \<Rightarrow> bytes \<Rightarrow> bytes" where
  "rgtp_gf_mul_region_neon c src dst =
    (if c = 0 then dst else if c = 1 then xor_region src dst
     else block_loop 16 (neon_block c) (gf_mul_tail c) src dst)"

text \<open>The compile-time configuration and the pointer that
  \<^verbatim>\<open>rgtp_simd_init\<close> selects for it.\<close>

record simd_config =
  RGTP_ENABLE_SIMD :: bool
  AVX2 :: bool
  SSE4_2 :: bool
  SSSE3 :: bool
  ARM_NEON :: bool

definition rgtp_simd_init :: "simd_config \<Rightarrow> u8 \<Rightarrow> bytes \<Rightarrow> bytes \<Rightarrow> bytes" where
  "rgtp_simd_init cfg =
    (if RGTP_ENABLE_SIMD cfg then
       (if AVX2 cfg then rgtp_gf_mul_region_avx2
        else if SSE4_2 cfg \<and> SSSE3 cfg then rgtp_gf_mul_region_sse42
        else if ARM_NEON cfg then rgtp_gf_mul_region_neon
        else rgtp_gf_mul_region_scalar)
     else rgtp_gf_mul_region_scalar)"

subsection \<open>Nibbles\<close>

lemma mask_nibble: "(0x0F :: u8) = mask 4"
  by (simp add: mask_eq_exp_minus_1)

lemma nibble_split: "x = (x AND 0x0F) XOR push_bit 4 (drop_bit 4 x)" for x :: u8
  unfolding mask_nibble by (rule bit_word_eqI) (auto simp: bit_simps)

lemma nibble_bound: "unat (x AND 0x0F) < 16" for x :: u8
proof -
  have "x AND 0x0F = take_bit 4 x" by (simp add: mask_nibble take_bit_eq_mask)
  then have "unat (x AND 0x0F) = take_bit 4 (unat x)" by (simp add: unsigned_take_bit_eq)
  then show ?thesis using take_bit_nat_less_exp [of 4 "unat x"] by simp
qed

lemma nibble_low: "\<not> bit (x AND 0x0F) 7" "(x AND 0x0F) AND 0x0F = x AND 0x0F" for x :: u8
  unfolding mask_nibble by (auto simp: bit_simps and.assoc)

lemma gf_mul_nibbles: "gf_mul c (x AND 0x0F) XOR gf_mul c (push_bit 4 (drop_bit 4 x)) = gf_mul c x"
  by (simp flip: gf_mul_xor nibble_split)

lemma drop_bit_nibble: "drop_bit 4 x AND 0x0F = drop_bit 4 x" for x :: u8
  unfolding mask_nibble by (rule bit_word_eqI) (auto simp: bit_simps dest: bit_imp_le_length)

lemma tbl_lo_nth: "i < 16 \<Longrightarrow> tbl_lo c ! i = gf_mul c (word_of_nat i)"
  by (simp add: tbl_lo_def)

lemma tbl_hi_nth: "i < 16 \<Longrightarrow> tbl_hi c ! i = gf_mul c (push_bit 4 (word_of_nat i))"
  by (simp add: tbl_hi_def)

lemma shift_lane:
  "ucast (drop_bit 4 (lane16 lo hi)) AND 0x0F = drop_bit 4 lo"
  "ucast (drop_bit 8 (drop_bit 4 (lane16 lo hi))) AND 0x0F = drop_bit 4 hi"
  for lo hi :: u8
  unfolding mask_nibble lane16_def
  by (rule bit_word_eqI; auto simp: bit_simps dest: bit_imp_le_length)+

lemma shift_mask: "even (length v) \<Longrightarrow> and_vec 0x0F (mm_srli_epi16 4 v) = map (drop_bit 4) v"
  by (induction "4::nat" v rule: mm_srli_epi16.induct) (simp_all add: Let_def shift_lane del: drop_bit_drop_bit)

lemma shuffle_lo: "mm_shuffle_epi8 (tbl_lo c) (and_vec 0x0F v) = map (\<lambda>x. gf_mul c (x AND 0x0F)) v"
  by (simp add: mm_shuffle_epi8_def nibble_low tbl_lo_nth nibble_bound)

lemma shuffle_hi:
  "mm_shuffle_epi8 (tbl_hi c) (map (drop_bit 4) v) = map (\<lambda>x. gf_mul c (push_bit 4 (drop_bit 4 x))) v"
proof -
  have "\<not> bit (drop_bit 4 x) 7" for x :: u8
    using bit_imp_le_length [of x 11] by (auto simp: bit_simps)
  then show ?thesis
    using nibble_bound [of "drop_bit 4 _"]
    by (simp add: mm_shuffle_epi8_def drop_bit_nibble tbl_hi_nth)
qed

subsection \<open>Blocks and loops\<close>

lemma map2_map_same: "map2 f (map g v) (map h v) = map (\<lambda>x. f (g x) (h x)) v"
  by (induction v) simp_all

lemma xor_vec_tail:
  "xor_vec d (map (gf_mul c) v) = gf_mul_tail c v d"
  by (simp add: gf_mul_tail_def zip_map2 comp_def case_prod_unfold)

lemma sse_block_tail: "even (length v) \<Longrightarrow> sse_block c v d = gf_mul_tail c v d"
  by (simp add: sse_block_def Let_def shift_mask shuffle_lo shuffle_hi map2_map_same gf_mul_nibbles xor_vec_tail)

lemma mm256_shuffle_halves:
  "length tbl = 16 \<Longrightarrow> mm256_shuffle_epi8 (tbl @ tbl) idx = mm_shuffle_epi8 tbl idx"
  by (simp add: mm256_shuffle_epi8_def mm_shuffle_epi8_def flip: map_append)

lemma avx2_block_tail: "even (length v) \<Longrightarrow> avx2_block c v d = gf_mul_tail c v d"
proof -
  assume "even (length v)"
  have "length (tbl_lo c) = 16" "length (tbl_hi c) = 16" by (simp_all add: tbl_lo_def tbl_hi_def)
  then have "avx2_block c v d = sse_block c v d"
    by (simp add: avx2_block_def sse_block_def Let_def mm256_shuffle_halves)
  then show ?thesis using sse_block_tail \<open>even (length v)\<close> by simp
qed

lemma neon_block_tail: "neon_block c v d = gf_mul_tail c v d"
proof -
  have "vqtbl1q_u8 (tbl_lo c) (and_vec 0x0F v) = map (\<lambda>x. gf_mul c (x AND 0x0F)) v"
    by (simp add: vqtbl1q_u8_def nibble_bound tbl_lo_nth)
  moreover have "vqtbl1q_u8 (tbl_hi c) (and_vec 0x0F (map (drop_bit 4) v))
      = map (\<lambda>x. gf_mul c (push_bit 4 (drop_bit 4 x))) v"
    using nibble_bound [of "drop_bit 4 _"] by (simp add: vqtbl1q_u8_def drop_bit_nibble tbl_hi_nth comp_def)
  ultimately show ?thesis
    unfolding neon_block_def Let_def by (simp add: map2_map_same gf_mul_nibbles xor_vec_tail)
qed

lemma gf_mul_tail_append:
  "length a = length d \<Longrightarrow> gf_mul_tail c (a @ b) (d @ e) = gf_mul_tail c a d @ gf_mul_tail c b e"
  by (simp add: gf_mul_tail_def)

lemma block_loop_tail:
  assumes "length src = length dst" and "\<And>v d. length v = w \<Longrightarrow> blk v d = gf_mul_tail c v d"
    and "\<And>v d. length v = length d \<Longrightarrow> rest v d = gf_mul_tail c v d"
  shows "block_loop w blk rest src dst = gf_mul_tail c src dst"
  using assms
proof (induction w blk rest src dst rule: block_loop.induct)
  case (1 w blk rest src dst)
  show ?case
  proof (cases "0 < w \<and> w \<le> length src")
    case True
    have "block_loop w blk rest src dst =
        gf_mul_tail c (take w src) (take w dst) @ gf_mul_tail c (drop w src) (drop w dst)"
      using 1 True by (subst block_loop.simps) simp
    also have "\<dots> = gf_mul_tail c src dst"
      using 1(2) gf_mul_tail_append [of "take w src" "take w dst" c "drop w src" "drop w dst"] by simp
    finally show ?thesis .
  next
    case False
    then show ?thesis using 1 by (subst block_loop.simps) auto
  qed
qed

lemma region_equal:
  assumes "length src = length dst"
  shows "rgtp_gf_mul_region_sse42 c src dst = rgtp_gf_mul_region_scalar c src dst"
    "rgtp_gf_mul_region_avx2 c src dst = rgtp_gf_mul_region_scalar c src dst"
    "rgtp_gf_mul_region_neon c src dst = rgtp_gf_mul_region_scalar c src dst"
proof -
  have sse: "block_loop 16 (sse_block c) (gf_mul_tail c) s d = gf_mul_tail c s d"
    if "length s = length d" for s d
    using that by (rule block_loop_tail) (simp_all add: sse_block_tail)
  have avx: "block_loop 32 (avx2_block c) (block_loop 16 (sse_block c) (gf_mul_tail c)) src dst = gf_mul_tail c src dst"
    using assms by (rule block_loop_tail) (simp_all add: avx2_block_tail sse)
  have neon: "block_loop 16 (neon_block c) (gf_mul_tail c) src dst = gf_mul_tail c src dst"
    using assms by (rule block_loop_tail) (simp_all add: neon_block_tail)
  show "rgtp_gf_mul_region_sse42 c src dst = rgtp_gf_mul_region_scalar c src dst"
    "rgtp_gf_mul_region_avx2 c src dst = rgtp_gf_mul_region_scalar c src dst"
    "rgtp_gf_mul_region_neon c src dst = rgtp_gf_mul_region_scalar c src dst"
    using sse [OF assms] avx neon
    by (simp_all add: rgtp_gf_mul_region_sse42_def rgtp_gf_mul_region_avx2_def rgtp_gf_mul_region_neon_def
        rgtp_gf_mul_region_scalar_def)
qed

subsection \<open>Properties\<close>

text \<open>C18: whatever the build selects, the dispatched routine adds the product with
  the constant to every byte of the destination, for regions of every length.\<close>

theorem simd_region_correct:
  assumes "length src = length dst"
  shows "rgtp_simd_init cfg c src dst = map2 (\<lambda>d s. d XOR gf_mul c s) dst src"
proof -
  have "rgtp_simd_init cfg c src dst = rgtp_gf_mul_region_scalar c src dst"
    using assms by (simp add: rgtp_simd_init_def region_equal)
  also have "\<dots> = map2 (\<lambda>d s. d XOR gf_mul c s) dst src"
  proof (cases "c = 0")
    case True
    have "map2 (\<lambda>d s. d) dst src = dst"
      using assms by (induction src dst rule: list_induct2) simp_all
    then show ?thesis by (simp add: rgtp_gf_mul_region_scalar_def True)
  next
    case False
    then show ?thesis
      by (simp add: rgtp_gf_mul_region_scalar_def xor_region_def gf_mul_tail_def)
  qed
  finally show ?thesis .
qed

theorem simd_region_correct_witness:
  "rgtp_simd_init \<lparr>RGTP_ENABLE_SIMD = True, AVX2 = True, SSE4_2 = True, SSSE3 = True, ARM_NEON = False\<rparr> 2
     (replicate 50 3) (replicate 50 1) = replicate 50 7"
proof -
  have "gf_mul 2 3 = 6"
    by code_simp
  then have "map2 (\<lambda>d s. d XOR gf_mul 2 s) (replicate 50 1) (replicate 50 3) = replicate 50 7"
    by (simp add: zip_replicate)
  then show ?thesis
    by (subst simd_region_correct) simp_all
qed

end
