(* ===== verification/Rgtp_Wire.thy ===== *)
theory Rgtp_Wire
  imports Rgtp_Prelude
begin

text \<open>
  The wire protocol: the packet structures of
  \<^verbatim>\<open>src/wire/rgtp_packet_types.h\<close>, the serializer of
  \<^verbatim>\<open>src/wire/rgtp_packet.c\<close> and the parser of
  \<^verbatim>\<open>src/wire/rgtp_parser.c\<close>.  A serializer takes the output
  buffer and returns the buffer after its stores together with the number of bytes
  produced; a parser takes the bytes between the packet header and the declared
  packet length.  The lemmas give the exact bytes of every packet type, that
  parsing what was serialized returns the packet, which buffers the parser
  accepts, and that neither direction ever accesses memory outside its buffer.
\<close>

subsection \<open>Packet structures\<close>

definition RGTP_PROTOCOL_VERSION :: u8 where "RGTP_PROTOCOL_VERSION = 1"
definition RGTP_HEADER_SIZE :: nat where "RGTP_HEADER_SIZE = 4"

record rgtp_pull_request =
  pr_exposure_id :: bytes
  pr_window_size :: u32
  pr_loss_rate_q16 :: u32
  pr_flags :: u32
  pr_version_min :: u16
  pr_version_max :: u16

record rgtp_manifest =
  mf_exposure_id :: bytes
  mf_total_size :: u64
  mf_chunk_count :: u32
  mf_chunk_size :: u32
  mf_merkle_root :: bytes
  mf_fec_n :: u8
  mf_fec_k :: u8
  mf_flags :: u16

record rgtp_chunk_data =
  cd_exposure_id :: bytes
  cd_chunk_index :: u32
  cd_payload :: "bytes option"
  cd_payload_len :: u16

record rgtp_chunk_with_proof =
  cp_exposure_id :: bytes
  cp_chunk_index :: u32
  cp_proof_depth :: u8
  cp_proof :: "bytes option"
  cp_payload :: "bytes option"
  cp_payload_len :: u16

record rgtp_fec_parity =
  fp_exposure_id :: bytes
  fp_block_index :: u32
  fp_parity_index :: u8
  fp_fec_n :: u8
  fp_fec_k :: u8
  fp_reserved :: u8
  fp_payload :: "bytes option"
  fp_payload_len :: u16

record rgtp_nak =
  nk_exposure_id :: bytes
  nk_nak_count :: u16
  nk_chunk_indices :: "u32 list"

record rgtp_rate_report =
  rr_exposure_id :: bytes
  rr_rtt_us :: u32
  rr_loss_rate_q16 :: u32
  rr_window_size :: u32
  rr_reserved :: u32
  rr_timestamp_us :: u64

record rgtp_keepalive =
  ka_exposure_id :: bytes
  ka_timestamp_us :: u64
  ka_reserved :: u32

text \<open>The tagged union.  \<open>OtherPacket\<close> is a \<^verbatim>\<open>type\<close>
  field that is none of the enumerators.\<close>

datatype rgtp_packet =
    PullRequest rgtp_pull_request
  | Manifest rgtp_manifest
  | ChunkData rgtp_chunk_data
  | ChunkWithProof rgtp_chunk_with_proof
  | FecParity rgtp_fec_parity
  | Nak rgtp_nak
  | RateReport rgtp_rate_report
  | Keepalive rgtp_keepalive
  | OtherPacket u8

fun rgtp_pkt_type :: "rgtp_packet \<Rightarrow> u8" where
  "rgtp_pkt_type (PullRequest _) = 1"
| "rgtp_pkt_type (Manifest _) = 2"
| "rgtp_pkt_type (ChunkData _) = 3"
| "rgtp_pkt_type (ChunkWithProof _) = 4"
| "rgtp_pkt_type (FecParity _) = 5"
| "rgtp_pkt_type (Nak _) = 6"
| "rgtp_pkt_type (RateReport _) = 7"
| "rgtp_pkt_type (Keepalive _) = 8"
| "rgtp_pkt_type (OtherPacket t) = t"

subsection \<open>Big-endian helpers\<close>

definition u16_be :: "u16 \<Rightarrow> bytes" where
  "u16_be v = [ucast (drop_bit 8 v), ucast (v AND 0xFF)]"

definition u32_be :: "u32 \<Rightarrow> bytes" where
  "u32_be v = [ucast (drop_bit 24 v), ucast (drop_bit 16 v), ucast (drop_bit 8 v), ucast (v AND 0xFF)]"

definition u64_be :: "u64 \<Rightarrow> bytes" where
  "u64_be v = [ucast (drop_bit 56 v), ucast (drop_bit 48 v), ucast (drop_bit 40 v), ucast (drop_bit 32 v),
    ucast (drop_bit 24 v), ucast (drop_bit 16 v), ucast (drop_bit 8 v), ucast (v AND 0xFF)]"

definition write_u16_be :: "bytes \<Rightarrow> nat \<Rightarrow> u16 \<Rightarrow> bytes option" where
  "write_u16_be buf off v = mem_put buf off (u16_be v)"

definition write_u32_be :: "bytes \<Rightarrow> nat \<Rightarrow> u32 \<Rightarrow> bytes option" where
  "write_u32_be buf off v = mem_put buf off (u32_be v)"

definition write_u64_be :: "bytes \<Rightarrow> nat \<Rightarrow> u64 \<Rightarrow> bytes option" where
  "write_u64_be buf off v = mem_put buf off (u64_be v)"

definition store8 :: "bytes \<Rightarrow> nat \<Rightarrow> u8 \<Rightarrow> bytes option" where
  "store8 buf off v = mem_put buf off [v]"

fun read_u16_be :: "bytes \<Rightarrow> u16 option" where
  "read_u16_be (p0 # p1 # _) = Some (push_bit 8 (ucast p0) OR ucast p1)"
| "read_u16_be _ = None"

fun read_u32_be :: "bytes \<Rightarrow> u32 option" where
  "read_u32_be (p0 # p1 # p2 # p3 # _) =
    Some (push_bit 24 (ucast p0) OR push_bit 16 (ucast p1) OR push_bit 8 (ucast p2) OR ucast p3)"
| "read_u32_be _ = None"

fun read_u64_be :: "bytes \<Rightarrow> u64 option" where
  "read_u64_be (p0 # p1 # p2 # p3 # p4 # p5 # p6 # p7 # _) =
    Some (push_bit 56 (ucast p0) OR push_bit 48 (ucast p1) OR push_bit 40 (ucast p2) OR
      push_bit 32 (ucast p3) OR push_bit 24 (ucast p4) OR push_bit 16 (ucast p5) OR
      push_bit 8 (ucast p6) OR ucast p7)"
| "read_u64_be _ = None"

text \<open>A load through a \<^verbatim>\<open>uint32_t*\<close>: the host's byte order,
  which is little-endian on the x86-64 and ARM targets of the build.\<close>

fun load_u32_host :: "bytes \<Rightarrow> u32 option" where
  "load_u32_host (p0 # p1 # p2 # p3 # _) =
    Some (push_bit 24 (ucast p3) OR push_bit 16 (ucast p2) OR push_bit 8 (ucast p1) OR ucast p0)"
| "load_u32_host _ = None"

fun load_u32_array :: "bytes \<Rightarrow> nat \<Rightarrow> u32 list option" where
  "load_u32_array p 0 = Some []"
| "load_u32_array p (Suc n) = do {
     v \<leftarrow> load_u32_host p;
     vs \<leftarrow> load_u32_array (drop 4 p) n;
     Some (v # vs) }"

subsection \<open>Serializer\<close>

definition write_header :: "bytes \<Rightarrow> u8 \<Rightarrow> u16 \<Rightarrow> bytes option" where
  "write_header buf ty total_len = do {
     buf \<leftarrow> store8 buf 0 RGTP_PROTOCOL_VERSION;
     buf \<leftarrow> store8 buf 1 ty;
     write_u16_be buf 2 total_len }"

definition serialize_pull_request :: "rgtp_pull_request \<Rightarrow> bytes \<Rightarrow> (bytes \<times> nat) cres" where
  "serialize_pull_request p buf =
    (let LEN = 36 in
     if length buf < LEN then err RGTP_ERR_INVALID_ARG
     else do {
       buf \<leftarrow> write_header buf 1 (word_of_nat LEN);
       buf \<leftarrow> mem_copy buf 4 (pr_exposure_id p) 16;
       buf \<leftarrow> write_u32_be buf 20 (pr_window_size p);
       buf \<leftarrow> write_u32_be buf 24 (pr_loss_rate_q16 p);
       buf \<leftarrow> write_u32_be buf 28 (pr_flags p);
       buf \<leftarrow> write_u16_be buf 32 (pr_version_min p);
       buf \<leftarrow> write_u16_be buf 34 (pr_version_max p);
       ok (buf, LEN) })"

definition serialize_manifest :: "rgtp_manifest \<Rightarrow> bytes \<Rightarrow> (bytes \<times> nat) cres" where
  "serialize_manifest p buf =
    (let LEN = 72 in
     if length buf < LEN then err RGTP_ERR_INVALID_ARG
     else do {
       buf \<leftarrow> write_header buf 2 (word_of_nat LEN);
       buf \<leftarrow> mem_copy buf 4 (mf_exposure_id p) 16;
       buf \<leftarrow> write_u64_be buf 20 (mf_total_size p);
       buf \<leftarrow> write_u32_be buf 28 (mf_chunk_count p);
       buf \<leftarrow> write_u32_be buf 32 (mf_chunk_size p);
       buf \<leftarrow> mem_copy buf 36 (mf_merkle_root p) 32;
       buf \<leftarrow> store8 buf 68 (mf_fec_n p);
       buf \<leftarrow> store8 buf 69 (mf_fec_k p);
       buf \<leftarrow> write_u16_be buf 70 (mf_flags p);
       ok (buf, LEN) })"

text \<open>\<^verbatim>\<open>if (len > 0 && src != NULL) memcpy(buf + off, src, len)\<close>:
  the bytes of the buffer stay as they are when the pointer is
  \<^verbatim>\<open>NULL\<close>.\<close>

definition copy_payload :: "bytes \<Rightarrow> nat \<Rightarrow> bytes option \<Rightarrow> nat \<Rightarrow> bytes option" where
  "copy_payload buf off src n =
    (if n > 0 then (case src of None \<Rightarrow> Some buf | Some p \<Rightarrow> mem_copy buf off p n) else Some buf)"

definition serialize_chunk_data :: "rgtp_chunk_data \<Rightarrow> bytes \<Rightarrow> (bytes \<times> nat) cres" where
  "serialize_chunk_data p buf =
    (let FIXED = 24; LEN = FIXED + unat (cd_payload_len p) in
     if length buf < LEN \<or> LEN > 65535 then err RGTP_ERR_INVALID_ARG
     else do {
       buf \<leftarrow> write_header buf 3 (word_of_nat LEN);
       buf \<leftarrow> mem_copy buf 4 (cd_exposure_id p) 16;
       buf \<leftarrow> write_u32_be buf 20 (cd_chunk_index p);
       buf \<leftarrow> copy_payload buf FIXED (cd_payload p) (unat (cd_payload_len p));
       ok (buf, LEN) })"

definition serialize_chunk_with_proof :: "rgtp_chunk_with_proof \<Rightarrow> bytes \<Rightarrow> (bytes \<times> nat) cres" where
  "serialize_chunk_with_proof p buf =
    (let FIXED = 25; proof_bytes = unat (cp_proof_depth p) * 32;
         LEN = FIXED + proof_bytes + unat (cp_payload_len p) in
     if length buf < LEN \<or> LEN > 65535 then err RGTP_ERR_INVALID_ARG
     else do {
       buf \<leftarrow> write_header buf 4 (word_of_nat LEN);
       buf \<leftarrow> mem_copy buf 4 (cp_exposure_id p) 16;
       buf \<leftarrow> write_u32_be buf 20 (cp_chunk_index p);
       buf \<leftarrow> store8 buf 24 (cp_proof_depth p);
       buf \<leftarrow> copy_payload buf FIXED (cp_proof p) proof_bytes;
       buf \<leftarrow> copy_payload buf (FIXED + proof_bytes) (cp_payload p) (unat (cp_payload_len p));
       ok (buf, LEN) })"

definition serialize_fec_parity :: "rgtp_fec_parity \<Rightarrow> bytes \<Rightarrow> (bytes \<times> nat) cres" where
  "serialize_fec_parity p buf =
    (let FIXED = 28; LEN = FIXED + unat (fp_payload_len p) in
     if length buf < LEN \<or> LEN > 65535 then err RGTP_ERR_INVALID_ARG
     else do {
       buf \<leftarrow> write_header buf 5 (word_of_nat LEN);
       buf \<leftarrow> mem_copy buf 4 (fp_exposure_id p) 16;
       buf \<leftarrow> write_u32_be buf 20 (fp_block_index p);
       buf \<leftarrow> store8 buf 24 (fp_parity_index p);
       buf \<leftarrow> store8 buf 25 (fp_fec_n p);
       buf \<leftarrow> store8 buf 26 (fp_fec_k p);
       buf \<leftarrow> store8 buf 27 (fp_reserved p);
       buf \<leftarrow> copy_payload buf FIXED (fp_payload p) (unat (fp_payload_len p));
       ok (buf, LEN) })"

text \<open>The loop over the indices of a NAK: \<open>i\<close> is the loop variable and
  the list holds the indices from \<open>i\<close> on.\<close>

fun write_nak_indices :: "bytes \<Rightarrow> nat \<Rightarrow> nat \<Rightarrow> u32 list \<Rightarrow> bytes option" where
  "write_nak_indices buf off 0 idx = Some buf"
| "write_nak_indices buf off (Suc n) [] = None"
| "write_nak_indices buf off (Suc n) (c # idx) = do {
     buf \<leftarrow> write_u32_be buf off c;
     write_nak_indices buf (off + 4) n idx }"

definition serialize_nak :: "rgtp_nak \<Rightarrow> bytes \<Rightarrow> (bytes \<times> nat) cres" where
  "serialize_nak p buf =
    (let FIXED = 24; LEN = FIXED + unat (nk_nak_count p) * 4 in
     if length buf < LEN \<or> LEN > 65535 then err RGTP_ERR_INVALID_ARG
     else do {
       buf \<leftarrow> write_header buf 6 (word_of_nat LEN);
       buf \<leftarrow> mem_copy buf 4 (nk_exposure_id p) 16;
       buf \<leftarrow> write_u16_be buf 20 (nk_nak_count p);
       buf \<leftarrow> store8 buf 22 0;
       buf \<leftarrow> store8 buf 23 0;
       buf \<leftarrow> write_nak_indices buf FIXED (unat (nk_nak_count p)) (nk_chunk_indices p);
       ok (buf, LEN) })"

definition serialize_rate_report :: "rgtp_rate_report \<Rightarrow> bytes \<Rightarrow> (bytes \<times> nat) cres" where
  "serialize_rate_report p buf =
    (let LEN = 44 in
     if length buf < LEN then err RGTP_ERR_INVALID_ARG
     else do {
       buf \<leftarrow> write_header buf 7 (word_of_nat LEN);
       buf \<leftarrow> mem_copy buf 4 (rr_exposure_id p) 16;
       buf \<leftarrow> write_u32_be buf 20 (rr_rtt_us p);
       buf \<leftarrow> write_u32_be buf 24 (rr_loss_rate_q16 p);
       buf \<leftarrow> write_u32_be buf 28 (rr_window_size p);
       buf \<leftarrow> write_u32_be buf 32 (rr_reserved p);
       buf \<leftarrow> write_u64_be buf 36 (rr_timestamp_us p);
       ok (buf, LEN) })"

definition serialize_keepalive :: "rgtp_keepalive \<Rightarrow> bytes \<Rightarrow> (bytes \<times> nat) cres" where
  "serialize_keepalive p buf =
    (let LEN = 32 in
     if length buf < LEN then err RGTP_ERR_INVALID_ARG
     else do {
       buf \<leftarrow> write_header buf 8 (word_of_nat LEN);
       buf \<leftarrow> mem_copy buf 4 (ka_exposure_id p) 16;
       buf \<leftarrow> write_u64_be buf 20 (ka_timestamp_us p);
       buf \<leftarrow> write_u32_be buf 28 (ka_reserved p);
       ok (buf, LEN) })"

definition rgtp_serialize_packet :: "rgtp_packet option \<Rightarrow> bytes option \<Rightarrow> bool \<Rightarrow> (bytes \<times> nat) cres" where
  "rgtp_serialize_packet pkt buf out_len =
    (case (pkt, buf) of
       (Some p, Some b) \<Rightarrow>
         if \<not> out_len then err RGTP_ERR_INVALID_ARG
         else (case p of
             PullRequest x \<Rightarrow> serialize_pull_request x b
           | Manifest x \<Rightarrow> serialize_manifest x b
           | ChunkData x \<Rightarrow> serialize_chunk_data x b
           | ChunkWithProof x \<Rightarrow> serialize_chunk_with_proof x b
           | FecParity x \<Rightarrow> serialize_fec_parity x b
           | Nak x \<Rightarrow> serialize_nak x b
           | RateReport x \<Rightarrow> serialize_rate_report x b
           | Keepalive x \<Rightarrow> serialize_keepalive x b
           | OtherPacket t \<Rightarrow> err RGTP_ERR_INVALID_ARG)
     | _ \<Rightarrow> err RGTP_ERR_INVALID_ARG)"

subsection \<open>Parser\<close>

definition parse_pull_request :: "bytes \<Rightarrow> rgtp_pull_request cres" where
  "parse_pull_request body =
    (if length body < 32 then err RGTP_ERR_TRUNCATED
     else do {
       eid \<leftarrow> mem_get body 0 16;
       ws \<leftarrow> read_u32_be (drop 16 body);
       loss \<leftarrow> read_u32_be (drop 20 body);
       fl \<leftarrow> read_u32_be (drop 24 body);
       vmin \<leftarrow> read_u16_be (drop 28 body);
       vmax \<leftarrow> read_u16_be (drop 30 body);
       ok \<lparr>pr_exposure_id = eid, pr_window_size = ws, pr_loss_rate_q16 = loss, pr_flags = fl,
           pr_version_min = vmin, pr_version_max = vmax\<rparr> })"

definition parse_manifest :: "bytes \<Rightarrow> rgtp_manifest cres" where
  "parse_manifest body =
    (if length body < 68 then err RGTP_ERR_TRUNCATED
     else do {
       eid \<leftarrow> mem_get body 0 16;
       ts \<leftarrow> read_u64_be (drop 16 body);
       cc \<leftarrow> read_u32_be (drop 24 body);
       cs \<leftarrow> read_u32_be (drop 28 body);
       root \<leftarrow> mem_get body 32 32;
       n \<leftarrow> byte_at body 64;
       k \<leftarrow> byte_at body 65;
       fl \<leftarrow> read_u16_be (drop 66 body);
       if cc = 0 \<or> cs = 0 then err RGTP_ERR_INVALID_ARG
       else ok \<lparr>mf_exposure_id = eid, mf_total_size = ts, mf_chunk_count = cc, mf_chunk_size = cs,
           mf_merkle_root = root, mf_fec_n = n, mf_fec_k = k, mf_flags = fl\<rparr> })"

definition parse_chunk_data :: "bytes \<Rightarrow> u32 \<Rightarrow> rgtp_chunk_data cres" where
  "parse_chunk_data body manifest_chunk_count =
    (if length body < 20 then err RGTP_ERR_TRUNCATED
     else do {
       eid \<leftarrow> mem_get body 0 16;
       idx \<leftarrow> read_u32_be (drop 16 body);
       if idx \<ge> manifest_chunk_count then err RGTP_ERR_CHUNK_INDEX_OOB
       else do {
         let len = (word_of_nat (length body - 20) :: u16);
         payload \<leftarrow> mem_get body 20 (unat len);
         ok \<lparr>cd_exposure_id = eid, cd_chunk_index = idx, cd_payload = Some payload, cd_payload_len = len\<rparr> } })"

definition parse_chunk_with_proof :: "bytes \<Rightarrow> u32 \<Rightarrow> rgtp_chunk_with_proof cres" where
  "parse_chunk_with_proof body manifest_chunk_count =
    (if length body < 21 then err RGTP_ERR_TRUNCATED
     else do {
       eid \<leftarrow> mem_get body 0 16;
       idx \<leftarrow> read_u32_be (drop 16 body);
       depth \<leftarrow> byte_at body 20;
       if idx \<ge> manifest_chunk_count then err RGTP_ERR_CHUNK_INDEX_OOB
       else do {
         let proof_bytes = unat depth * 32;
         if length body < 21 + proof_bytes then err RGTP_ERR_TRUNCATED
         else do {
           prf \<leftarrow> mem_get body 21 proof_bytes;
           let len = (word_of_nat (length body - 21 - proof_bytes) :: u16);
           payload \<leftarrow> mem_get body (21 + proof_bytes) (unat len);
           ok \<lparr>cp_exposure_id = eid, cp_chunk_index = idx, cp_proof_depth = depth, cp_proof = Some prf,
               cp_payload = Some payload, cp_payload_len = len\<rparr> } } })"

definition parse_fec_parity :: "bytes \<Rightarrow> rgtp_fec_parity cres" where
  "parse_fec_parity body =
    (if length body < 24 then err RGTP_ERR_TRUNCATED
     else do {
       eid \<leftarrow> mem_get body 0 16;
       blk \<leftarrow> read_u32_be (drop 16 body);
       pidx \<leftarrow> byte_at body 20;
       n \<leftarrow> byte_at body 21;
       k \<leftarrow> byte_at body 22;
       res \<leftarrow> byte_at body 23;
       let len = (word_of_nat (length body - 24) :: u16);
       payload \<leftarrow> mem_get body 24 (unat len);
       ok \<lparr>fp_exposure_id = eid, fp_block_index = blk, fp_parity_index = pidx, fp_fec_n = n, fp_fec_k = k,
           fp_reserved = res, fp_payload = Some payload, fp_payload_len = len\<rparr> })"

text \<open>The indices stay in the receive buffer; the array is what the
  \<^verbatim>\<open>const uint32_t*\<close> that the parser returns designates on the
  host.\<close>

definition parse_nak :: "bytes \<Rightarrow> rgtp_nak cres" where
  "parse_nak body =
    (if length body < 20 then err RGTP_ERR_TRUNCATED
     else do {
       eid \<leftarrow> mem_get body 0 16;
       cnt \<leftarrow> read_u16_be (drop 16 body);
       let indices_bytes = unat cnt * 4;
       if length body < 20 + indices_bytes then err RGTP_ERR_TRUNCATED
       else do {
         idx \<leftarrow> load_u32_array (drop 20 body) (unat cnt);
         ok \<lparr>nk_exposure_id = eid, nk_nak_count = cnt, nk_chunk_indices = idx\<rparr> } })"

definition parse_rate_report :: "bytes \<Rightarrow> rgtp_rate_report cres" where
  "parse_rate_report body =
    (if length body < 40 then err RGTP_ERR_TRUNCATED
     else do {
       eid \<leftarrow> mem_get body 0 16;
       rtt \<leftarrow> read_u32_be (drop 16 body);
       loss \<leftarrow> read_u32_be (drop 20 body);
       ws \<leftarrow> read_u32_be (drop 24 body);
       res \<leftarrow> read_u32_be (drop 28 body);
       ts \<leftarrow> read_u64_be (drop 32 body);
       ok \<lparr>rr_exposure_id = eid, rr_rtt_us = rtt, rr_loss_rate_q16 = loss, rr_window_size = ws,
           rr_reserved = res, rr_timestamp_us = ts\<rparr> })"

definition parse_keepalive :: "bytes \<Rightarrow> rgtp_keepalive cres" where
  "parse_keepalive body =
    (if length body < 28 then err RGTP_ERR_TRUNCATED
     else do {
       eid \<leftarrow> mem_get body 0 16;
       ts \<leftarrow> read_u64_be (drop 16 body);
       res \<leftarrow> read_u32_be (drop 24 body);
       ok \<lparr>ka_exposure_id = eid, ka_timestamp_us = ts, ka_reserved = res\<rparr> })"

text \<open>The two switches over the type byte: the second one, on a body.\<close>

definition parse_body :: "u8 \<Rightarrow> bytes \<Rightarrow> u32 \<Rightarrow> rgtp_packet cres" where
  "parse_body type_byte body manifest_chunk_count =
    (if type_byte = 1 then cbind (parse_pull_request body) (\<lambda>x. ok (PullRequest x))
     else if type_byte = 2 then cbind (parse_manifest body) (\<lambda>x. ok (Manifest x))
     else if type_byte = 3 then cbind (parse_chunk_data body manifest_chunk_count) (\<lambda>x. ok (ChunkData x))
     else if type_byte = 4 then
       cbind (parse_chunk_with_proof body manifest_chunk_count) (\<lambda>x. ok (ChunkWithProof x))
     else if type_byte = 5 then cbind (parse_fec_parity body) (\<lambda>x. ok (FecParity x))
     else if type_byte = 6 then cbind (parse_nak body) (\<lambda>x. ok (Nak x))
     else if type_byte = 7 then cbind (parse_rate_report body) (\<lambda>x. ok (RateReport x))
     else if type_byte = 8 then cbind (parse_keepalive body) (\<lambda>x. ok (Keepalive x))
     else err RGTP_ERR_INVALID_ARG)"

definition rgtp_parse_packet :: "bytes option \<Rightarrow> u32 \<Rightarrow> bool \<Rightarrow> rgtp_packet cres" where
  "rgtp_parse_packet buf_ptr manifest_chunk_count out =
    (case buf_ptr of
       None \<Rightarrow> err RGTP_ERR_INVALID_ARG
     | Some buf \<Rightarrow>
         if \<not> out then err RGTP_ERR_INVALID_ARG
         else if length buf < RGTP_HEADER_SIZE then err RGTP_ERR_TRUNCATED
         else do {
           version \<leftarrow> byte_at buf 0;
           type_byte \<leftarrow> byte_at buf 1;
           pkt_length \<leftarrow> read_u16_be (drop 2 buf);
           if version > RGTP_PROTOCOL_VERSION then err RGTP_ERR_NOT_SUPPORTED
           else if unat pkt_length > length buf then err RGTP_ERR_TRUNCATED
           else if unat pkt_length < RGTP_HEADER_SIZE then err RGTP_ERR_INVALID_ARG
           else if type_byte \<notin> set [1, 2, 3, 4, 5, 6, 7, 8] then err RGTP_ERR_INVALID_ARG
           else do {
             body \<leftarrow> mem_get buf RGTP_HEADER_SIZE (unat pkt_length - RGTP_HEADER_SIZE);
             parse_body type_byte body manifest_chunk_count } })"

subsection \<open>The wire format as a specification\<close>

text \<open>The byte string that the protocol assigns to a packet.\<close>

definition header_bytes :: "u8 \<Rightarrow> u16 \<Rightarrow> bytes" where
  "header_bytes ty len = [RGTP_PROTOCOL_VERSION, ty] @ u16_be len"

fun packet_body :: "rgtp_packet \<Rightarrow> bytes" where
  "packet_body (PullRequest p) = pr_exposure_id p @ u32_be (pr_window_size p) @ u32_be (pr_loss_rate_q16 p)
     @ u32_be (pr_flags p) @ u16_be (pr_version_min p) @ u16_be (pr_version_max p)"
| "packet_body (Manifest p) = mf_exposure_id p @ u64_be (mf_total_size p) @ u32_be (mf_chunk_count p)
     @ u32_be (mf_chunk_size p) @ mf_merkle_root p @ [mf_fec_n p] @ [mf_fec_k p] @ u16_be (mf_flags p)"
| "packet_body (ChunkData p) = cd_exposure_id p @ u32_be (cd_chunk_index p) @ the (cd_payload p)"
| "packet_body (ChunkWithProof p) = cp_exposure_id p @ u32_be (cp_chunk_index p) @ [cp_proof_depth p]
     @ the (cp_proof p) @ the (cp_payload p)"
| "packet_body (FecParity p) = fp_exposure_id p @ u32_be (fp_block_index p) @ [fp_parity_index p]
     @ [fp_fec_n p] @ [fp_fec_k p] @ [fp_reserved p] @ the (fp_payload p)"
| "packet_body (Nak p) = nk_exposure_id p @ u16_be (nk_nak_count p) @ [0] @ [0]
     @ concat (map u32_be (nk_chunk_indices p))"
| "packet_body (RateReport p) = rr_exposure_id p @ u32_be (rr_rtt_us p) @ u32_be (rr_loss_rate_q16 p)
     @ u32_be (rr_window_size p) @ u32_be (rr_reserved p) @ u64_be (rr_timestamp_us p)"
| "packet_body (Keepalive p) = ka_exposure_id p @ u64_be (ka_timestamp_us p) @ u32_be (ka_reserved p)"
| "packet_body (OtherPacket t) = []"

definition packet_bytes :: "rgtp_packet \<Rightarrow> bytes" where
  "packet_bytes p = header_bytes (rgtp_pkt_type p) (word_of_nat (4 + length (packet_body p))) @ packet_body p"

text \<open>A packet structure whose arrays have the lengths that the C types and the
  length fields give them.\<close>

fun wf_packet :: "rgtp_packet \<Rightarrow> bool" where
  "wf_packet (PullRequest p) = (length (pr_exposure_id p) = 16)"
| "wf_packet (Manifest p) = (length (mf_exposure_id p) = 16 \<and> length (mf_merkle_root p) = 32)"
| "wf_packet (ChunkData p) = (length (cd_exposure_id p) = 16 \<and>
     (case cd_payload p of None \<Rightarrow> False | Some b \<Rightarrow> length b = unat (cd_payload_len p)))"
| "wf_packet (ChunkWithProof p) = (length (cp_exposure_id p) = 16 \<and>
     (case cp_proof p of None \<Rightarrow> False | Some b \<Rightarrow> length b = unat (cp_proof_depth p) * 32) \<and>
     (case cp_payload p of None \<Rightarrow> False | Some b \<Rightarrow> length b = unat (cp_payload_len p)))"
| "wf_packet (FecParity p) = (length (fp_exposure_id p) = 16 \<and>
     (case fp_payload p of None \<Rightarrow> False | Some b \<Rightarrow> length b = unat (fp_payload_len p)))"
| "wf_packet (Nak p) = (length (nk_exposure_id p) = 16 \<and> length (nk_chunk_indices p) = unat (nk_nak_count p))"
| "wf_packet (RateReport p) = (length (rr_exposure_id p) = 16)"
| "wf_packet (Keepalive p) = (length (ka_exposure_id p) = 16)"
| "wf_packet (OtherPacket t) = False"

text \<open>What a parser accepts of a packet: the index of a chunk lies below the chunk
  count of the manifest, and a manifest describes at least one non-empty chunk.\<close>

fun acceptable :: "u32 \<Rightarrow> rgtp_packet \<Rightarrow> bool" where
  "acceptable mcc (Manifest p) = (mf_chunk_count p \<noteq> 0 \<and> mf_chunk_size p \<noteq> 0)"
| "acceptable mcc (ChunkData p) = (cd_chunk_index p < mcc)"
| "acceptable mcc (ChunkWithProof p) = (cp_chunk_index p < mcc)"
| "acceptable mcc _ = True"

text \<open>The packet as the receiving host sees it: the indices of a NAK come back with
  their bytes reversed.\<close>

definition bswap_u32 :: "u32 \<Rightarrow> u32" where
  "bswap_u32 v = the (load_u32_host (u32_be v))"

fun host_view :: "rgtp_packet \<Rightarrow> rgtp_packet" where
  "host_view (Nak p) = Nak (p\<lparr>nk_chunk_indices := map bswap_u32 (nk_chunk_indices p)\<rparr>)"
| "host_view p = p"

subsection \<open>Fixed-width codecs\<close>

text \<open>The contract of a fixed-width big-endian codec: the writer produces
  \<open>width\<close> bytes and the reader, applied to at least that many bytes, returns
  a value, the written one if the bytes are the writer's.\<close>

locale fixed_codec =
  fixes enc :: "'a \<Rightarrow> bytes" and dec :: "bytes \<Rightarrow> 'a option" and width :: nat
  assumes enc_length: "length (enc v) = width"
    and dec_enc: "dec (enc v @ rest) = Some v"
    and dec_defined: "width \<le> length p \<Longrightarrow> \<exists>v. dec p = Some v"
begin

lemma dec_enc_exact: "dec (enc v) = Some v"
  using dec_enc [of v "[]"] by simp

lemma enc_inj: "enc v @ r = enc w @ s \<Longrightarrow> v = w"
  by (metis dec_enc option.inject)

lemma dec_at: "length a = k \<Longrightarrow> dec (drop k (a @ enc v @ rest)) = Some v"
  by (simp add: dec_enc)

end

interpretation c16: fixed_codec u16_be read_u16_be 2
proof
  show "read_u16_be (u16_be v @ rest) = Some v" for v rest
    apply (simp add: u16_be_def mask_byte)
    apply (rule bit_word_eqI)
    apply (simp add: bit_simps byte_lane byte_lane_low byte_lane_join)
    apply (auto simp: not_le)
    done
  show "\<exists>v. read_u16_be p = Some v" if "2 \<le> length p" for p
    using that by (auto simp: numeral_eq_Suc Suc_le_length_iff)
qed (simp add: u16_be_def)

interpretation c32: fixed_codec u32_be read_u32_be 4
proof
  show "read_u32_be (u32_be v @ rest) = Some v" for v rest
    apply (simp add: u32_be_def mask_byte)
    apply (rule bit_word_eqI)
    apply (simp add: bit_simps byte_lane byte_lane_low byte_lane_join)
    apply (auto simp: not_le)
    done
  show "\<exists>v. read_u32_be p = Some v" if "4 \<le> length p" for p
    using that by (auto simp: numeral_eq_Suc Suc_le_length_iff)
qed (simp add: u32_be_def)

interpretation c64: fixed_codec u64_be read_u64_be 8
proof
  show "read_u64_be (u64_be v @ rest) = Some v" for v rest
    apply (simp add: u64_be_def mask_byte)
    apply (rule bit_word_eqI)
    apply (simp add: bit_simps byte_lane byte_lane_low byte_lane_join)
    apply (auto simp: not_le)
    done
  show "\<exists>v. read_u64_be p = Some v" if "8 \<le> length p" for p
    using that by (auto simp: numeral_eq_Suc Suc_le_length_iff)
qed (simp add: u64_be_def)

lemma load_u32_host_defined: "4 \<le> length p \<Longrightarrow> \<exists>v. load_u32_host p = Some v"
  by (auto simp: numeral_eq_Suc Suc_le_length_iff)

lemma u32_be_join:
  "u32_be (push_bit 24 (ucast a) OR push_bit 16 (ucast b) OR push_bit 8 (ucast c) OR ucast d) = [a, b, c, d]"
  for a b c d :: u8
proof -
  have high: "\<not> bit x i" if "8 \<le> i" for x :: u8 and i
    using that bit_imp_le_length [of x i] by auto
  show ?thesis
    unfolding u32_be_def list.inject mask_byte
    by (intro conjI bit_word_eqI) (auto simp: bit_simps high)
qed

lemma u32_be_bswap: "u32_be (bswap_u32 v) = rev (u32_be v)"
proof -
  obtain a b c d where v: "u32_be v = [a, b, c, d]" by (simp add: u32_be_def)
  have "bswap_u32 v = push_bit 24 (ucast d) OR push_bit 16 (ucast c) OR push_bit 8 (ucast b) OR ucast a"
    by (simp add: bswap_u32_def v)
  then show ?thesis using u32_be_join [of d c b a] by (simp add: v)
qed

lemma load_u32_host_be: "load_u32_host (u32_be v @ rest) = Some (bswap_u32 v)"
  by (simp add: u32_be_def bswap_u32_def)

subsection \<open>The serializer writes the specified bytes\<close>

lemma header_bytes_length [simp, len_simps]: "length (header_bytes ty len) = 4"
  by (simp add: header_bytes_def c16.enc_length)

lemmas codec_lengths [simp, len_simps] = c16.enc_length c32.enc_length c64.enc_length

lemmas codec_reads [simp, codec_simps] =
  c16.dec_enc c16.dec_enc_exact c32.dec_enc c32.dec_enc_exact c64.dec_enc c64.dec_enc_exact

lemma write_header_eq:
  "4 \<le> length buf \<Longrightarrow> write_header buf ty len = Some (header_bytes ty len @ drop 4 buf)"
  by (cases buf; cases "tl buf"; cases "tl (tl buf)"; cases "tl (tl (tl buf))")
    (auto simp: write_header_def store8_def write_u16_be_def mem_put_def mem_copy_def header_bytes_def
      u16_be_def)

lemmas write_simps = write_u16_be_def write_u32_be_def write_u64_be_def store8_def

lemma copy_payload_app:
  "off = length pre \<Longrightarrow> length b = n \<Longrightarrow> n \<le> length rest \<Longrightarrow>
    copy_payload (pre @ rest) off (Some b) n = Some ((pre @ b) @ drop n rest)"
  by (auto simp: copy_payload_def mem_copy_app)

lemma concat_u32_be_length [len_simps]: "length (concat (map u32_be xs)) = 4 * length xs"
  by (induction xs) simp_all

lemma write_nak_indices_app:
  "off = length pre \<Longrightarrow> length idx = n \<Longrightarrow> 4 * n \<le> length rest \<Longrightarrow>
    write_nak_indices (pre @ rest) off n idx
      = Some ((pre @ concat (map u32_be idx)) @ drop (4 * n) rest)"
proof (induction idx arbitrary: pre off n rest)
  case Nil
  then show ?case by simp
next
  case (Cons c idx)
  have "write_u32_be (pre @ rest) off c = Some ((pre @ u32_be c) @ drop 4 rest)"
    using Cons.prems by (simp add: write_simps mem_put_app del: append_assoc)
  moreover have "write_nak_indices ((pre @ u32_be c) @ drop 4 rest) (off + 4) (length idx) idx =
      Some (((pre @ u32_be c) @ concat (map u32_be idx)) @ drop (4 * length idx) (drop 4 rest))"
    using Cons.prems by (intro Cons.IH) simp_all
  ultimately show ?case
    using Cons.prems(2) by (auto simp: add.commute)
qed

lemma wf_packet_lengths:
  assumes "wf_packet p"
  shows "length (packet_body p) = (case p of
      PullRequest _ \<Rightarrow> 32 | Manifest _ \<Rightarrow> 68
    | ChunkData x \<Rightarrow> 20 + unat (cd_payload_len x)
    | ChunkWithProof x \<Rightarrow> 21 + unat (cp_proof_depth x) * 32 + unat (cp_payload_len x)
    | FecParity x \<Rightarrow> 24 + unat (fp_payload_len x)
    | Nak x \<Rightarrow> 20 + unat (nk_nak_count x) * 4
    | RateReport _ \<Rightarrow> 40 | Keepalive _ \<Rightarrow> 28 | OtherPacket _ \<Rightarrow> 0)"
  using assms by (cases p) (auto simp: concat_u32_be_length split: option.splits)

lemmas serialize_defs = serialize_pull_request_def serialize_manifest_def serialize_chunk_data_def
  serialize_chunk_with_proof_def serialize_fec_parity_def serialize_nak_def serialize_rate_report_def
  serialize_keepalive_def

lemmas serialize_simps = rgtp_serialize_packet_def packet_bytes_def write_header_eq write_simps mem_simps

lemma rgtp_serialize_packet_exact:
  assumes "wf_packet p" and "length (packet_bytes p) \<le> length buf" and "length (packet_bytes p) \<le> 65535"
  shows "rgtp_serialize_packet (Some p) (Some buf) True
    = ok (packet_bytes p @ drop (length (packet_bytes p)) buf, length (packet_bytes p))"
proof (cases p)
  case (PullRequest x)
  then show ?thesis using assms wf_packet_lengths [OF assms(1)]
    by (simp add: serialize_pull_request_def serialize_simps del: append_assoc)
next
  case (Manifest x)
  then show ?thesis using assms wf_packet_lengths [OF assms(1)]
    by (simp add: serialize_manifest_def serialize_simps del: append_assoc)
next
  case (ChunkData x)
  then show ?thesis using assms wf_packet_lengths [OF assms(1)]
    by (simp add: serialize_chunk_data_def serialize_simps copy_payload_app split: option.splits del: append_assoc)
      (simp add: ac_simps)
next
  case (ChunkWithProof x)
  then obtain pr b where x: "cp_proof x = Some pr" "cp_payload x = Some b" "length (cp_exposure_id x) = 16"
      "unat (cp_payload_len x) = length b" "unat (cp_proof_depth x) * 32 = length pr"
    using assms(1) by (auto split: option.splits)
  have "25 + length pr + length b \<le> length buf" "25 + length pr + length b \<le> 65535"
    using assms(2,3) ChunkWithProof x by (simp_all add: packet_bytes_def)
  then show ?thesis unfolding ChunkWithProof
    by (simp add: serialize_chunk_with_proof_def serialize_simps x Let_def copy_payload_app del: append_assoc)
      (simp add: ac_simps)
next
  case (FecParity x)
  then show ?thesis using assms wf_packet_lengths [OF assms(1)]
    by (simp add: serialize_fec_parity_def serialize_simps copy_payload_app split: option.splits del: append_assoc)
      (simp add: ac_simps)
next
  case (Nak x)
  then show ?thesis using assms wf_packet_lengths [OF assms(1)]
    by (simp add: serialize_nak_def serialize_simps write_nak_indices_app del: append_assoc)
      (simp add: ac_simps)
next
  case (RateReport x)
  then show ?thesis using assms wf_packet_lengths [OF assms(1)]
    by (simp add: serialize_rate_report_def serialize_simps del: append_assoc)
next
  case (Keepalive x)
  then show ?thesis using assms wf_packet_lengths [OF assms(1)]
    by (simp add: serialize_keepalive_def serialize_simps del: append_assoc)
next
  case (OtherPacket t)
  then show ?thesis using assms by simp
qed

subsection \<open>Parsing what was serialized\<close>

lemma mem_get_prefix [codec_simps]: "length a = n \<Longrightarrow> mem_get (a @ r) 0 n = Some a"
  by (simp add: mem_get_def)

lemma mem_get_app [codec_simps]:
  "length a \<le> off \<Longrightarrow> mem_get (a @ r) off n = mem_get r (off - length a) n"
  by (auto simp: mem_get_def)

lemma byte_at_skip [codec_simps]: "length a \<le> i \<Longrightarrow> byte_at (a @ r) i = byte_at r (i - length a)"
  by (auto simp: byte_at_def nth_append)

lemma byte_at_Cons [codec_simps]:
  "byte_at (x # r) (Suc i) = byte_at r i"
  "byte_at (x # r) (numeral v) = byte_at r (pred_numeral v)"
  by (simp_all add: byte_at_def numeral_eq_Suc)

lemma mem_get_Cons [codec_simps]:
  "mem_get (x # r) (Suc off) n = mem_get r off n"
  "mem_get (x # r) (numeral v) n = mem_get r (pred_numeral v) n"
  by (simp_all add: mem_get_def numeral_eq_Suc)

lemma mem_get_all [codec_simps]: "length a = n \<Longrightarrow> mem_get a 0 n = Some a"
  by (simp add: mem_get_def)

lemma load_u32_array_be:
  "load_u32_array (concat (map u32_be xs) @ r) (length xs) = Some (map bswap_u32 xs)"
  by (induction xs) (simp_all add: load_u32_host_be)

lemma load_u32_array_be_exact:
  "length xs = n \<Longrightarrow> load_u32_array (concat (map u32_be xs)) n = Some (map bswap_u32 xs)"
  using load_u32_array_be [of xs "[]"] by simp

lemma parse_body_packet_body:
  assumes "wf_packet p" and "acceptable mcc p" and "length (packet_body p) \<le> 65531"
  shows "parse_body (rgtp_pkt_type p) (packet_body p) mcc = ok (host_view p)"
proof (cases p)
  case (PullRequest x)
  then show ?thesis using assms
    by (simp add: parse_body_def parse_pull_request_def codec_simps)
next
  case (Manifest x)
  then show ?thesis using assms
    by (simp add: parse_body_def parse_manifest_def codec_simps)
next
  case (ChunkData x)
  then obtain eid idx b l where x: "p = ChunkData \<lparr>cd_exposure_id = eid, cd_chunk_index = idx,
      cd_payload = Some b, cd_payload_len = l\<rparr>" "length eid = 16" "length b = unat l"
    using assms(1) by (cases x) (auto split: option.splits)
  then show ?thesis using assms unat_u16_bound [of l]
    by (simp add: parse_body_def parse_chunk_data_def codec_simps)
next
  case (ChunkWithProof x)
  then obtain eid idx d pr b l where x: "p = ChunkWithProof \<lparr>cp_exposure_id = eid, cp_chunk_index = idx,
      cp_proof_depth = d, cp_proof = Some pr, cp_payload = Some b, cp_payload_len = l\<rparr>"
      "length eid = 16" "length b = unat l" "length pr = unat d * 32"
    using assms(1) by (cases x) (auto split: option.splits)
  then show ?thesis using assms unat_u16_bound [of l]
    by (simp add: parse_body_def parse_chunk_with_proof_def codec_simps)
next
  case (FecParity x)
  then obtain eid blk pi n k r b l where x: "p = FecParity \<lparr>fp_exposure_id = eid, fp_block_index = blk,
      fp_parity_index = pi, fp_fec_n = n, fp_fec_k = k, fp_reserved = r, fp_payload = Some b,
      fp_payload_len = l\<rparr>" "length eid = 16" "length b = unat l"
    using assms(1) by (cases x) (auto split: option.splits)
  then show ?thesis using assms unat_u16_bound [of l]
    by (simp add: parse_body_def parse_fec_parity_def codec_simps)
next
  case (Nak x)
  then show ?thesis using assms
    by (simp add: parse_body_def parse_nak_def codec_simps len_simps load_u32_array_be_exact)
next
  case (RateReport x)
  then show ?thesis using assms
    by (simp add: parse_body_def parse_rate_report_def codec_simps)
next
  case (Keepalive x)
  then show ?thesis using assms
    by (simp add: parse_body_def parse_keepalive_def codec_simps)
next
  case (OtherPacket t)
  then show ?thesis using assms by simp
qed

lemma wf_packet_type: "wf_packet p \<Longrightarrow> rgtp_pkt_type p \<in> set [1, 2, 3, 4, 5, 6, 7, 8]"
  by (cases p) simp_all

lemma parse_packet_bytes:
  assumes "wf_packet p" and "acceptable mcc p" and "length (packet_bytes p) \<le> 65535"
  shows "rgtp_parse_packet (Some (packet_bytes p @ rest)) mcc True = ok (host_view p)"
proof -
  define n where "n = 4 + length (packet_body p)"
  have n: "n < 65536" "unat (word_of_nat n :: u16) = n"
    using assms(3) by (simp_all add: n_def packet_bytes_def word_of_nat_unat_16 del: of_nat_add)
  have hdr: "header_bytes ty (word_of_nat n) @ r = 1 # ty # u16_be (word_of_nat n) @ r" for ty r
    by (simp add: header_bytes_def RGTP_PROTOCOL_VERSION_def)
  have body: "parse_body (rgtp_pkt_type p) (packet_body p) mcc = ok (host_view p)"
    using assms by (intro parse_body_packet_body) (simp_all add: packet_bytes_def)
  have ty: "rgtp_pkt_type p \<in> set [1, 2, 3, 4, 5, 6, 7, 8]"
    using assms(1) by (rule wf_packet_type)
  define whole where "whole = packet_bytes p @ rest"
  have whole: "whole = 1 # rgtp_pkt_type p # u16_be (word_of_nat n) @ packet_body p @ rest"
    unfolding whole_def packet_bytes_def n_def [symmetric] by (simp add: hdr)
  have parts: "byte_at whole 0 = Some 1" "byte_at whole 1 = Some (rgtp_pkt_type p)"
    "read_u16_be (drop 2 whole) = Some (word_of_nat n)" "mem_get whole 4 (n - 4) = Some (packet_body p)"
    "n \<le> length whole" "4 \<le> n" "4 \<le> length whole"
    by (simp_all add: whole byte_at_def mem_get_def numeral_eq_Suc n_def del: of_nat_add)
  show ?thesis
    unfolding whole_def [symmetric] rgtp_parse_packet_def RGTP_HEADER_SIZE_def RGTP_PROTOCOL_VERSION_def
    using ty n parts by (simp add: body)
qed

subsection \<open>What the parser accepts\<close>

lemma load_u32_array_defined:
  "4 * n \<le> length p \<Longrightarrow> \<exists>v. load_u32_array p n = Some v \<and> length v = n"
proof (induction n arbitrary: p)
  case (Suc n)
  obtain v where "load_u32_host p = Some v"
    using load_u32_host_defined [of p] Suc.prems by auto
  moreover obtain vs where "load_u32_array (drop 4 p) n = Some vs" "length vs = n"
    using Suc.IH [of "drop 4 p"] Suc.prems by fastforce
  ultimately show ?case by simp
qed simp

lemma reads_defined:
  "k + 2 \<le> length p \<Longrightarrow> \<exists>v. read_u16_be (drop k p) = Some v"
  "k + 4 \<le> length p \<Longrightarrow> \<exists>v. read_u32_be (drop k p) = Some v"
  "k + 8 \<le> length p \<Longrightarrow> \<exists>v. read_u64_be (drop k p) = Some v"
  by (rule c16.dec_defined c32.dec_defined c64.dec_defined; simp)+

lemma of_nat_16_le: "unat (word_of_nat n :: u16) \<le> n"
  by (simp add: unat_of_nat)

definition sound_result :: "u32 \<Rightarrow> rgtp_packet cres \<Rightarrow> bool" where
  "sound_result mcc r \<longleftrightarrow> (case r of None \<Rightarrow> False | Some (Inl e) \<Rightarrow> True
     | Some (Inr p) \<Rightarrow> wf_packet p \<and> acceptable mcc p)"

lemma parse_pull_request_sound:
  "sound_result mcc (cbind (parse_pull_request body) (\<lambda>x. ok (PullRequest x)))"
proof (cases "length body < 32")
  case False
  then show ?thesis
    using reads_defined(2) [of 16 body] reads_defined(2) [of 20 body] reads_defined(2) [of 24 body]
      reads_defined(1) [of 28 body] reads_defined(1) [of 30 body]
    by (auto simp: parse_pull_request_def sound_result_def mem_get_defined)
qed (simp add: parse_pull_request_def sound_result_def)

lemma parse_manifest_sound:
  "sound_result mcc (cbind (parse_manifest body) (\<lambda>x. ok (Manifest x)))"
proof (cases "length body < 68")
  case False
  then show ?thesis
    using reads_defined(3) [of 16 body] reads_defined(2) [of 24 body] reads_defined(2) [of 28 body]
      reads_defined(1) [of 66 body]
    by (auto simp: parse_manifest_def sound_result_def mem_get_defined byte_at_defined)
qed (simp add: parse_manifest_def sound_result_def)

lemma parse_chunk_data_sound:
  "sound_result mcc (cbind (parse_chunk_data body mcc) (\<lambda>x. ok (ChunkData x)))"
proof (cases "length body < 20")
  case False
  then show ?thesis
    using reads_defined(2) [of 16 body] of_nat_16_le [of "length body - 20"]
    by (auto simp: parse_chunk_data_def sound_result_def mem_get_defined not_le Let_def min_absorb2)
qed (simp add: parse_chunk_data_def sound_result_def)

lemma parse_chunk_with_proof_sound:
  "sound_result mcc (cbind (parse_chunk_with_proof body mcc) (\<lambda>x. ok (ChunkWithProof x)))"
proof (cases "length body < 21")
  case False
  then show ?thesis
    using reads_defined(2) [of 16 body] of_nat_16_le [of "length body - 21 - unat (body ! 20) * 32"]
    by (auto simp: parse_chunk_with_proof_def sound_result_def mem_get_defined byte_at_defined not_le
        Let_def min_absorb2)
qed (simp add: parse_chunk_with_proof_def sound_result_def)

lemma parse_fec_parity_sound:
  "sound_result mcc (cbind (parse_fec_parity body) (\<lambda>x. ok (FecParity x)))"
proof (cases "length body < 24")
  case False
  then show ?thesis
    using reads_defined(2) [of 16 body] of_nat_16_le [of "length body - 24"]
    by (auto simp: parse_fec_parity_def sound_result_def mem_get_defined byte_at_defined Let_def min_absorb2)
qed (simp add: parse_fec_parity_def sound_result_def)

lemma parse_nak_sound:
  "sound_result mcc (cbind (parse_nak body) (\<lambda>x. ok (Nak x)))"
proof (cases "length body < 20")
  case False
  then obtain cnt where cnt: "read_u16_be (drop 16 body) = Some cnt"
    using reads_defined(1) [of 16 body] by auto
  show ?thesis
    using False cnt load_u32_array_defined [of "unat cnt" "drop 20 body"]
    by (cases "length body < 20 + unat cnt * 4")
      (auto simp: parse_nak_def sound_result_def mem_get_defined Let_def le_diff_conv2)
qed (simp add: parse_nak_def sound_result_def)

lemma parse_rate_report_sound:
  "sound_result mcc (cbind (parse_rate_report body) (\<lambda>x. ok (RateReport x)))"
proof (cases "length body < 40")
  case False
  then show ?thesis
    using reads_defined(2) [of 16 body] reads_defined(2) [of 20 body] reads_defined(2) [of 24 body]
      reads_defined(2) [of 28 body] reads_defined(3) [of 32 body]
    by (auto simp: parse_rate_report_def sound_result_def mem_get_defined)
qed (simp add: parse_rate_report_def sound_result_def)

lemma parse_keepalive_sound:
  "sound_result mcc (cbind (parse_keepalive body) (\<lambda>x. ok (Keepalive x)))"
proof (cases "length body < 28")
  case False
  then show ?thesis
    using reads_defined(3) [of 16 body] reads_defined(2) [of 24 body]
    by (auto simp: parse_keepalive_def sound_result_def mem_get_defined)
qed (simp add: parse_keepalive_def sound_result_def)

lemma parse_body_sound: "sound_result mcc (parse_body ty body mcc)"
  by (simp add: parse_body_def parse_pull_request_sound parse_manifest_sound parse_chunk_data_sound
      parse_chunk_with_proof_sound parse_fec_parity_sound parse_nak_sound parse_rate_report_sound
      parse_keepalive_sound) (simp add: sound_result_def)

lemma sound_err [simp]: "sound_result mcc (err e)"
  by (simp add: sound_result_def)

text \<open>The parser past the \<^verbatim>\<open>NULL\<close> and header-length checks.\<close>

lemma rgtp_parse_packet_unfold:
  assumes "4 \<le> length b" "read_u16_be (drop 2 b) = Some l"
  shows "rgtp_parse_packet (Some b) mcc True =
      (if b ! 0 > 1 then err RGTP_ERR_NOT_SUPPORTED
       else if unat l > length b then err RGTP_ERR_TRUNCATED
       else if unat l < 4 then err RGTP_ERR_INVALID_ARG
       else parse_body (b ! 1) (take (unat l - 4) (drop 4 b)) mcc)"
proof -
  have b: "byte_at b 0 = Some (b ! 0)" "byte_at b 1 = Some (b ! 1)" 
    using assms by (auto simp: byte_at_def)
  have g: "unat l \<le> length b \<Longrightarrow> \<not> unat l < 4 \<Longrightarrow> mem_get b 4 (unat l - 4) = Some (take (unat l - 4) (drop 4 b))"
    by (simp add: mem_get_def)
  have ty: "b ! 1 \<notin> set [1, 2, 3, 4, 5, 6, 7, 8] \<Longrightarrow> parse_body (b ! 1) x mcc = err RGTP_ERR_INVALID_ARG" for x mcc
    by (simp add: parse_body_def)
  show ?thesis
    unfolding rgtp_parse_packet_def RGTP_HEADER_SIZE_def RGTP_PROTOCOL_VERSION_def option.case b assms(2)
     Option.bind.simps using assms(1)
    by (simp add: g ty del: set_simps One_nat_def)
qed

lemma rgtp_parse_packet_early:
  "rgtp_parse_packet None mcc out = err RGTP_ERR_INVALID_ARG"
  "rgtp_parse_packet buf mcc False = err RGTP_ERR_INVALID_ARG"
  "length b < 4 \<Longrightarrow> rgtp_parse_packet (Some b) mcc True = err RGTP_ERR_TRUNCATED"
  by (simp_all add: rgtp_parse_packet_def RGTP_HEADER_SIZE_def split: option.splits)

lemma rgtp_parse_packet_sound: "sound_result mcc (rgtp_parse_packet buf mcc out)"
proof (cases "\<exists>b. buf = Some b \<and> out \<and> 4 \<le> length b")
  case True
  then obtain b l where "buf = Some b" "out = True" "4 \<le> length b" "read_u16_be (drop 2 b) = Some l"
    using reads_defined(1) [of 2] by fastforce
  then show ?thesis
    by (simp add: rgtp_parse_packet_unfold parse_body_sound)
next
  case False
  then show ?thesis
    by (cases buf; cases out) (auto simp: rgtp_parse_packet_early not_le)
qed

text \<open>Bytes after the declared length do not matter.\<close>

lemma read_u16_be_append: "read_u16_be p = Some v \<Longrightarrow> read_u16_be (p @ q) = Some v"
  by (cases p rule: read_u16_be.cases) auto

lemma parse_append:
  assumes "rgtp_parse_packet (Some buf) mcc out \<noteq> err RGTP_ERR_TRUNCATED"
  shows "rgtp_parse_packet (Some (buf @ extra)) mcc out = rgtp_parse_packet (Some buf) mcc out"
proof (cases "out \<and> 4 \<le> length buf")
  case True
  then have out: "out = True" and len: "4 \<le> length buf" by auto
  obtain l where l: "read_u16_be (drop 2 buf) = Some l"
    using reads_defined(1) [of 2 buf] len by auto
  then have l': "read_u16_be (drop 2 (buf @ extra)) = Some l" "4 \<le> length (buf @ extra)"
    using len by (simp_all add: read_u16_be_append)
  have nths: "(buf @ extra) ! 0 = buf ! 0" "(buf @ extra) ! 1 = buf ! 1"
    using len by (auto simp: nth_append)
  show ?thesis
    using assms len
    unfolding out rgtp_parse_packet_unfold [OF len l] rgtp_parse_packet_unfold [OF l'(2,1)] nths
    by (auto split: if_splits)
next
  case False
  then show ?thesis using assms
    by (cases out) (auto simp: rgtp_parse_packet_early not_le)
qed

lemma rgtp_serialize_packet_too_small:
  assumes "wf_packet p" and "length buf < length (packet_bytes p) \<or> 65535 < length (packet_bytes p)"
  shows "rgtp_serialize_packet (Some p) (Some buf) True = err RGTP_ERR_INVALID_ARG"
  using assms wf_packet_lengths [OF assms(1)]
  by (cases p) (auto simp: rgtp_serialize_packet_def serialize_defs packet_bytes_def Let_def)

subsection \<open>Properties\<close>

text \<open>C9: for every well-formed packet of the eight types the serializer writes
  exactly the byte string that the protocol assigns to the packet, leaves the rest
  of the buffer as it was and reports the number of bytes; and it returns
  \<^verbatim>\<open>RGTP_ERR_INVALID_ARG\<close> exactly when the packet fits neither the
  buffer nor the 16-bit length field.  It never stores outside the buffer.\<close>

theorem serialize_packet_correct:
  assumes "wf_packet p"
  shows "rgtp_serialize_packet (Some p) (Some buf) True =
    (if length (packet_bytes p) \<le> length buf \<and> length (packet_bytes p) \<le> 65535
     then ok (packet_bytes p @ drop (length (packet_bytes p)) buf, length (packet_bytes p))
     else err RGTP_ERR_INVALID_ARG)"
  using assms rgtp_serialize_packet_exact rgtp_serialize_packet_too_small by (auto simp: not_le)

theorem serialize_packet_correct_witness:
  "let p = Keepalive \<lparr>ka_exposure_id = replicate 16 7, ka_timestamp_us = 258, ka_reserved = 0\<rparr> in
    wf_packet p \<and>
    rgtp_serialize_packet (Some p) (Some (replicate 34 9)) True =
      ok ([1, 8, 0, 32] @ replicate 16 7 @ [0, 0, 0, 0, 0, 0, 1, 2, 0, 0, 0, 0] @ replicate 2 9, 32)"
  unfolding Let_def
  by (subst serialize_packet_correct)
    (simp_all add: packet_bytes_def header_bytes_def u16_be_def u32_be_def u64_be_def
      RGTP_PROTOCOL_VERSION_def)

text \<open>C7: parsing the bytes that the serializer produced, whatever follows them in
  the datagram, returns the packet with every field as it was, for every type of packet but
  the NAK.  The parser does not convert the index array of a NAK: on the little-endian host
  every index comes back with its four bytes in reverse order, contrary to the comment in
  \<^verbatim>\<open>rgtp_packet_types.h\<close> that parsed structures are in host order,
  while the other fields of the NAK are as they were.\<close>

theorem wire_roundtrip:
  assumes "wf_packet p" and "acceptable mcc p"
    and "rgtp_serialize_packet (Some p) (Some buf) True = ok (buf', n)"
  shows "rgtp_parse_packet (Some (take n buf' @ trailing)) mcc True =
      (case p of Nak x \<Rightarrow> ok (Nak (x\<lparr>nk_chunk_indices := map bswap_u32 (nk_chunk_indices x)\<rparr>)) | _ \<Rightarrow> ok p)
    \<and> (\<forall>i. u32_be (bswap_u32 i) = rev (u32_be i))"
proof -
  have fits: "length (packet_bytes p) \<le> length buf \<and> length (packet_bytes p) \<le> 65535"
    using rgtp_serialize_packet_too_small [OF assms(1), of buf] assms(3) by fastforce
  then have "take n buf' = packet_bytes p"
    using rgtp_serialize_packet_exact [OF assms(1), of buf] assms(3) by simp
  then have "rgtp_parse_packet (Some (take n buf' @ trailing)) mcc True = ok (host_view p)"
    using assms fits by (simp add: parse_packet_bytes)
  then show ?thesis by (cases p) (simp_all add: u32_be_bswap)
qed

theorem wire_roundtrip_witness:
  "let p = ChunkData \<lparr>cd_exposure_id = replicate 16 7, cd_chunk_index = 3, cd_payload = Some [5, 6],
      cd_payload_len = 2\<rparr>;
     q = \<lparr>nk_exposure_id = replicate 16 0, nk_nak_count = 1, nk_chunk_indices = [1]\<rparr> in
    wf_packet p \<and> acceptable 4 p \<and>
    rgtp_serialize_packet (Some p) (Some (replicate 30 0)) True = ok (packet_bytes p @ replicate 4 0, 26) \<and>
    rgtp_parse_packet (Some (packet_bytes p @ [9])) 4 True = ok p \<and>
    rgtp_parse_packet (Some (packet_bytes (Nak q))) 4 True = ok (Nak (q\<lparr>nk_chunk_indices := [16777216]\<rparr>))"
proof -
  let ?p = "ChunkData \<lparr>cd_exposure_id = replicate 16 7, cd_chunk_index = 3, cd_payload = Some [5, 6],
      cd_payload_len = 2\<rparr>"
  let ?q = "Nak \<lparr>nk_exposure_id = replicate 16 0, nk_nak_count = 1, nk_chunk_indices = [1]\<rparr>"
  have hyps: "wf_packet ?p" "acceptable 4 ?p" "length (packet_bytes ?p) = 26"
    by (simp_all add: packet_bytes_def)
  then have ser: "rgtp_serialize_packet (Some ?p) (Some (replicate 30 0)) True
      = ok (packet_bytes ?p @ replicate 4 0, 26)"
    by (subst rgtp_serialize_packet_exact) simp_all
  have nak: "wf_packet ?q" "acceptable 4 ?q" "length (packet_bytes ?q) = 28"
    by (simp_all add: packet_bytes_def)
  then have nser: "rgtp_serialize_packet (Some ?q) (Some (replicate 28 0)) True = ok (packet_bytes ?q, 28)"
    by (subst rgtp_serialize_packet_exact) simp_all
  have "bswap_u32 1 = 16777216" by (simp add: bswap_u32_def u32_be_def)
  then show ?thesis
    using hyps ser wire_roundtrip [OF hyps(1,2) ser, of "[9]"] nak wire_roundtrip [OF nak(1,2) nser, of "[]"]
    by (simp add: Let_def)
qed

text \<open>C8: the parser never reads outside the received bytes, whatever they are, and
  a packet that it accepts is well-formed, has a chunk index below the chunk count
  of the manifest and, for a manifest, describes at least one non-empty chunk.\<close>

theorem parse_packet_safe:
  "rgtp_parse_packet buf mcc out \<noteq> None \<and>
    (\<forall>p. rgtp_parse_packet buf mcc out = ok p \<longrightarrow> wf_packet p \<and> acceptable mcc p)"
  using rgtp_parse_packet_sound [of mcc buf out]
  by (auto simp: sound_result_def split: option.splits)

theorem parse_packet_safe_witness:
  "let b = [1, 8, 0, 32] @ replicate 28 0;
       p = Keepalive \<lparr>ka_exposure_id = replicate 16 0, ka_timestamp_us = 0, ka_reserved = 0\<rparr> in
   rgtp_parse_packet (Some b) 4 True = ok p \<and> wf_packet p \<and> acceptable 4 p"
proof -
  let ?b = "[1, 8, 0, 32] @ replicate 28 0"
  let ?p = "Keepalive \<lparr>ka_exposure_id = replicate 16 0, ka_timestamp_us = 0, ka_reserved = 0\<rparr>"
  have "rgtp_parse_packet (Some ?b) 4 True = ok ?p"
    by code_simp
  then show ?thesis
    using parse_packet_safe [of "Some ?b" 4 True] by (simp add: Let_def)
qed

text \<open>The bytes after the declared packet length play no role: a buffer that is
  not rejected as truncated parses the same when it is extended.\<close>

theorem parse_ignores_trailing:
  assumes "rgtp_parse_packet (Some buf) mcc out \<noteq> err RGTP_ERR_TRUNCATED"
  shows "rgtp_parse_packet (Some (buf @ extra)) mcc out = rgtp_parse_packet (Some buf) mcc out"
  using assms by (rule parse_append)

theorem parse_ignores_trailing_witness:
  "let b = [1, 8, 0, 32] @ replicate 28 0 in
   rgtp_parse_packet (Some b) 4 True \<noteq> err RGTP_ERR_TRUNCATED \<and>
   rgtp_parse_packet (Some (b @ [1, 2, 3])) 4 True = rgtp_parse_packet (Some b) 4 True"
proof -
  let ?b = "[1, 8, 0, 32] @ replicate 28 0"
  have "rgtp_parse_packet (Some ?b) 4 True \<noteq> err RGTP_ERR_TRUNCATED"
    by code_simp
  then show ?thesis
    using parse_ignores_trailing [of ?b 4 True "[1, 2, 3]"] by (simp add: Let_def)
qed

end
