(* ===== verification/Rgtp_Core.thy ===== *)
theory Rgtp_Core
  imports Rgtp_Prelude
begin

text \<open>
  The allocator wrappers of \<^verbatim>\<open>src/core/rgtp_alloc.c\<close> and the
  once-initialisation of \<^verbatim>\<open>src/core/rgtp_init.c\<close>.  What the system
  allocator or a custom one answers is a parameter: a function of the number of the
  call and the requested size, true when memory is returned.  A component that
  allocates numbers its calls from 0 in program order.
\<close>

subsection \<open>Allocator\<close>

type_synonym alloc_oracle = "nat \<Rightarrow> nat \<Rightarrow> bool"

record rgtp_allocator =
  alloc_fn :: "alloc_oracle option"
  free_fn_set :: bool

record mem_env =
  g_alloc :: rgtp_allocator
  memory_profile_embedded :: bool
  sys_malloc :: alloc_oracle

definition SIZE_MAX :: nat where "SIZE_MAX = 2 ^ 64 - 1"
definition EMBEDDED_MAX_ALLOC :: nat where "EMBEDDED_MAX_ALLOC = 16 * 1024 * 1024"

definition rgtp_set_allocator :: "rgtp_allocator option \<Rightarrow> mem_env \<Rightarrow> rgtp_error option \<times> mem_env" where
  "rgtp_set_allocator a env =
    (case a of
       None \<Rightarrow> (None, env\<lparr>g_alloc := \<lparr>alloc_fn = None, free_fn_set = False\<rparr>\<rparr>)
     | Some al \<Rightarrow>
         if (alloc_fn al = None) \<noteq> (\<not> free_fn_set al) then (Some RGTP_ERR_INVALID_ARG, env)
         else (None, env\<lparr>g_alloc := al\<rparr>))"

text \<open>Whether the call number \<open>c\<close> returns memory.\<close>

definition rgtp_malloc :: "mem_env \<Rightarrow> nat \<Rightarrow> nat \<Rightarrow> bool" where
  "rgtp_malloc env c sz =
    (if sz = 0 then False
     else (case alloc_fn (g_alloc env) of
         Some f \<Rightarrow> f c sz
       | None \<Rightarrow> if memory_profile_embedded env \<and> sz > EMBEDDED_MAX_ALLOC then False
           else sys_malloc env c sz))"

definition rgtp_calloc :: "mem_env \<Rightarrow> nat \<Rightarrow> nat \<Rightarrow> nat \<Rightarrow> bool" where
  "rgtp_calloc env c nmemb sz =
    (if nmemb = 0 \<or> sz = 0 then False
     else if sz > SIZE_MAX div nmemb then False
     else (let total = nmemb * sz in
       case alloc_fn (g_alloc env) of
         Some f \<Rightarrow> f c total
       | None \<Rightarrow> if memory_profile_embedded env \<and> total > EMBEDDED_MAX_ALLOC then False
           else sys_malloc env c total))"

text \<open>Which function releases a pointer: nothing for \<^verbatim>\<open>NULL\<close>, the
  custom one if it is set, else the system's.\<close>

datatype free_call = FreeNone | FreeCustom | FreeSystem

definition rgtp_free :: "mem_env \<Rightarrow> bool \<Rightarrow> free_call" where
  "rgtp_free env nonnull =
    (if \<not> nonnull then FreeNone
     else if free_fn_set (g_alloc env) then FreeCustom else FreeSystem)"

text \<open>The environment that numbers calls from \<open>k\<close> on.\<close>

definition shift_env :: "nat \<Rightarrow> mem_env \<Rightarrow> mem_env" where
  "shift_env k env = env\<lparr>
     g_alloc := (g_alloc env)\<lparr>alloc_fn := map_option (\<lambda>f c. f (k + c)) (alloc_fn (g_alloc env))\<rparr>,
     sys_malloc := (\<lambda>c. sys_malloc env (k + c))\<rparr>"

subsection \<open>Initialisation\<close>

text \<open>The parts of the environment that initialisation can fail on: Winsock (on
  Windows only) and the crypto backend.\<close>

record init_env =
  is_windows :: bool
  wsa_startup_ok :: bool
  crypto_init_ok :: bool

record init_state =
  s_once_done :: bool
  s_init_result :: "rgtp_error option"
  s_initialised :: bool

definition do_init :: "init_env \<Rightarrow> init_state \<Rightarrow> init_state" where
  "do_init e st =
    (let result = (if is_windows e \<and> \<not> wsa_startup_ok e then Some RGTP_ERR_SOCKET
                   else if \<not> crypto_init_ok e then Some RGTP_ERR_CRYPTO_INIT else None)
     in st\<lparr>s_init_result := result, s_initialised := True\<rparr>)"

definition rgtp_init :: "init_env \<Rightarrow> init_state \<Rightarrow> rgtp_error option \<times> init_state" where
  "rgtp_init e st =
    (let st' = (if s_once_done st then st else (do_init e st)\<lparr>s_once_done := True\<rparr>)
     in (s_init_result st', st'))"

definition rgtp_cleanup :: "init_state \<Rightarrow> init_state" where
  "rgtp_cleanup st =
    (if \<not> s_initialised st then st
     else st\<lparr>s_initialised := False, s_init_result := None, s_once_done := False\<rparr>)"

definition init_start :: init_state where
  "init_start = \<lparr>s_once_done = False, s_init_result = None, s_initialised = False\<rparr>"

subsection \<open>The allocation contract\<close>

text \<open>An environment in which every request is served: no custom allocator, the
  unrestricted profile, and a system allocator that does not fail.\<close>

definition plenty :: "mem_env \<Rightarrow> bool" where
  "plenty env \<longleftrightarrow> alloc_fn (g_alloc env) = None \<and> \<not> memory_profile_embedded env \<and> (\<forall>c s. sys_malloc env c s)"

lemma plenty_shift [simp]: "plenty env \<Longrightarrow> plenty (shift_env k env)"
  by (simp add: plenty_def shift_env_def)

lemma plenty_malloc [simp]: "plenty env \<Longrightarrow> rgtp_malloc env c sz \<longleftrightarrow> sz \<noteq> 0"
  by (simp add: plenty_def rgtp_malloc_def)

lemma wrap_check: "n \<noteq> 0 \<Longrightarrow> s > M div n \<longleftrightarrow> n * s > M" for n s M :: nat
  by (simp add: div_less_iff_less_mult mult.commute)

lemma plenty_calloc [simp]:
  "plenty env \<Longrightarrow> rgtp_calloc env c n s \<longleftrightarrow> n \<noteq> 0 \<and> s \<noteq> 0 \<and> n * s \<le> SIZE_MAX"
  by (auto simp: plenty_def rgtp_calloc_def Let_def wrap_check)

lemma shift_malloc: "rgtp_malloc (shift_env k env) c sz = rgtp_malloc env (k + c) sz"
  by (auto simp: rgtp_malloc_def shift_env_def split: option.splits)

lemma shift_calloc: "rgtp_calloc (shift_env k env) c n sz = rgtp_calloc env (k + c) n sz"
  by (auto simp: rgtp_calloc_def shift_env_def Let_def split: option.splits)

lemma malloc_nonzero: "rgtp_malloc env c sz \<Longrightarrow> sz \<noteq> 0"
  by (auto simp: rgtp_malloc_def split: if_splits)

lemma calloc_no_wrap: "rgtp_calloc env c n s \<Longrightarrow> n \<noteq> 0 \<and> s \<noteq> 0 \<and> n * s \<le> SIZE_MAX"
  by (auto simp: rgtp_calloc_def wrap_check split: if_splits)

text \<open>A sequence of calls that install allocators never leaves only one of the two
  functions set.\<close>

definition paired :: "mem_env \<Rightarrow> bool" where
  "paired env \<longleftrightarrow> (alloc_fn (g_alloc env) = None) = (\<not> free_fn_set (g_alloc env))"

lemma set_allocator_paired: "paired env \<Longrightarrow> paired (snd (rgtp_set_allocator a env))"
  by (auto simp: rgtp_set_allocator_def paired_def split: option.splits)

text \<open>Init and cleanup as a transition system: the flag and the once guard move
  together, and an error is remembered exactly while they are set.\<close>

inductive init_reach :: "init_state \<Rightarrow> bool" where
  start: "init_reach init_start"
| init: "init_reach st \<Longrightarrow> init_reach (snd (rgtp_init e st))"
| cleanup: "init_reach st \<Longrightarrow> init_reach (rgtp_cleanup st)"

lemma init_reach_inv:
  "init_reach st \<Longrightarrow> s_once_done st = s_initialised st \<and> (\<not> s_initialised st \<longrightarrow> s_init_result st = None)"
  by (induction rule: init_reach.induct)
    (auto simp: init_start_def rgtp_init_def do_init_def rgtp_cleanup_def Let_def)

subsection \<open>Properties\<close>

text \<open>An allocation that succeeds was for a non-zero number of bytes whose
  product does not wrap around the address space, a zero-size request always yields
  \<^verbatim>\<open>NULL\<close>, and in the embedded profile without a custom allocator no
  request above 16 MB succeeds.\<close>

theorem allocation_guards:
  "(rgtp_malloc env c sz \<longrightarrow> sz \<noteq> 0) \<and>
   (rgtp_calloc env c n s \<longrightarrow> n \<noteq> 0 \<and> s \<noteq> 0 \<and> n * s \<le> SIZE_MAX) \<and>
   (memory_profile_embedded env \<and> alloc_fn (g_alloc env) = None \<longrightarrow>
     (rgtp_malloc env c sz \<longrightarrow> sz \<le> EMBEDDED_MAX_ALLOC) \<and>
     (rgtp_calloc env c n s \<longrightarrow> n * s \<le> EMBEDDED_MAX_ALLOC))"
proof (intro conjI impI)
  assume e: "memory_profile_embedded env \<and> alloc_fn (g_alloc env) = None"
  show "rgtp_malloc env c sz \<Longrightarrow> sz \<le> EMBEDDED_MAX_ALLOC" "rgtp_calloc env c n s \<Longrightarrow> n * s \<le> EMBEDDED_MAX_ALLOC"
    using e by (auto simp: rgtp_malloc_def rgtp_calloc_def Let_def split: if_splits)
qed (use malloc_nonzero calloc_no_wrap in blast)+

theorem allocation_guards_witness:
  "let env = \<lparr>g_alloc = \<lparr>alloc_fn = None, free_fn_set = False\<rparr>, memory_profile_embedded = True,
     sys_malloc = (\<lambda>c s. True)\<rparr> in
   rgtp_malloc env 0 100 \<and> rgtp_calloc env 1 10 10 \<and> 100 \<le> EMBEDDED_MAX_ALLOC"
proof -
  let ?env = "\<lparr>g_alloc = \<lparr>alloc_fn = None, free_fn_set = False\<rparr>, memory_profile_embedded = True,
     sys_malloc = (\<lambda>c s. True)\<rparr>"
  have "rgtp_malloc ?env 0 100" "rgtp_calloc ?env 1 10 10"
    by (simp_all add: rgtp_malloc_def rgtp_calloc_def EMBEDDED_MAX_ALLOC_def SIZE_MAX_def)
  then show ?thesis
    using allocation_guards [of ?env 0 100] by simp
qed

text \<open>Initialisation runs once: between two cleanups every call returns the
  result of the first one, whatever the environment does later, and a cleanup makes
  the next call initialise again.\<close>

theorem init_once:
  assumes "init_reach st"
  shows "rgtp_init e' (snd (rgtp_init e st)) = rgtp_init e st \<and>
    fst (rgtp_init e' (rgtp_cleanup (snd (rgtp_init e st)))) = fst (rgtp_init e' init_start)"
  using init_reach_inv [OF assms]
  by (auto simp: rgtp_init_def rgtp_cleanup_def do_init_def init_start_def Let_def)

theorem init_once_witness:
  "let bad = \<lparr>is_windows = False, wsa_startup_ok = True, crypto_init_ok = False\<rparr>;
       good = \<lparr>is_windows = False, wsa_startup_ok = True, crypto_init_ok = True\<rparr> in
   fst (rgtp_init good (snd (rgtp_init bad init_start))) = Some RGTP_ERR_CRYPTO_INIT \<and>
   fst (rgtp_init good (rgtp_cleanup (snd (rgtp_init bad init_start)))) = None"
proof -
  let ?bad = "\<lparr>is_windows = False, wsa_startup_ok = True, crypto_init_ok = False\<rparr>"
  let ?good = "\<lparr>is_windows = False, wsa_startup_ok = True, crypto_init_ok = True\<rparr>"
  have "fst (rgtp_init ?bad init_start) = Some RGTP_ERR_CRYPTO_INIT" "fst (rgtp_init ?good init_start) = None"
    by (simp_all add: rgtp_init_def do_init_def init_start_def)
  then show ?thesis
    unfolding Let_def using init_once [OF init_reach.start, of ?good ?bad] by simp
qed

end
