(* ===== verification/Rgtp_Crypto.thy ===== *)
theory Rgtp_Crypto
  imports Rgtp_Prelude
begin

text \<open>
  Chunk encryption, from \<^verbatim>\<open>src/crypto/rgtp_crypto.c\<close>,
  \<^verbatim>\<open>rgtp_zeroize.c\<close> and \<^verbatim>\<open>rgtp_csprng.c\<close>.  The
  primitives of the crypto backend (libsodium or OpenSSL) are parameters, gathered in
  a record: sealing and opening with ChaCha20-Poly1305, the 256-bit hash and the random
  generator.  The lemmas rely on one documented law of the backend, that opening a
  sealed message under the same key and nonce returns the message and that sealing adds
  a tag of 16 bytes.
\<close>

subsection \<open>The backend\<close>

text \<open>A context that cannot be created is an outcome of the OpenSSL interface
  only.\<close>

datatype aead_result = AeadOk bytes | AeadReject | AeadNoContext

record crypto_backend =
  aead_seal :: "bytes \<Rightarrow> bytes \<Rightarrow> bytes \<Rightarrow> aead_result"
  aead_open :: "bytes \<Rightarrow> bytes \<Rightarrow> bytes \<Rightarrow> aead_result"
  digest :: "bytes \<Rightarrow> bytes option"
  random_bytes :: "nat \<Rightarrow> nat \<Rightarrow> bytes option"

definition RGTP_AEAD_TAG_BYTES :: nat where "RGTP_AEAD_TAG_BYTES = 16"
definition RGTP_AEAD_NONCE_BYTES :: nat where "RGTP_AEAD_NONCE_BYTES = 12"
definition RGTP_AEAD_KEY_BYTES :: nat where "RGTP_AEAD_KEY_BYTES = 32"

definition aead_lawful :: "crypto_backend \<Rightarrow> bool" where
  "aead_lawful cb \<longleftrightarrow> (\<forall>k n p c. length k = RGTP_AEAD_KEY_BYTES \<and> length n = RGTP_AEAD_NONCE_BYTES \<and>
     aead_seal cb k n p = AeadOk c \<longrightarrow>
     length c = length p + RGTP_AEAD_TAG_BYTES \<and> aead_open cb k n c = AeadOk p)"

subsection \<open>Operations\<close>

definition rgtp_build_nonce :: "u32 \<Rightarrow> bytes" where
  "rgtp_build_nonce chunk_index =
    (replicate RGTP_AEAD_NONCE_BYTES 0)[0 := ucast (chunk_index AND 0xFF),
       1 := ucast (drop_bit 8 chunk_index AND 0xFF),
       2 := ucast (drop_bit 16 chunk_index AND 0xFF),
       3 := ucast (drop_bit 24 chunk_index AND 0xFF)]"

text \<open>The boolean says whether both output pointers are set.\<close>

definition rgtp_encrypt_chunk ::
    "crypto_backend \<Rightarrow> bytes option \<Rightarrow> u32 \<Rightarrow> bytes option \<Rightarrow> bool \<Rightarrow> bytes cres" where
  "rgtp_encrypt_chunk cb key chunk_index plaintext outs =
    (case (key, plaintext) of
       (Some k, Some pt) \<Rightarrow>
         if \<not> outs then err RGTP_ERR_INVALID_ARG
         else if length pt = 0 \<or> length pt > 65507 then err RGTP_ERR_INVALID_ARG
         else (case aead_seal cb k (rgtp_build_nonce chunk_index) pt of
             AeadOk ct \<Rightarrow> ok ct
           | AeadReject \<Rightarrow> err RGTP_ERR_ENCRYPT
           | AeadNoContext \<Rightarrow> err RGTP_ERR_ENCRYPT)
     | _ \<Rightarrow> err RGTP_ERR_INVALID_ARG)"

definition rgtp_decrypt_chunk ::
    "crypto_backend \<Rightarrow> bytes option \<Rightarrow> u32 \<Rightarrow> bytes option \<Rightarrow> bool \<Rightarrow> bytes cres" where
  "rgtp_decrypt_chunk cb key chunk_index ciphertext outs =
    (case (key, ciphertext) of
       (Some k, Some ct) \<Rightarrow>
         if \<not> outs then err RGTP_ERR_INVALID_ARG
         else if length ct \<le> RGTP_AEAD_TAG_BYTES then err RGTP_ERR_TRUNCATED
         else (case aead_open cb k (rgtp_build_nonce chunk_index) ct of
             AeadOk pt \<Rightarrow> ok pt
           | AeadReject \<Rightarrow> err RGTP_ERR_AUTH_FAIL
           | AeadNoContext \<Rightarrow> err RGTP_ERR_DECRYPT)
     | _ \<Rightarrow> err RGTP_ERR_INVALID_ARG)"

definition rgtp_zeroize :: "bytes option \<Rightarrow> bytes option" where
  "rgtp_zeroize buf = map_option (\<lambda>b. replicate (length b) 0) buf"

text \<open>The random generator, by number of the call.\<close>

definition rgtp_csprng_bytes :: "crypto_backend \<Rightarrow> nat \<Rightarrow> bool \<Rightarrow> nat \<Rightarrow> bytes cres" where
  "rgtp_csprng_bytes cb c buf len =
    (if \<not> buf \<or> len = 0 then err RGTP_ERR_INVALID_ARG
     else (case random_bytes cb c len of
         None \<Rightarrow> err RGTP_ERR_CRYPTO_INIT
       | Some b \<Rightarrow> ok b))"

definition rgtp_generate_exposure_id :: "crypto_backend \<Rightarrow> nat \<Rightarrow> bool \<Rightarrow> bytes cres" where
  "rgtp_generate_exposure_id cb c out_id =
    (if \<not> out_id then err RGTP_ERR_INVALID_ARG else rgtp_csprng_bytes cb c True 16)"

subsection \<open>Nonces\<close>

lemma rgtp_build_nonce_bytes:
  "rgtp_build_nonce i = [ucast i, ucast (drop_bit 8 i), ucast (drop_bit 16 i), ucast (drop_bit 24 i)]
     @ replicate 8 0"
proof -
  have "ucast (x AND 0xFF) = (ucast x :: u8)" for x :: u32
    unfolding mask_byte by (rule bit_word_eqI) (auto simp: bit_simps)
  then show ?thesis
    by (simp add: rgtp_build_nonce_def RGTP_AEAD_NONCE_BYTES_def numeral_eq_Suc)
qed

lemma rgtp_build_nonce_length [simp]: "length (rgtp_build_nonce i) = RGTP_AEAD_NONCE_BYTES"
  by (simp add: rgtp_build_nonce_def)

lemma rgtp_build_nonce_inj: "rgtp_build_nonce i = rgtp_build_nonce j \<Longrightarrow> i = j"
proof (rule bit_word_eqI)
  fix n assume eq: "rgtp_build_nonce i = rgtp_build_nonce j" and n: "n < LENGTH(32)"
  have bytes: "(ucast (drop_bit k i) :: u8) = ucast (drop_bit k j)" if "k \<in> {0, 8, 16, 24}" for k
    using eq that by (auto simp: rgtp_build_nonce_bytes)
  have lane: "bit w n = bit (ucast (drop_bit (8 * (n div 8)) w) :: u8) (n mod 8)" for w :: u32
    using n by (simp add: bit_simps)
  have "8 * (n div 8) \<in> {0, 8, 16, 24}"
    using n by auto
  then show "bit i n = bit j n"
    unfolding lane [of i] lane [of j] by (simp add: bytes)
qed

subsection \<open>Round trip\<close>

lemma encrypt_ok_iff:
  "rgtp_encrypt_chunk cb (Some k) i (Some pt) True = ok ct \<longleftrightarrow>
    pt \<noteq> [] \<and> length pt \<le> 65507 \<and> aead_seal cb k (rgtp_build_nonce i) pt = AeadOk ct"
  by (auto simp: rgtp_encrypt_chunk_def split: aead_result.splits)

lemma encrypt_decrypt:
  assumes "aead_lawful cb" and "length k = RGTP_AEAD_KEY_BYTES"
    and "rgtp_encrypt_chunk cb (Some k) i (Some pt) True = ok ct"
  shows "length ct = length pt + RGTP_AEAD_TAG_BYTES"
    and "rgtp_decrypt_chunk cb (Some k) i (Some ct) True = ok pt"
proof -
  have seal: "pt \<noteq> []" "aead_seal cb k (rgtp_build_nonce i) pt = AeadOk ct"
    using assms(3) by (simp_all add: encrypt_ok_iff)
  with assms(1,2) show len: "length ct = length pt + RGTP_AEAD_TAG_BYTES"
    by (metis aead_lawful_def rgtp_build_nonce_length)
  have "aead_open cb k (rgtp_build_nonce i) ct = AeadOk pt"
    using assms(1,2) seal by (metis aead_lawful_def rgtp_build_nonce_length)
  then show "rgtp_decrypt_chunk cb (Some k) i (Some ct) True = ok pt"
    using len seal(1) by (auto simp: rgtp_decrypt_chunk_def)
qed

lemma encrypt_not_ub [simp]: "rgtp_encrypt_chunk cb k i pt outs \<noteq> None"
  by (auto simp: rgtp_encrypt_chunk_def split: option.splits aead_result.splits)

lemma decrypt_not_ub [simp]: "rgtp_decrypt_chunk cb k i ct outs \<noteq> None"
  by (auto simp: rgtp_decrypt_chunk_def split: option.splits aead_result.splits)

text \<open>A backend without secrecy, for concrete evaluations: the tag is a checksum over
  key, nonce and message.\<close>

definition demo_tag :: "bytes \<Rightarrow> bytes \<Rightarrow> bytes \<Rightarrow> bytes" where
  "demo_tag k n p = replicate 16 (sum_list k + sum_list n + sum_list p)"

definition demo_backend :: crypto_backend where
  "demo_backend = \<lparr>
     aead_seal = (\<lambda>k n p. AeadOk (p @ demo_tag k n p)),
     aead_open = (\<lambda>k n c. let p = take (length c - 16) c in
       if length c \<ge> 16 \<and> drop (length c - 16) c = demo_tag k n p then AeadOk p else AeadReject),
     digest = (\<lambda>m. Some (take 32 (m @ replicate 32 0))),
     random_bytes = (\<lambda>c len. Some (replicate len (word_of_nat c)))\<rparr>"

lemma demo_backend_lawful: "aead_lawful demo_backend"
  by (simp add: aead_lawful_def demo_backend_def demo_tag_def RGTP_AEAD_TAG_BYTES_def Let_def)

subsection \<open>Properties\<close>

text \<open>Two chunks of one exposure never share a nonce.\<close>

theorem nonce_unique: "rgtp_build_nonce i = rgtp_build_nonce j \<longleftrightarrow> i = j"
  using rgtp_build_nonce_inj by blast

end
