(* ===== verification/Rgtp_Merkle.thy ===== *)
theory Rgtp_Merkle
  imports Rgtp_Core Rgtp_Crypto
begin

text \<open>
  Merkle trees over the chunks of an exposure, from
  \<^verbatim>\<open>src/merkle/rgtp_merkle.c\<close> and
  \<^verbatim>\<open>rgtp_merkle_hash.c\<close>.  The tree is the flat array of the code, as
  a list of 32-byte blocks; the index of a block is computed from the byte offset with
  the 32-bit multiplication of the code, so offsets wrap as they do there.  The lemmas
  show that every proof that a build produces verifies, and that a proof of the right
  depth binds the chunk to the root, up to a collision of the hash function that the
  two computations exhibit.
\<close>

subsection \<open>Hashes\<close>

definition RGTP_MERKLE_HASH_BYTES :: nat where "RGTP_MERKLE_HASH_BYTES = 32"

definition run_digest :: "crypto_backend \<Rightarrow> bytes \<Rightarrow> bytes cres" where
  "run_digest cb m =
    (case digest cb m of
       None \<Rightarrow> err RGTP_ERR_CRYPTO_INIT
     | Some h \<Rightarrow> if length h = RGTP_MERKLE_HASH_BYTES then ok h else err RGTP_ERR_CRYPTO_INIT)"

definition rgtp_leaf_hash :: "crypto_backend \<Rightarrow> bytes option \<Rightarrow> bytes cres" where
  "rgtp_leaf_hash cb data =
    (case data of None \<Rightarrow> err RGTP_ERR_INVALID_ARG | Some d \<Rightarrow> run_digest cb (0x00 # d))"

definition rgtp_internal_hash :: "crypto_backend \<Rightarrow> bytes \<Rightarrow> bytes \<Rightarrow> bytes cres" where
  "rgtp_internal_hash cb left right = run_digest cb (0x01 # left @ right)"

subsection \<open>Sizes\<close>

definition next_pow2 :: "u32 \<Rightarrow> u32" where
  "next_pow2 n =
    (if n = 0 then 1
     else (let n = n - 1; n = n OR drop_bit 1 n; n = n OR drop_bit 2 n; n = n OR drop_bit 4 n;
               n = n OR drop_bit 8 n; n = n OR drop_bit 16 n
           in n + 1))"

function log2_u32 :: "u32 \<Rightarrow> u32" where
  "log2_u32 n = (if n > 1 then log2_u32 (drop_bit 1 n) + 1 else 0)"
  by auto
termination
proof (relation "measure unat")
  fix n :: u32 assume "1 < n"
  then have "1 < unat n" by (simp add: word_less_nat_alt)
  then show "(drop_bit 1 n, n) \<in> measure unat"
    by (simp add: drop_bit_Suc unat_div)
qed simp

declare log2_u32.simps [simp del]

text \<open>The block at \<^verbatim>\<open>tree + i * RGTP_MERKLE_HASH_BYTES\<close>, the product
  being a \<^verbatim>\<open>uint32_t\<close>.\<close>

definition node_slot :: "u32 \<Rightarrow> nat" where
  "node_slot i = unat (i * 32) div 32"

subsection \<open>Build\<close>

fun leaf_loop ::
    "crypto_backend \<Rightarrow> bytes option list \<Rightarrow> nat \<Rightarrow> u32 \<Rightarrow> nat list \<Rightarrow> bytes list \<Rightarrow> bytes list cres" where
  "leaf_loop cb chunks chunk_count padded [] tree = ok tree"
| "leaf_loop cb chunks chunk_count padded (i # is) tree =
    (let leaf = node_slot (padded + word_of_nat i) in
     if i < chunk_count then
       (if length chunks \<le> i then None
        else cbind (rgtp_leaf_hash cb (chunks ! i)) (\<lambda>h.
          leaf_loop cb chunks chunk_count padded is (tree[leaf := h])))
     else leaf_loop cb chunks chunk_count padded is (tree[leaf := replicate 32 0]))"

fun internal_loop :: "crypto_backend \<Rightarrow> nat list \<Rightarrow> bytes list \<Rightarrow> bytes list cres" where
  "internal_loop cb [] tree = ok tree"
| "internal_loop cb (i # is) tree =
    cbind (rgtp_internal_hash cb (tree ! node_slot (2 * word_of_nat i)) (tree ! node_slot (2 * word_of_nat i + 1)))
      (\<lambda>h. internal_loop cb is (tree[node_slot (word_of_nat i) := h]))"

text \<open>The siblings from a node up to the root.\<close>

fun sibling_path :: "bytes list \<Rightarrow> nat \<Rightarrow> u32 \<Rightarrow> bytes" where
  "sibling_path tree 0 node_idx = []"
| "sibling_path tree (Suc d) node_idx =
    (let sibling_idx = (if node_idx mod 2 = 0 then node_idx + 1 else node_idx - 1)
     in tree ! node_slot sibling_idx @ sibling_path tree d (node_idx div 2))"

text \<open>The proof loop: proof \<open>i\<close> is allocation number \<open>2 + i\<close>.\<close>

fun proof_loop :: "mem_env \<Rightarrow> nat \<Rightarrow> u32 \<Rightarrow> bytes list \<Rightarrow> nat list \<Rightarrow> bytes list option" where
  "proof_loop env depth padded tree [] = Some []"
| "proof_loop env depth padded tree (i # is) =
    (if \<not> rgtp_malloc env (2 + i) (depth * RGTP_MERKLE_HASH_BYTES) then None
     else map_option (\<lambda>ps. sibling_path tree depth (padded + word_of_nat i) # ps)
       (proof_loop env depth padded tree is))"

text \<open>The result holds the root, the proofs if they were asked for, and the depth.
  The chunk array comes with its length; an element may be
  \<^verbatim>\<open>NULL\<close>.\<close>

definition rgtp_merkle_build ::
    "crypto_backend \<Rightarrow> mem_env \<Rightarrow> bytes option list option \<Rightarrow> u32 \<Rightarrow> bool \<Rightarrow> bool \<Rightarrow>
      (bytes \<times> bytes list option \<times> u32) cres" where
  "rgtp_merkle_build cb env chunks_ptr chunk_count root_out proofs_out =
    (case chunks_ptr of
       None \<Rightarrow> err RGTP_ERR_INVALID_ARG
     | Some chunks \<Rightarrow>
         if chunk_count = 0 \<or> \<not> root_out then err RGTP_ERR_INVALID_ARG
         else
           (let padded = next_pow2 chunk_count; depth = log2_u32 padded; tree_size = 2 * padded in
            if \<not> rgtp_calloc env 0 (unat tree_size) RGTP_MERKLE_HASH_BYTES then err RGTP_ERR_NOMEM
            else
              cbind (leaf_loop cb chunks (unat chunk_count) padded [0..<unat padded]
                (replicate (unat tree_size) (replicate 32 0))) (\<lambda>tree.
              cbind (internal_loop cb (rev [1..<unat padded]) tree) (\<lambda>tree.
              if \<not> proofs_out then ok (tree ! 1, None, depth)
              else if \<not> rgtp_calloc env 1 (unat chunk_count) 8 then err RGTP_ERR_NOMEM
              else (case proof_loop env (unat depth) padded tree [0..<unat chunk_count] of
                  None \<Rightarrow> err RGTP_ERR_NOMEM
                | Some proofs \<Rightarrow> ok (tree ! 1, Some proofs, depth))))))"

subsection \<open>Verification\<close>

text \<open>The loop over the proof, read 32 bytes at a time.\<close>

fun verify_path :: "crypto_backend \<Rightarrow> bytes \<Rightarrow> nat \<Rightarrow> u32 \<Rightarrow> bytes \<Rightarrow> bytes cres" where
  "verify_path cb prf 0 idx h = ok h"
| "verify_path cb prf (Suc d) idx h =
    (if length prf < 32 then None
     else (let sibling = take 32 prf in
       cbind (if idx mod 2 = 0 then rgtp_internal_hash cb h sibling else rgtp_internal_hash cb sibling h)
         (\<lambda>combined. verify_path cb (drop 32 prf) d (idx div 2) combined)))"

definition hash_diff :: "bytes \<Rightarrow> bytes \<Rightarrow> u8" where
  "hash_diff h rt = fold (\<lambda>i diff. diff OR (h ! i XOR rt ! i)) [0..<RGTP_MERKLE_HASH_BYTES] 0"

definition rgtp_merkle_verify ::
    "crypto_backend \<Rightarrow> bytes option \<Rightarrow> bytes option \<Rightarrow> u32 \<Rightarrow> u32 \<Rightarrow> bytes option \<Rightarrow> unit cres" where
  "rgtp_merkle_verify cb chunk_data proof_ptr proof_depth chunk_index root_ptr =
    (case (chunk_data, proof_ptr, root_ptr) of
       (Some d, Some prf, Some rt) \<Rightarrow>
         cbind (rgtp_leaf_hash cb (Some d)) (\<lambda>h.
         cbind (verify_path cb prf (unat proof_depth) chunk_index h) (\<lambda>h.
           if length rt < RGTP_MERKLE_HASH_BYTES then None
           else if hash_diff h rt = 0 then ok () else err RGTP_ERR_MERKLE_FAIL))
     | _ \<Rightarrow> err RGTP_ERR_INVALID_ARG)"

subsection \<open>Comparison in constant time\<close>

lemma fold_or_zero:
  "fold (\<lambda>i d. d OR f i) is d0 = (0 :: u8) \<longleftrightarrow> d0 = 0 \<and> (\<forall>i \<in> set is. f i = 0)"
  by (induction "is" arbitrary: d0) (auto simp: or_eq_0_iff)

lemma xor_zero_iff: "a XOR b = 0 \<longleftrightarrow> a = b" for a b :: u8
proof
  assume "a XOR b = 0"
  moreover have "a = (a XOR b) XOR b" by (simp add: xor.assoc)
  ultimately show "a = b" by simp
qed simp

lemma hash_diff_zero:
  assumes "length h = 32" and "length r = 32"
  shows "hash_diff h r = 0 \<longleftrightarrow> h = r"
  using assms by (auto simp: hash_diff_def fold_or_zero RGTP_MERKLE_HASH_BYTES_def xor_zero_iff list_eq_iff_nth_eq)

subsection \<open>Powers of two\<close>

lemma smear_bit:
  fixes s v :: u32
  assumes "\<And>i. bit s i \<longleftrightarrow> (\<exists>j. i \<le> j \<and> j < i + k \<and> bit v j)"
  shows "bit (s OR drop_bit k s) i \<longleftrightarrow> (\<exists>j. i \<le> j \<and> j < i + 2 * k \<and> bit v j)"
proof -
  have "bit (s OR drop_bit k s) i \<longleftrightarrow>
      (\<exists>j. i \<le> j \<and> j < i + k \<and> bit v j) \<or> (\<exists>j. i + k \<le> j \<and> j < i + k + k \<and> bit v j)"
    by (simp add: bit_or_iff bit_drop_bit_eq assms add.commute)
  also have "\<dots> \<longleftrightarrow> (\<exists>j. i \<le> j \<and> j < i + 2 * k \<and> bit v j)"
  proof (intro iffI; elim disjE exE conjE)
    fix j assume j: "i \<le> j" "j < i + 2 * k" "bit v j"
    then show "(\<exists>j. i \<le> j \<and> j < i + k \<and> bit v j) \<or> (\<exists>j. i + k \<le> j \<and> j < i + k + k \<and> bit v j)"
      by (cases "j < i + k") (auto intro!: exI [of _ j])
  next
    fix j assume "i \<le> j" "j < i + k" "bit v j"
    then show "\<exists>j. i \<le> j \<and> j < i + 2 * k \<and> bit v j" by (intro exI [of _ j]) simp
  next
    fix j assume "i + k \<le> j" "j < i + k + k" "bit v j"
    then show "\<exists>j. i \<le> j \<and> j < i + 2 * k \<and> bit v j" by (intro exI [of _ j]) simp
  qed
  finally show ?thesis .
qed

definition smear :: "u32 \<Rightarrow> u32" where
  "smear n = (let n = n OR drop_bit 1 n; n = n OR drop_bit 2 n; n = n OR drop_bit 4 n;
     n = n OR drop_bit 8 n; n = n OR drop_bit 16 n in n)"

lemma bit_smear: "bit (smear v) i \<longleftrightarrow> (\<exists>j. i \<le> j \<and> bit v j)"
proof -
  define s1 where "s1 = v OR drop_bit 1 v"
  define s2 where "s2 = s1 OR drop_bit 2 s1"
  define s3 where "s3 = s2 OR drop_bit 4 s2"
  define s4 where "s4 = s3 OR drop_bit 8 s3"
  define s5 where "s5 = s4 OR drop_bit 16 s4"
  have 0: "bit v i \<longleftrightarrow> (\<exists>j. i \<le> j \<and> j < i + 1 \<and> bit v j)" for i
    by (auto simp: le_less_Suc_eq)
  have 1: "bit s1 i \<longleftrightarrow> (\<exists>j. i \<le> j \<and> j < i + 2 * 1 \<and> bit v j)" for i
    unfolding s1_def using 0 by (rule smear_bit)
  have 2: "bit s2 i \<longleftrightarrow> (\<exists>j. i \<le> j \<and> j < i + 2 * 2 \<and> bit v j)" for i
    unfolding s2_def by (rule smear_bit) (use 1 in simp)
  have 3: "bit s3 i \<longleftrightarrow> (\<exists>j. i \<le> j \<and> j < i + 2 * 4 \<and> bit v j)" for i
    unfolding s3_def by (rule smear_bit) (use 2 in simp)
  have 4: "bit s4 i \<longleftrightarrow> (\<exists>j. i \<le> j \<and> j < i + 2 * 8 \<and> bit v j)" for i
    unfolding s4_def by (rule smear_bit) (use 3 in simp)
  have 5: "bit s5 i \<longleftrightarrow> (\<exists>j. i \<le> j \<and> j < i + 2 * 16 \<and> bit v j)" for i
    unfolding s5_def by (rule smear_bit) (use 4 in simp)
  have "smear v = s5" by (simp add: smear_def s1_def s2_def s3_def s4_def s5_def Let_def)
  moreover have "j < i + 2 * 16" if "bit v j" for j
    using bit_imp_le_length [OF that] by simp
  ultimately show ?thesis using 5 [of i] by blast
qed

lemma next_pow2_smear: "n \<noteq> 0 \<Longrightarrow> next_pow2 n = smear (n - 1) + 1"
  by (simp add: next_pow2_def smear_def Let_def)

lemma top_bit:
  fixes v :: u32
  assumes "v \<noteq> 0"
  obtains e where "bit v e" "\<And>j. bit v j \<Longrightarrow> j \<le> e" "e < 32"
proof -
  have fin: "finite {j. bit v j}"
    by (rule finite_subset [of _ "{..<32}"]) (auto dest: bit_imp_le_length)
  have ne: "{j. bit v j} \<noteq> {}" using assms bit_eq_iff [of v 0] by auto
  have top: "bit v (Max {j. bit v j})" using Max_in [OF fin ne] by simp
  show thesis
    using that [OF top] Max_ge [OF fin] bit_imp_le_length [OF top] by simp
qed

lemma smear_mask:
  fixes v :: u32
  assumes "bit v e" and "\<And>j. bit v j \<Longrightarrow> j \<le> e"
  shows "smear v = mask (Suc e)"
proof (rule bit_word_eqI)
  fix i :: nat assume i: "i < LENGTH(32)"
  have "(\<exists>j. i \<le> j \<and> bit v j) \<longleftrightarrow> i \<le> e"
    using assms le_trans by blast
  then show "bit (smear v) i \<longleftrightarrow> bit (mask (Suc e) :: u32) i"
    using i by (simp add: bit_smear bit_mask_iff less_Suc_eq_le)
qed

lemma top_bit_bounds:
  fixes v :: u32
  assumes "bit v e" and "\<And>j. bit v j \<Longrightarrow> j \<le> e"
  shows "2 ^ e \<le> unat v" and "unat v < 2 ^ Suc e"
proof -
  have "bit (unat v) e" using assms(1) by (simp add: bit_unsigned_iff)
  then have "odd (unat v div 2 ^ e)" by (simp add: bit_iff_odd)
  then have "unat v div 2 ^ e \<noteq> 0" by (rule contrapos_pn) simp
  then show "2 ^ e \<le> unat v" by (simp add: div_eq_0_iff)
  have "take_bit (Suc e) v = v"
    by (rule bit_word_eqI) (use assms in \<open>auto simp: bit_take_bit_iff less_Suc_eq_le\<close>)
  then have "take_bit (Suc e) (unat v) = unat v"
    by (simp add: unsigned_take_bit_eq [symmetric])
  then show "unat v < 2 ^ Suc e" using take_bit_nat_less_exp [of "Suc e" "unat v"] by simp
qed

lemma next_pow2_power:
  assumes "n \<noteq> 0" and "unat n \<le> 2 ^ m" and "m < 32"
  obtains k where "k \<le> m" "next_pow2 n = 2 ^ k" "unat n \<le> 2 ^ k"
proof (cases "n = 1")
  case True
  then show thesis using that [of 0] by (simp add: next_pow2_def)
next
  case False
  have v: "unat (n - 1) = unat n - 1" "n - 1 \<noteq> 0" "unat n \<noteq> 0"
    using assms(1) False by (auto simp: unat_minus_one unat_eq_0)
  obtain e where e: "bit (n - 1) e" "\<And>j. bit (n - 1) j \<Longrightarrow> j \<le> e" "e < 32"
    using top_bit [OF v(2)] by blast
  have pow: "next_pow2 n = 2 ^ Suc e"
    using next_pow2_smear [OF assms(1)] smear_mask [OF e(1,2)] by (simp add: mask_eq_exp_minus_1)
  have low: "2 ^ e \<le> unat n - 1" and up: "unat n - 1 < 2 ^ Suc e"
    using top_bit_bounds [OF e(1,2)] v(1) by simp_all
  have "(2::nat) ^ e < 2 ^ m" using low assms(2) v(3) by linarith
  then have "Suc e \<le> m" by simp
  moreover have "unat n \<le> 2 ^ Suc e" using up by linarith
  ultimately show thesis using that pow by blast
qed

lemma log2_power: "k < 32 \<Longrightarrow> log2_u32 (2 ^ k) = word_of_nat k"
proof (induction k)
  case 0
  then show ?case by (simp add: log2_u32.simps)
next
  case (Suc k)
  have "(2::nat) ^ Suc k < 4294967296"
    using power_strict_increasing [OF Suc.prems, of "2::nat"] by simp
  then have "unat (2 ^ Suc k :: u32) = 2 ^ Suc k"
    using word_of_nat_unat_32 [of "2 ^ Suc k"] by simp
  moreover have "Suc 0 < 2 ^ Suc k" using one_less_power [of "2::nat" "Suc k"] by simp
  ultimately have "(1 :: u32) < 2 ^ Suc k"
    unfolding word_less_nat_alt by (simp only: unsigned_1 One_nat_def)
  moreover have "drop_bit 1 (2 ^ Suc k :: u32) = 2 ^ k"
    using Suc.prems by (simp add: drop_bit_exp_eq del: power_Suc)
  ultimately show ?case
    using Suc by (subst log2_u32.simps) simp
qed

lemma node_slot_small: "i < 2 ^ 27 \<Longrightarrow> node_slot (word_of_nat i) = i"
proof -
  assume i: "i < 2 ^ 27"
  have "word_of_nat i * 32 = (word_of_nat (i * 32) :: u32)" by simp
  then have "unat (word_of_nat i * 32 :: u32) = i * 32"
    using i by (simp add: word_of_nat_unat_32 del: of_nat_mult)
  then show ?thesis by (simp add: node_slot_def)
qed

subsection \<open>The tree that a build leaves\<close>

definition blocks :: "bytes list \<Rightarrow> bool" where
  "blocks tree \<longleftrightarrow> (\<forall>b \<in> set tree. length b = 32)"

lemma blocks_update: "blocks tree \<Longrightarrow> length h = 32 \<Longrightarrow> blocks (tree[i := h])"
  unfolding blocks_def using set_update_subset_insert [of tree i h] by blast

lemma blocks_nth: "blocks tree \<Longrightarrow> i < length tree \<Longrightarrow> length (tree ! i) = 32"
  by (simp add: blocks_def)

lemma run_digest_ok: "run_digest cb m = ok h \<longleftrightarrow> digest cb m = Some h \<and> length h = 32"
  by (auto simp: run_digest_def RGTP_MERKLE_HASH_BYTES_def split: option.splits if_splits)

lemma leaf_hash_ok: "rgtp_leaf_hash cb c = ok h \<longleftrightarrow> (\<exists>d. c = Some d \<and> run_digest cb (0 # d) = ok h)"
  by (simp add: rgtp_leaf_hash_def split: option.splits)

lemma leaf_hash_length: "rgtp_leaf_hash cb c = ok h \<Longrightarrow> length h = 32"
  by (auto simp: leaf_hash_ok run_digest_ok)

lemma internal_hash_length: "rgtp_internal_hash cb a b = ok h \<Longrightarrow> length h = 32"
  by (simp add: rgtp_internal_hash_def run_digest_ok)

lemma node_slot_add: "P + i < 2 ^ 27 \<Longrightarrow> node_slot (word_of_nat P + word_of_nat i) = P + i"
  using node_slot_small [of "P + i"] by simp

lemma leaf_loop_result:
  assumes "leaf_loop cb chunks n (word_of_nat P) is tree = ok tree'" and "blocks tree"
    and "distinct is" and "\<forall>i \<in> set is. P + i < 2 ^ 27 \<and> P + i < length tree"
  shows "length tree' = length tree \<and> blocks tree' \<and> (\<forall>j. j \<notin> (+) P ` set is \<longrightarrow> tree' ! j = tree ! j) \<and>
    (\<forall>i \<in> set is. i < n \<longrightarrow> i < length chunks \<and> rgtp_leaf_hash cb (chunks ! i) = ok (tree' ! (P + i)))"
  using assms
proof (induction "is" arbitrary: tree)
  case (Cons i "is")
  obtain h where h: "length h = 32" "i < n \<Longrightarrow> i < length chunks \<and> rgtp_leaf_hash cb (chunks ! i) = ok h"
    and loop: "leaf_loop cb chunks n (word_of_nat P) is (tree[P + i := h]) = ok tree'"
  proof (cases "i < n")
    case True
    with Cons.prems(1,4) that show thesis
      by (auto simp: node_slot_add cbind_ok_iff Let_def dest: leaf_hash_length split: if_splits)
  next
    case False
    with Cons.prems(1,4) that [of "replicate 32 0"] show thesis
      by (simp add: node_slot_add Let_def)
  qed
  have "length tree' = length tree \<and> blocks tree' \<and>
      (\<forall>j. j \<notin> (+) P ` set is \<longrightarrow> tree' ! j = tree[P + i := h] ! j) \<and>
      (\<forall>i \<in> set is. i < n \<longrightarrow> i < length chunks \<and> rgtp_leaf_hash cb (chunks ! i) = ok (tree' ! (P + i)))"
    using Cons.IH [OF loop blocks_update [OF Cons.prems(2) h(1)]] Cons.prems(3,4) by simp
  moreover have "P + i \<notin> (+) P ` set is" using Cons.prems(3) by auto
  ultimately show ?case using h(2) Cons.prems(4) by auto
qed simp

text \<open>A node is consistent when it holds the hash of its children.\<close>

definition node_ok :: "crypto_backend \<Rightarrow> bytes list \<Rightarrow> nat \<Rightarrow> bool" where
  "node_ok cb tree j \<longleftrightarrow> rgtp_internal_hash cb (tree ! (2 * j)) (tree ! (2 * j + 1)) = ok (tree ! j)"

lemma node_slot_children:
  "n < 2 ^ 26 \<Longrightarrow> node_slot (2 * word_of_nat n) = 2 * n"
  "n < 2 ^ 26 \<Longrightarrow> node_slot (2 * word_of_nat n + 1) = 2 * n + 1"
  using node_slot_small [of "2 * n"] node_slot_small [of "2 * n + 1"] by (simp_all add: add.commute)

lemma internal_loop_result:
  assumes "internal_loop cb (rev [1..<n]) tree = ok tree'" and "blocks tree"
    and "2 * n \<le> length tree" and "n \<le> 2 ^ 26"
  shows "length tree' = length tree \<and> blocks tree' \<and> (\<forall>j \<ge> n. tree' ! j = tree ! j) \<and>
    (\<forall>j. 1 \<le> j \<and> j < n \<longrightarrow> node_ok cb tree' j)"
  using assms
proof (induction n arbitrary: tree)
  case (Suc n)
  show ?case
  proof (cases "n = 0")
    case True
    with Suc.prems show ?thesis by auto
  next
    case False
    then have "rev [1..<Suc n] = n # rev [1..<n]" by simp
    with Suc.prems(1,4) obtain h
      where h: "rgtp_internal_hash cb (tree ! (2 * n)) (tree ! (2 * n + 1)) = ok h"
        and loop: "internal_loop cb (rev [1..<n]) (tree[n := h]) = ok tree'"
      by (auto simp: node_slot_children node_slot_small cbind_ok_iff)
    have IH: "length tree' = length tree" "blocks tree'" "\<And>j. n \<le> j \<Longrightarrow> tree' ! j = tree[n := h] ! j"
        "\<And>j. 1 \<le> j \<Longrightarrow> j < n \<Longrightarrow> node_ok cb tree' j"
      using Suc.IH [OF loop blocks_update [OF Suc.prems(2) internal_hash_length [OF h]]] Suc.prems(3,4)
      by simp_all
    have "tree' ! n = h" "tree' ! (2 * n) = tree ! (2 * n)" "tree' ! (2 * n + 1) = tree ! (2 * n + 1)"
      using IH(3) False Suc.prems(3) by simp_all
    then have "node_ok cb tree' n" using h by (simp add: node_ok_def)
    with IH show ?thesis by (auto simp: less_Suc_eq)
  qed
qed simp

subsection \<open>Proof paths\<close>

definition sibling :: "nat \<Rightarrow> nat" where
  "sibling v = (if even v then v + 1 else v - 1)"

fun sib_path :: "bytes list \<Rightarrow> nat \<Rightarrow> nat \<Rightarrow> bytes" where
  "sib_path tree 0 v = []"
| "sib_path tree (Suc d) v = tree ! sibling v @ sib_path tree d (v div 2)"

lemma word_halves:
  assumes "v < 2 ^ 32"
  shows "(word_of_nat v :: u32) mod 2 = 0 \<longleftrightarrow> even v" and "(word_of_nat v :: u32) div 2 = word_of_nat (v div 2)"
proof -
  have u: "unat (word_of_nat v :: u32) = v" using assms by (simp add: word_of_nat_unat_32)
  show "(word_of_nat v :: u32) mod 2 = 0 \<longleftrightarrow> even v"
    using u by (simp add: unat_eq_0 [symmetric] unat_mod even_iff_mod_2_eq_zero)
  show "(word_of_nat v :: u32) div 2 = word_of_nat (v div 2)"
  proof (rule unsigned_word_eqI)
    have "unat ((word_of_nat v :: u32) div 2) = v div 2" using u by (simp add: unat_div)
    also have "\<dots> = unat (word_of_nat (v div 2) :: u32)" using assms by (simp add: word_of_nat_unat_32)
    finally show "unat ((word_of_nat v :: u32) div 2) = unat (word_of_nat (v div 2) :: u32)" .
  qed
qed

lemma sibling_slot:
  assumes "v < 2 ^ 27"
  shows "node_slot (if (word_of_nat v :: u32) mod 2 = 0 then word_of_nat v + 1 else word_of_nat v - 1) = sibling v"
proof (cases "even v")
  case True
  then have "v + 1 < 2 ^ 27" using assms by (auto elim!: evenE)
  with True assms show ?thesis
    using node_slot_small [of "v + 1"] by (simp add: word_halves(1) sibling_def add.commute)
next
  case False
  then obtain w where "v = Suc w" by (cases v) auto
  then have "(word_of_nat v :: u32) - 1 = word_of_nat w" by simp
  moreover have "(word_of_nat v :: u32) mod 2 \<noteq> 0" using False assms word_halves(1) [of v] by simp
  moreover have "sibling v = w" using False \<open>v = Suc w\<close> by (simp add: sibling_def)
  ultimately show ?thesis
    using node_slot_small [of w] assms \<open>v = Suc w\<close> by simp
qed

lemma sibling_path_nat: "v < 2 ^ 27 \<Longrightarrow> sibling_path tree d (word_of_nat v) = sib_path tree d v"
proof (induction d arbitrary: v)
  case (Suc d)
  then show ?case using sibling_slot [of v] by (simp add: word_halves(2) Let_def)
qed simp

lemma sibling_children: "sibling v = (if even v then 2 * (v div 2) + 1 else 2 * (v div 2))"
  by (auto simp: sibling_def elim!: evenE oddE)

lemma verify_step_nat:
  assumes "even i \<longleftrightarrow> even v" and "i < 2 ^ 32" and "node_ok cb tree (v div 2)"
  shows "(if (word_of_nat i :: u32) mod 2 = 0 then rgtp_internal_hash cb (tree ! v) (tree ! sibling v)
    else rgtp_internal_hash cb (tree ! sibling v) (tree ! v)) = ok (tree ! (v div 2))"
  using assms by (cases "even v") (auto simp: word_halves(1) node_ok_def sibling_children elim!: evenE oddE)

lemma last_digit: "2 * a + i mod 2 = 2 * b + v mod 2 \<Longrightarrow> a = b \<and> (even i \<longleftrightarrow> even v)" for a b i v :: nat
  by presburger

lemma path_verifies:
  assumes "blocks tree" and "v < length tree" and "2 ^ d \<le> v" and "even (length tree)"
    and "\<forall>j. 1 \<le> j \<and> 2 * j < length tree \<longrightarrow> node_ok cb tree j"
    and "i mod 2 ^ d = v mod 2 ^ d" and "i < 2 ^ 32"
  shows "verify_path cb (sib_path tree d v) d (word_of_nat i) (tree ! v) = ok (tree ! (v div 2 ^ d))"
  using assms
proof (induction d arbitrary: v i)
  case (Suc d)
  have v2: "1 \<le> v div 2" "2 ^ d \<le> v div 2" "2 * (v div 2) < length tree"
  proof -
    show "2 ^ d \<le> v div 2" using Suc.prems(3) by (simp add: less_eq_div_iff_mult_less_eq mult.commute)
    moreover have "(1::nat) \<le> 2 ^ d" by simp
    ultimately show "1 \<le> v div 2" by (rule le_trans [rotated])
    show "2 * (v div 2) < length tree" using Suc.prems(2) by linarith
  qed
  have sl: "sibling v < length tree"
    using Suc.prems(2,4) by (auto simp: sibling_def elim!: evenE)
  have eq: "2 * (i div 2 mod 2 ^ d) + i mod 2 = 2 * (v div 2 mod 2 ^ d) + v mod 2"
    using Suc.prems(6) by (simp add: mod_mult2_eq)
  then have half: "i div 2 mod 2 ^ d = v div 2 mod 2 ^ d" and par: "even i \<longleftrightarrow> even v"
    using last_digit by blast+
  have step: "(if (word_of_nat i :: u32) mod 2 = 0 then rgtp_internal_hash cb (tree ! v) (tree ! sibling v)
    else rgtp_internal_hash cb (tree ! sibling v) (tree ! v)) = ok (tree ! (v div 2))"
    by (rule verify_step_nat) (use par Suc.prems(5,7) v2 in auto)
  have rest: "verify_path cb (sib_path tree d (v div 2)) d (word_of_nat (i div 2)) (tree ! (v div 2))
      = ok (tree ! (v div 2 div 2 ^ d))"
    by (rule Suc.IH) (use Suc.prems v2 half in auto)
  show ?case
    using step rest blocks_nth [OF Suc.prems(1) sl] Suc.prems(7)
    by (simp add: Let_def word_halves(2) div_mult2_eq)
qed simp

lemma proof_loop_result:
  assumes "proof_loop env d p tree is = Some ps"
  shows "ps = map (\<lambda>i. sibling_path tree d (p + word_of_nat i)) is"
  using assms by (induction "is" arbitrary: ps) (auto split: if_splits)

text \<open>The size of the padded tree for at most \<open>2 ^ 26\<close> chunks.\<close>

lemma padded_size:
  assumes "n \<noteq> 0" and "unat n \<le> 2 ^ 26"
  obtains k where "k \<le> 26" "next_pow2 n = word_of_nat (2 ^ k)" "unat (next_pow2 n) = 2 ^ k"
    "unat (2 * next_pow2 n) = 2 * 2 ^ k" "unat (log2_u32 (next_pow2 n)) = k" "unat n \<le> 2 ^ k"
proof -
  obtain k where k: "k \<le> 26" "next_pow2 n = 2 ^ k" "unat n \<le> 2 ^ k"
    by (rule next_pow2_power [OF assms]) simp_all
  have "(2::nat) ^ k \<le> 67108864" 
    using power_increasing [OF k(1), of "2::nat"] by (simp del: power_increasing_iff)
  then have b: "(2::nat) ^ k < 4294967296" "2 * (2::nat) ^ k < 4294967296" by linarith+
  have w: "(2 :: u32) ^ k = word_of_nat (2 ^ k)" "2 * (2 :: u32) ^ k = word_of_nat (2 * 2 ^ k)"
    by (simp_all only: of_nat_power of_nat_mult of_nat_numeral)
  show thesis
  proof (rule that [OF k(1) _ _ _ _ k(3)])
    show "next_pow2 n = word_of_nat (2 ^ k)" unfolding k(2) by (rule w(1))
    show "unat (next_pow2 n) = 2 ^ k"
      unfolding k(2) w(1) using b(1) by (rule word_of_nat_unat_32)
    show "unat (2 * next_pow2 n) = 2 * 2 ^ k"
      unfolding k(2) w(2) using b(2) by (rule word_of_nat_unat_32)
    show "unat (log2_u32 (next_pow2 n)) = k"
      unfolding k(2) using log2_power [of k] k(1) word_of_nat_unat_32 [of k] by simp
  qed
qed

lemma build_proofs_verify:
  assumes "rgtp_merkle_build cb env (Some chunks) n True True = ok (rt, Some proofs, depth)"
    and "unat n \<le> 2 ^ 26" and "i < unat n"
  shows "rgtp_merkle_verify cb (chunks ! i) (Some (proofs ! i)) depth (word_of_nat i) (Some rt) = ok ()
    \<and> length proofs = unat n"
proof -
  have n0: "n \<noteq> 0" using assms(3) by auto
  obtain k where k: "k \<le> 26" "next_pow2 n = word_of_nat (2 ^ k)" "unat (next_pow2 n) = 2 ^ k"
      "unat (2 * next_pow2 n) = 2 * 2 ^ k" "unat (log2_u32 (next_pow2 n)) = k" "unat n \<le> 2 ^ k"
    using padded_size [OF n0 assms(2)] by blast
  define P :: nat where "P = 2 ^ k"
  have "P \<le> 2 ^ 26" unfolding P_def using k(1) by (rule power_increasing) simp
  then have P: "P \<le> 2 ^ 26" "0 < P" by (simp_all add: P_def)
  let ?zero = "replicate (2 * P) (replicate 32 0) :: bytes list"
  obtain t1 t2 where t1: "leaf_loop cb chunks (unat n) (word_of_nat P) [0..<P] ?zero = ok t1"
    and t2: "internal_loop cb (rev [1..<P]) t1 = ok t2"
    and ps: "proof_loop env k (word_of_nat P) t2 [0..<unat n] = Some proofs"
    and res: "rt = t2 ! 1" "unat depth = k"
    using assms(1) n0 k(2-5)
    by (auto simp: rgtp_merkle_build_def Let_def cbind_ok_iff P_def split: if_splits option.splits)
  have L: "length t1 = 2 * P" "blocks t1"
      "\<And>i. i < P \<Longrightarrow> i < unat n \<Longrightarrow> rgtp_leaf_hash cb (chunks ! i) = ok (t1 ! (P + i))"
    using leaf_loop_result [OF t1] P(1) by (auto simp: blocks_def)
  have I: "length t2 = 2 * P" "blocks t2" "\<And>j. P \<le> j \<Longrightarrow> t2 ! j = t1 ! j"
      "\<And>j. 1 \<le> j \<Longrightarrow> j < P \<Longrightarrow> node_ok cb t2 j"
    using internal_loop_result [OF t2 L(2)] L(1) P(1) by auto
  have iP: "i < P" using assms(3) k(6) by (simp add: P_def)
  have leaf: "rgtp_leaf_hash cb (chunks ! i) = ok (t2 ! (P + i))"
    using L(3) [OF iP assms(3)] I(3) by simp
  have pf: "proofs ! i = sib_path t2 k (P + i)" "length proofs = unat n"
    using proof_loop_result [OF ps] assms(3) iP P(1) sibling_path_nat [of "P + i" t2 k] by simp_all
  have "verify_path cb (sib_path t2 k (P + i)) k (word_of_nat i) (t2 ! (P + i)) = ok (t2 ! ((P + i) div 2 ^ k))"
    by (rule path_verifies) (use I iP P in \<open>auto simp: P_def\<close>)
  moreover have "(P + i) div 2 ^ k = 1" using iP by (simp add: P_def)
  moreover have "length (t2 ! 1) = 32" using blocks_nth [OF I(2)] I(1) P(2) by simp
  moreover obtain d where "chunks ! i = Some d" using leaf by (auto simp: leaf_hash_ok)
  ultimately show ?thesis
    using leaf pf res by (simp add: rgtp_merkle_verify_def RGTP_MERKLE_HASH_BYTES_def hash_diff_zero)
qed

lemma sib_path_length:
  "blocks tree \<Longrightarrow> v < 2 * P \<Longrightarrow> length tree = 2 * P \<Longrightarrow> length (sib_path tree d v) = d * 32"
proof (induction d arbitrary: v)
  case (Suc d)
  then have "sibling v < length tree" by (auto simp: sibling_def elim!: evenE oddE)
  then have "length (tree ! sibling v) = 32" using Suc.prems(1) by (rule blocks_nth [rotated])
  then show ?case using Suc by simp
qed simp

lemma build_shape:
  assumes "rgtp_merkle_build cb env (Some chunks) n True want = ok (rt, proofs, depth)" and "unat n \<le> 2 ^ 26"
  shows "length rt = 32" and "unat depth \<le> 26" and "proofs \<noteq> None \<longleftrightarrow> want"
    and "proofs = Some ps \<Longrightarrow> length ps = unat n \<and> (\<forall>i < unat n. length (ps ! i) = unat depth * 32)"
proof -
  have n0: "n \<noteq> 0" using assms(1) by (auto simp: rgtp_merkle_build_def)
  obtain k where k: "k \<le> 26" "next_pow2 n = word_of_nat (2 ^ k)" "unat (next_pow2 n) = 2 ^ k"
      "unat (2 * next_pow2 n) = 2 * 2 ^ k" "unat (log2_u32 (next_pow2 n)) = k" "unat n \<le> 2 ^ k"
    using padded_size [OF n0 assms(2)] by blast
  define P :: nat where "P = 2 ^ k"
  have "P \<le> 2 ^ 26" unfolding P_def using k(1) by (rule power_increasing) simp
  then have P: "P \<le> 2 ^ 26" "0 < P" "unat n \<le> P" using k(6) by (simp_all add: P_def)
  let ?zero = "replicate (2 * P) (replicate 32 0) :: bytes list"
  obtain t1 t2 where t1: "leaf_loop cb chunks (unat n) (word_of_nat P) [0..<P] ?zero = ok t1"
    and t2: "internal_loop cb (rev [1..<P]) t1 = ok t2"
    and ps: "if want then \<exists>ps. proofs = Some ps \<and> proof_loop env k (word_of_nat P) t2 [0..<unat n] = Some ps else proofs = None"
    and res: "rt = t2 ! 1" "unat depth = k"
    using assms(1) n0 k(2-5)
    by (auto simp: rgtp_merkle_build_def Let_def cbind_ok_iff P_def split: if_splits option.splits)
  have L: "length t1 = 2 * P" "blocks t1"
    using leaf_loop_result [OF t1] P(1) by (auto simp: blocks_def)
  have I: "length t2 = 2 * P" "blocks t2"
    using internal_loop_result [OF t2 L(2)] L(1) P(1) by auto
  show "length rt = 32" using blocks_nth [OF I(2), of 1] I(1) P(2) res(1) by simp
  show "unat depth \<le> 26" using res(2) k(1) by simp
  show "proofs \<noteq> None \<longleftrightarrow> want" using ps by (auto split: if_splits)
  assume "proofs = Some ps"
  then have "proof_loop env k (word_of_nat P) t2 [0..<unat n] = Some ps" using ps by (auto split: if_splits)
  then have eq: "ps = map (\<lambda>i. sibling_path t2 k (word_of_nat P + word_of_nat i)) [0..<unat n]"
    by (rule proof_loop_result)
  have "length (sibling_path t2 k (word_of_nat P + word_of_nat i)) = k * 32" if "i < unat n" for i
    using sibling_path_nat [of "P + i" t2 k] sib_path_length [OF I(2) _ I(1), of "P + i" k] that P by simp
  then show "length ps = unat n \<and> (\<forall>i < unat n. length (ps ! i) = unat depth * 32)"
    using eq res(2) by simp
qed

subsection \<open>Success of a build\<close>

text \<open>What the code relies on of the hash backend: a digest of 32 bytes for every
  message.\<close>

definition digest_total :: "crypto_backend \<Rightarrow> bool" where
  "digest_total cb \<longleftrightarrow> (\<forall>m. \<exists>h. digest cb m = Some h \<and> length h = 32)"

lemma demo_digest_total: "digest_total demo_backend"
  by (auto simp: digest_total_def demo_backend_def min_def)

lemma run_digest_total: "digest_total cb \<Longrightarrow> \<exists>h. run_digest cb m = ok h"
  by (simp add: digest_total_def run_digest_ok)

lemma leaf_loop_total:
  assumes "digest_total cb"
  shows "\<exists>t. leaf_loop cb (map Some cs) (length cs) p is tree = ok t"
proof (induction "is" arbitrary: tree)
  case (Cons i "is")
  obtain h where "run_digest cb (0 # cs ! i) = ok h" using run_digest_total [OF assms] by blast
  with Cons show ?case by (simp add: rgtp_leaf_hash_def Let_def)
qed simp

lemma internal_loop_total: "digest_total cb \<Longrightarrow> \<exists>t. internal_loop cb is tree = ok t"
proof (induction "is" arbitrary: tree)
  case (Cons i "is")
  obtain h where "rgtp_internal_hash cb (tree ! node_slot (2 * word_of_nat i))
      (tree ! node_slot (2 * word_of_nat i + 1)) = ok h"
    using run_digest_total [OF Cons.prems] by (auto simp: rgtp_internal_hash_def)
  with Cons show ?case by simp
qed simp

lemma proof_loop_total: "plenty env \<Longrightarrow> d \<noteq> 0 \<Longrightarrow> \<exists>ps. proof_loop env d p tree is = Some ps"
  by (induction "is") (auto simp: RGTP_MERKLE_HASH_BYTES_def)

lemma build_total:
  assumes "digest_total cb" and "plenty env" and "cs \<noteq> []" and "want \<Longrightarrow> 2 \<le> length cs" and "length cs \<le> 2 ^ 26"
  shows "\<exists>rt proofs depth.
    rgtp_merkle_build cb env (Some (map Some cs)) (word_of_nat (length cs)) True want = ok (rt, proofs, depth)"
proof -
  let ?n = "word_of_nat (length cs) :: u32"
  have un: "unat ?n = length cs" using assms(5) by (simp add: word_of_nat_unat_32)
  then have n0: "?n \<noteq> 0" using assms(3) by (metis length_0_conv unsigned_0)
  obtain k where k: "k \<le> 26" "unat (next_pow2 ?n) = 2 ^ k" "unat (2 * next_pow2 ?n) = 2 * 2 ^ k"
      "unat (log2_u32 (next_pow2 ?n)) = k" "length cs \<le> 2 ^ k"
    using padded_size [OF n0] un assms(5) by metis
  have "(2::nat) ^ k \<le> 2 ^ 26" using k(1) by (rule power_increasing) simp
  then have al: "rgtp_calloc env 0 (2 * 2 ^ k) 32" "rgtp_calloc env 1 (length cs) 8"
    using assms(2,3,5) by (auto simp: SIZE_MAX_def)
  obtain t1 where t1: "leaf_loop cb (map Some cs) (length cs) (next_pow2 ?n) [0..<2 ^ k]
      (replicate (2 * 2 ^ k) (replicate 32 0)) = ok t1"
    using leaf_loop_total [OF assms(1)] by blast
  obtain t2 where t2: "internal_loop cb (rev [1..<2 ^ k]) t1 = ok t2"
    using internal_loop_total [OF assms(1)] by blast
  have "\<exists>ps. proof_loop env k (next_pow2 ?n) t2 [0..<length cs] = Some ps" if want
  proof (rule proof_loop_total [OF assms(2)])
    show "k \<noteq> 0" using k(5) assms(4) [OF that] by (intro notI) simp
  qed
  then show ?thesis
    using n0 un k al t1 t2
    by (cases want) (auto simp: rgtp_merkle_build_def RGTP_MERKLE_HASH_BYTES_def Let_def simp del: upt_Suc plenty_calloc)
qed

lemma build_succeeds:
  assumes "digest_total cb" and "plenty env" and "2 \<le> length cs" and "length cs \<le> 2 ^ 26"
  shows "\<exists>rt proofs depth.
    rgtp_merkle_build cb env (Some (map Some cs)) (word_of_nat (length cs)) True True = ok (rt, Some proofs, depth)"
proof -
  have "cs \<noteq> []" using assms(3) by auto
  then obtain rt proofs depth where
    b: "rgtp_merkle_build cb env (Some (map Some cs)) (word_of_nat (length cs)) True True = ok (rt, proofs, depth)"
    using build_total [OF assms(1,2) _ _ assms(4)] assms(3) by blast
  have "unat (word_of_nat (length cs) :: u32) \<le> 2 ^ 26" using assms(4) by (simp add: word_of_nat_unat_32)
  from build_shape(3) [OF b this] b show ?thesis by auto
qed

subsection \<open>Binding\<close>

text \<open>The messages that a verification hashes on its way from a leaf to the
  root.\<close>

fun path_inputs :: "crypto_backend \<Rightarrow> bytes \<Rightarrow> nat \<Rightarrow> u32 \<Rightarrow> bytes \<Rightarrow> bytes list" where
  "path_inputs cb prf 0 idx h = []"
| "path_inputs cb prf (Suc d) idx h =
    (let m = 1 # (if idx mod 2 = 0 then h @ take 32 prf else take 32 prf @ h) in
     m # (case run_digest cb m of Some (Inr h') \<Rightarrow> path_inputs cb (drop 32 prf) d (idx div 2) h' | _ \<Rightarrow> []))"

definition verify_inputs :: "crypto_backend \<Rightarrow> bytes \<Rightarrow> bytes \<Rightarrow> u32 \<Rightarrow> u32 \<Rightarrow> bytes list" where
  "verify_inputs cb d prf depth idx =
    (0 # d) # (case run_digest cb (0 # d) of Some (Inr h) \<Rightarrow> path_inputs cb prf (unat depth) idx h | _ \<Rightarrow> [])"

lemma verify_path_step:
  "verify_path cb prf (Suc d) idx h = ok r \<longleftrightarrow> 32 \<le> length prf \<and>
    (\<exists>h'. run_digest cb (1 # (if idx mod 2 = 0 then h @ take 32 prf else take 32 prf @ h)) = ok h' \<and>
      verify_path cb (drop 32 prf) d (idx div 2) h' = ok r)"
  by (auto simp: rgtp_internal_hash_def cbind_ok_iff)

lemma verify_path_length: "verify_path cb prf d idx h = ok r \<Longrightarrow> length h = 32 \<Longrightarrow> length r = 32"
proof (induction d arbitrary: "prf" idx h)
  case (Suc d)
  then show ?case unfolding verify_path_step by (auto simp: run_digest_ok)
qed simp

lemma path_binding:
  assumes "verify_path cb p1 d idx h1 = ok r" and "verify_path cb p2 d idx h2 = ok r"
    and "length h1 = 32" and "length h2 = 32"
    and "inj_on (digest cb) (set (path_inputs cb p1 d idx h1) \<union> set (path_inputs cb p2 d idx h2))"
  shows "h1 = h2"
  using assms
proof (induction d arbitrary: p1 p2 idx h1 h2)
  case (Suc d)
  let ?m = "\<lambda>p h. 1 # (if idx mod 2 = 0 then h @ take 32 p else take 32 p @ h) :: bytes"
  obtain g1 g2 where g: "run_digest cb (?m p1 h1) = ok g1" "run_digest cb (?m p2 h2) = ok g2"
      "verify_path cb (drop 32 p1) d (idx div 2) g1 = ok r" "verify_path cb (drop 32 p2) d (idx div 2) g2 = ok r"
      "32 \<le> length p1" "32 \<le> length p2"
    using Suc.prems(1,2) unfolding verify_path_step by blast
  have sub: "set (path_inputs cb p1 (Suc d) idx h1) = insert (?m p1 h1) (set (path_inputs cb (drop 32 p1) d (idx div 2) g1))"
      "set (path_inputs cb p2 (Suc d) idx h2) = insert (?m p2 h2) (set (path_inputs cb (drop 32 p2) d (idx div 2) g2))"
    using g(1,2) by (simp_all add: Let_def)
  have "g1 = g2"
  proof (rule Suc.IH [OF g(3,4)])
    show "inj_on (digest cb) (set (path_inputs cb (drop 32 p1) d (idx div 2) g1)
        \<union> set (path_inputs cb (drop 32 p2) d (idx div 2) g2))"
      by (rule inj_on_subset [OF Suc.prems(5)]) (auto simp only: sub)
  qed (use g(1,2) in \<open>simp_all add: run_digest_ok\<close>)
  then have "digest cb (?m p1 h1) = digest cb (?m p2 h2)" using g(1,2) by (simp add: run_digest_ok)
  then have "?m p1 h1 = ?m p2 h2"
    using inj_onD [OF Suc.prems(5), of "?m p1 h1" "?m p2 h2"] unfolding sub by simp
  then show ?case using Suc.prems(3,4) g(5,6) by (simp split: if_splits)
qed simp

lemma verify_binding:
  assumes "rgtp_merkle_verify cb (Some d1) (Some p1) depth idx (Some rt) = ok ()"
    and "rgtp_merkle_verify cb (Some d2) (Some p2) depth idx (Some rt) = ok ()"
    and "length rt = 32"
    and "inj_on (digest cb) (set (verify_inputs cb d1 p1 depth idx) \<union> set (verify_inputs cb d2 p2 depth idx))"
  shows "d1 = d2"
proof -
  have opened: "\<exists>h. run_digest cb (0 # d) = ok h \<and> verify_path cb p (unat depth) idx h = ok rt"
    if v: "rgtp_merkle_verify cb (Some d) (Some p) depth idx (Some rt) = ok ()" for d p
  proof -
    obtain h h' where h: "run_digest cb (0 # d) = ok h" "verify_path cb p (unat depth) idx h = ok h'" "hash_diff h' rt = 0"
      using v by (auto simp: rgtp_merkle_verify_def leaf_hash_ok cbind_ok_iff split: if_splits)
    moreover have "length h' = 32" using verify_path_length [OF h(2)] h(1) by (simp add: run_digest_ok)
    ultimately show ?thesis using assms(3) by (auto simp: hash_diff_zero)
  qed
  obtain h1 h2 where h: "run_digest cb (0 # d1) = ok h1" "verify_path cb p1 (unat depth) idx h1 = ok rt"
      "run_digest cb (0 # d2) = ok h2" "verify_path cb p2 (unat depth) idx h2 = ok rt"
    using opened [OF assms(1)] opened [OF assms(2)] by blast
  have "h1 = h2"
  proof (rule path_binding [OF h(2,4)])
    show "inj_on (digest cb) (set (path_inputs cb p1 (unat depth) idx h1) \<union> set (path_inputs cb p2 (unat depth) idx h2))"
      by (rule inj_on_subset [OF assms(4)]) (use h(1,3) in \<open>auto simp: verify_inputs_def\<close>)
  qed (use h(1,3) in \<open>simp_all add: run_digest_ok\<close>)
  then have "digest cb (0 # d1) = digest cb (0 # d2)" using h(1,3) by (simp add: run_digest_ok)
  then have "0 # d1 = 0 # d2"
    using inj_onD [OF assms(4), of "0 # d1" "0 # d2"] by (simp add: verify_inputs_def)
  then show ?thesis by simp
qed

subsection \<open>Properties\<close>

text \<open>C11: for 2 to \<open>2 ^ 26\<close> chunks a build succeeds when the allocator and the
  hash backend do, returns one proof per chunk, and every proof verifies against the
  root for its chunk and index.\<close>

theorem merkle_complete:
  assumes "digest_total cb" and "plenty env" and "2 \<le> length cs" and "length cs \<le> 2 ^ 26"
  shows "\<exists>rt proofs depth.
    rgtp_merkle_build cb env (Some (map Some cs)) (word_of_nat (length cs)) True True = ok (rt, Some proofs, depth) \<and>
    length proofs = length cs \<and>
    (\<forall>i. i < length cs \<longrightarrow>
      rgtp_merkle_verify cb (Some (cs ! i)) (Some (proofs ! i)) depth (word_of_nat i) (Some rt) = ok ())"
proof -
  have n: "unat (word_of_nat (length cs) :: u32) = length cs"
    using assms(4) by (simp add: word_of_nat_unat_32)
  obtain rt proofs depth where b: "rgtp_merkle_build cb env (Some (map Some cs)) (word_of_nat (length cs)) True True
      = ok (rt, Some proofs, depth)"
    using build_succeeds [OF assms] by blast
  have "rgtp_merkle_verify cb (Some (cs ! i)) (Some (proofs ! i)) depth (word_of_nat i) (Some rt) = ok ()
      \<and> length proofs = length cs" if "i < length cs" for i
    using build_proofs_verify [OF b] that assms(4) n by simp
  moreover have "0 < length cs" using assms(3) by linarith
  ultimately show ?thesis using b by blast
qed

theorem merkle_complete_witness:
  "\<exists>rt proofs depth.
    rgtp_merkle_build demo_backend
      \<lparr>g_alloc = \<lparr>alloc_fn = None, free_fn_set = False\<rparr>, memory_profile_embedded = False, sys_malloc = (\<lambda>c s. True)\<rparr>
      (Some [Some [1], Some [2], Some [3]]) 3 True True = ok (rt, Some proofs, depth) \<and>
    rgtp_merkle_verify demo_backend (Some [2]) (Some (proofs ! 1)) depth 1 (Some rt) = ok ()"
proof -
  let ?env = "\<lparr>g_alloc = \<lparr>alloc_fn = None, free_fn_set = False\<rparr>, memory_profile_embedded = False, sys_malloc = (\<lambda>c s. True)\<rparr>"
  have "plenty ?env" by (simp add: plenty_def)
  from merkle_complete [OF demo_digest_total this, of "[[1], [2], [3]]"]
  obtain rt proofs depth where
      "rgtp_merkle_build demo_backend ?env (Some [Some [1], Some [2], Some [3]]) 3 True True = ok (rt, Some proofs, depth)"
      "\<forall>i. i < 3 \<longrightarrow> rgtp_merkle_verify demo_backend (Some ([[1], [2], [3]] ! i)) (Some (proofs ! i)) depth (word_of_nat i) (Some rt) = ok ()"
    by auto
  then show ?thesis by (intro exI [of _ rt] exI [of _ proofs] exI [of _ depth]) (auto dest: spec [of _ 1])
qed

text \<open>C13: a root binds the chunk at an index: two different chunks that verify at the
  same index and depth against one root exhibit two different messages with the same
  digest among those that the two verifications hash.\<close>

theorem merkle_binding:
  assumes "rgtp_merkle_verify cb (Some d1) (Some p1) depth idx (Some rt) = ok ()"
    and "rgtp_merkle_verify cb (Some d2) (Some p2) depth idx (Some rt) = ok ()"
    and "length rt = RGTP_MERKLE_HASH_BYTES" and "d1 \<noteq> d2"
  shows "\<exists>m1 m2. m1 \<noteq> m2 \<and> digest cb m1 = digest cb m2 \<and>
    m1 \<in> set (verify_inputs cb d1 p1 depth idx) \<union> set (verify_inputs cb d2 p2 depth idx) \<and>
    m2 \<in> set (verify_inputs cb d1 p1 depth idx) \<union> set (verify_inputs cb d2 p2 depth idx)"
proof -
  have "\<not> inj_on (digest cb) (set (verify_inputs cb d1 p1 depth idx) \<union> set (verify_inputs cb d2 p2 depth idx))"
    using verify_binding [OF assms(1,2)] assms(3,4) by (auto simp: RGTP_MERKLE_HASH_BYTES_def)
  then show ?thesis unfolding inj_on_def by blast
qed

text \<open>The demonstration digest keeps 32 bytes, so it has such collisions.\<close>

theorem merkle_binding_witness:
  "\<exists>m1 m2. m1 \<noteq> m2 \<and> digest demo_backend m1 = digest demo_backend m2"
proof -
  have v: "rgtp_merkle_verify demo_backend (Some (replicate 31 0 @ [b])) (Some []) 0 0 (Some (replicate 32 0)) = ok ()" for b
    by (simp add: rgtp_merkle_verify_def rgtp_leaf_hash_def run_digest_def demo_backend_def RGTP_MERKLE_HASH_BYTES_def
        hash_diff_zero replicate_Suc [symmetric] del: replicate_Suc)
  have "\<exists>m1 m2. m1 \<noteq> m2 \<and> digest demo_backend m1 = digest demo_backend m2 \<and>
    m1 \<in> set (verify_inputs demo_backend (replicate 31 0 @ [1]) [] 0 0)
       \<union> set (verify_inputs demo_backend (replicate 31 0 @ [2]) [] 0 0) \<and>
    m2 \<in> set (verify_inputs demo_backend (replicate 31 0 @ [1]) [] 0 0)
       \<union> set (verify_inputs demo_backend (replicate 31 0 @ [2]) [] 0 0)"
    by (rule merkle_binding [OF v v]) (simp_all add: RGTP_MERKLE_HASH_BYTES_def)
  then show ?thesis by blast
qed

text \<open>A build over a single chunk never returns a proof: its depth is 0, the
  zero-size allocation yields \<^verbatim>\<open>NULL\<close>, and the call reports failure.\<close>

theorem merkle_single_chunk: "rgtp_merkle_build cb env chunks 1 True True \<noteq> ok r"
proof -
  have "next_pow2 1 = 1" "log2_u32 1 = 0" by (simp_all add: next_pow2_def log2_u32.simps)
  then show ?thesis
    by (auto simp: rgtp_merkle_build_def cbind_ok_iff rgtp_malloc_def Let_def split: option.splits if_splits)
qed

end
