(* ===== verification/Rgtp_Replay.thy ===== *)
theory Rgtp_Replay
  imports Rgtp_Prelude
begin

text \<open>
  The anti-replay window of \<^verbatim>\<open>src/transport/rgtp_replay.c\<close>.  Bit
  accesses go through the four 64-bit words as in the code; an index outside them is
  \<open>None\<close>.  The lemmas show that no access is outside, that the base never
  decreases, that a sequence number is never accepted twice in a row, and that for
  exposures of at most 256 chunks the window is exactly the set of the numbers seen.
  Once the window slides by less than its width, it is not: the code clears bits and
  moves the base but does not shift the bitmap.
\<close>

subsection \<open>Bitmap helpers\<close>

definition WINDOW_BITS :: u32 where "WINDOW_BITS = 256"

definition word_get :: "u64 list \<Rightarrow> u32 \<Rightarrow> u64 option" where
  "word_get bm i = (if unat i < length bm then Some (bm ! unat i) else None)"

definition bitmap_set :: "u64 list \<Rightarrow> u32 \<Rightarrow> u64 list option" where
  "bitmap_set bm b = do {
     w \<leftarrow> word_get bm (b div 64);
     Some (bm[unat (b div 64) := w OR push_bit (unat (b mod 64)) 1])}"

definition bitmap_test :: "u64 list \<Rightarrow> u32 \<Rightarrow> bool option" where
  "bitmap_test bm b = do {
     w \<leftarrow> word_get bm (b div 64);
     Some (drop_bit (unat (b mod 64)) w AND 1 \<noteq> 0)}"

definition bitmap_clear :: "u64 list \<Rightarrow> u32 \<Rightarrow> u64 list option" where
  "bitmap_clear bm b = do {
     w \<leftarrow> word_get bm (b div 64);
     Some (bm[unat (b div 64) := w AND NOT (push_bit (unat (b mod 64)) 1)])}"

subsection \<open>The window\<close>

record rgtp_replay_window =
  bitmap :: "u64 list"
  base :: u32

datatype rgtp_replay_result = RGTP_REPLAY_ACCEPT | RGTP_REPLAY_DUPLICATE | RGTP_REPLAY_TOO_OLD

definition rgtp_replay_window_init :: rgtp_replay_window where
  "rgtp_replay_window_init = \<lparr>bitmap = replicate 4 0, base = 0\<rparr>"

text \<open>The loop that clears the bits 0 to \<open>n - 1\<close>.\<close>

fun clear_loop :: "nat \<Rightarrow> u64 list \<Rightarrow> u64 list option" where
  "clear_loop 0 bm = Some bm"
| "clear_loop (Suc n) bm = do {bm' \<leftarrow> clear_loop n bm; bitmap_clear bm' (word_of_nat n mod WINDOW_BITS)}"

text \<open>The window and the offset after the advance.\<close>

definition replay_advance :: "rgtp_replay_window \<Rightarrow> u32 \<Rightarrow> (rgtp_replay_window \<times> u32) option" where
  "replay_advance w seq =
    (let offset = seq - base w in
     if offset \<ge> WINDOW_BITS then
       (let advance = offset - WINDOW_BITS + 1 in
        if advance \<ge> WINDOW_BITS then Some (\<lparr>bitmap = replicate 4 0, base = seq\<rparr>, 0)
        else do {
          bm \<leftarrow> clear_loop (unat advance) (bitmap w);
          Some (\<lparr>bitmap = bm, base = base w + advance\<rparr>, seq - (base w + advance))})
     else Some (w, offset))"

definition rgtp_replay_check_and_set ::
    "rgtp_replay_window \<Rightarrow> u32 \<Rightarrow> (rgtp_replay_result \<times> rgtp_replay_window) option" where
  "rgtp_replay_check_and_set w seq =
    (if seq < base w then Some (RGTP_REPLAY_TOO_OLD, w)
     else do {
       (w', offset) \<leftarrow> replay_advance w seq;
       seen \<leftarrow> bitmap_test (bitmap w') offset;
       if seen then Some (RGTP_REPLAY_DUPLICATE, w')
       else do {
         bm \<leftarrow> bitmap_set (bitmap w') offset;
         Some (RGTP_REPLAY_ACCEPT, w'\<lparr>bitmap := bm\<rparr>)}})"

subsection \<open>Bits of the bitmap\<close>

definition seen_bit :: "u64 list \<Rightarrow> nat \<Rightarrow> bool" where
  "seen_bit bm i \<longleftrightarrow> bit (bm ! (i div 64)) (i mod 64)"

lemma unat_div_mod_64: "unat (b div 64 :: u32) = unat b div 64" "unat (b mod 64 :: u32) = unat b mod 64"
  by (simp_all add: unat_div unat_mod)

lemma test_bit_and_1: "drop_bit n w AND 1 \<noteq> 0 \<longleftrightarrow> bit w n" for w :: u64
  by (simp add: and_one_eq bit_iff_odd_drop_bit odd_iff_mod_2_eq_one)

lemma bitmap_test_eq: "length bm = 4 \<Longrightarrow> unat b < 256 \<Longrightarrow> bitmap_test bm b = Some (seen_bit bm (unat b))"
  by (simp add: bitmap_test_def word_get_def unat_div_mod_64 seen_bit_def test_bit_and_1 less_mult_imp_div_less)

lemma same_cell: "i div 64 = j div 64 \<Longrightarrow> i mod 64 = j mod 64 \<Longrightarrow> i = j" for i j :: nat
  by (metis div_mult_mod_eq)

lemma bitmap_set_eq:
  assumes "length bm = 4" and "unat b < 256"
  obtains bm' where "bitmap_set bm b = Some bm'" "length bm' = 4"
    "\<And>i. i < 256 \<Longrightarrow> seen_bit bm' i \<longleftrightarrow> seen_bit bm i \<or> i = unat b"
proof -
  let ?k = "unat b div 64"
  have k: "?k < 4" using assms(2) by (simp add: less_mult_imp_div_less)
  let ?bm = "bm[?k := bm ! ?k OR push_bit (unat b mod 64) 1]"
  have "seen_bit ?bm i \<longleftrightarrow> seen_bit bm i \<or> i = unat b" for i
    using k assms(1) same_cell [of i "unat b"]
    by (cases "i div 64 = ?k") (auto simp: seen_bit_def bit_or_iff bit_push_bit_iff bit_exp_iff)
  then show thesis
    using k assms(1) by (intro that [of ?bm]) (simp_all add: bitmap_set_def word_get_def unat_div_mod_64)
qed

lemma bitmap_clear_eq:
  assumes "length bm = 4" and "unat b < 256"
  obtains bm' where "bitmap_clear bm b = Some bm'" "length bm' = 4"
    "\<And>i. i < 256 \<Longrightarrow> seen_bit bm' i \<longleftrightarrow> seen_bit bm i \<and> i \<noteq> unat b"
proof -
  let ?k = "unat b div 64"
  have k: "?k < 4" using assms(2) by (simp add: less_mult_imp_div_less)
  let ?bm = "bm[?k := bm ! ?k AND NOT (push_bit (unat b mod 64) 1)]"
  have "seen_bit ?bm i \<longleftrightarrow> seen_bit bm i \<and> i \<noteq> unat b" for i
    using k assms(1) same_cell [of i "unat b"]
    by (cases "i div 64 = ?k") (auto simp: seen_bit_def bit_and_iff bit_not_iff bit_push_bit_iff bit_exp_iff)
  then show thesis
    using k assms(1) by (intro that [of ?bm]) (simp_all add: bitmap_clear_def word_get_def unat_div_mod_64)
qed

lemma unat_mod_window: "n < 256 \<Longrightarrow> unat (word_of_nat n mod WINDOW_BITS) = n"
  by (simp add: WINDOW_BITS_def unat_mod unat_of_nat take_bit_nat_eq_self)

text \<open>The loop clears the first \<open>n\<close> bits and keeps the others in their
  places.\<close>

lemma clear_loop_eq:
  assumes "length bm = 4" and "n \<le> 256"
  obtains bm' where "clear_loop n bm = Some bm'" "length bm' = 4"
    "\<And>i. i < 256 \<Longrightarrow> seen_bit bm' i \<longleftrightarrow> seen_bit bm i \<and> n \<le> i"
  using assms(2)
proof (induction n arbitrary: thesis)
  case 0
  then show ?case using assms(1) by simp
next
  case (Suc n)
  obtain bm1 where bm1: "clear_loop n bm = Some bm1" "length bm1 = 4"
      "\<And>i. i < 256 \<Longrightarrow> seen_bit bm1 i \<longleftrightarrow> seen_bit bm i \<and> n \<le> i"
    using Suc.IH Suc.prems(2) Suc_leD by blast
  have n: "unat (word_of_nat n mod WINDOW_BITS) = n" using Suc.prems(2) by (intro unat_mod_window) simp
  obtain bm2 where bm2: "bitmap_clear bm1 (word_of_nat n mod WINDOW_BITS) = Some bm2" "length bm2 = 4"
      "\<And>i. i < 256 \<Longrightarrow> seen_bit bm2 i \<longleftrightarrow> seen_bit bm1 i \<and> i \<noteq> n"
    using bitmap_clear_eq [OF bm1(2), of "word_of_nat n mod WINDOW_BITS"] Suc.prems(2) unfolding n by auto
  show ?case
    using bm1 bm2 by (intro Suc.prems(1) [of bm2]) auto
qed

subsection \<open>The advance\<close>

lemma replay_advance_ok:
  assumes "length (bitmap w) = 4" and "base w \<le> seq"
  obtains w' where "replay_advance w seq = Some (w', seq - base w')" "length (bitmap w') = 4"
    "base w \<le> base w'" "base w' \<le> seq" "unat (seq - base w') < 256"
proof -
  have off: "unat (seq - base w) = unat seq - unat (base w)"
    using assms(2) by (simp add: unat_sub)
  consider (inside) "\<not> seq - base w \<ge> WINDOW_BITS"
    | (far) "seq - base w \<ge> WINDOW_BITS" "seq - base w - WINDOW_BITS + 1 \<ge> WINDOW_BITS"
    | (slide) "seq - base w \<ge> WINDOW_BITS" "\<not> seq - base w - WINDOW_BITS + 1 \<ge> WINDOW_BITS"
    by blast
  then show thesis
  proof cases
    case inside
    then show ?thesis
      using that [of w] assms by (simp add: replay_advance_def WINDOW_BITS_def word_le_nat_alt Let_def)
  next
    case far
    then show ?thesis
      using that [of "\<lparr>bitmap = replicate 4 0, base = seq\<rparr>"] assms by (simp add: replay_advance_def Let_def)
  next
    case slide
    let ?adv = "seq - base w - WINDOW_BITS + 1"
    have "unat ?adv \<le> 256" using slide(2) by (simp add: WINDOW_BITS_def word_le_nat_alt)
    then obtain bm where bm: "clear_loop (unat ?adv) (bitmap w) = Some bm" "length bm = 4"
      using clear_loop_eq [OF assms(1)] by blast
    have b: "seq - (base w + ?adv) = 255" by (simp add: WINDOW_BITS_def)
    have 256: "256 \<le> unat seq - unat (base w)"
      using slide(1) off by (simp add: WINDOW_BITS_def word_le_nat_alt)
    have adv: "base w + ?adv = seq - 255" by (simp add: WINDOW_BITS_def)
    have "unat (seq - 255) = unat seq - 255"
      using 256 by (simp add: unat_sub word_le_nat_alt)
    then have "base w \<le> base w + ?adv" "base w + ?adv \<le> seq"
      unfolding adv word_le_nat_alt using 256 by simp_all
    then show ?thesis
      using that [of "\<lparr>bitmap = bm, base = base w + ?adv\<rparr>"] slide bm b
      by (simp add: replay_advance_def Let_def WINDOW_BITS_def)
  qed
qed

text \<open>A number at or above the base is tested and set at its offset from the new
  base.\<close>

lemma replay_check_cases:
  assumes "length (bitmap w) = 4" and "base w \<le> seq"
  obtains w' w'' where "replay_advance w seq = Some (w', seq - base w')" "base w \<le> base w'"
    "length (bitmap w'') = 4" "base w'' = base w'" "base w'' \<le> seq" "unat (seq - base w'') < 256"
    "rgtp_replay_check_and_set w seq =
      Some (if seen_bit (bitmap w') (unat (seq - base w')) then RGTP_REPLAY_DUPLICATE else RGTP_REPLAY_ACCEPT, w'')"
    "\<forall>i < 256. seen_bit (bitmap w'') i \<longleftrightarrow> seen_bit (bitmap w') i \<or> i = unat (seq - base w')"
proof -
  obtain w' where w': "replay_advance w seq = Some (w', seq - base w')" "length (bitmap w') = 4"
      "base w \<le> base w'" "base w' \<le> seq" "unat (seq - base w') < 256"
    using replay_advance_ok [OF assms] by blast
  obtain bm where bm: "bitmap_set (bitmap w') (seq - base w') = Some bm" "length bm = 4"
      "\<And>i. i < 256 \<Longrightarrow> seen_bit bm i \<longleftrightarrow> seen_bit (bitmap w') i \<or> i = unat (seq - base w')"
    using bitmap_set_eq [OF w'(2,5)] by blast
  have lt: "\<not> seq < base w" using assms(2) by simp
  show thesis
  proof (cases "seen_bit (bitmap w') (unat (seq - base w'))")
    case True
    with w' lt show ?thesis
      by (intro that [of w' w']) (auto simp: rgtp_replay_check_and_set_def bitmap_test_eq)
  next
    case False
    with w' bm lt show ?thesis
      by (intro that [of w' "w'\<lparr>bitmap := bm\<rparr>"]) (auto simp: rgtp_replay_check_and_set_def bitmap_test_eq)
  qed
qed

lemma replay_check_after:
  assumes "length (bitmap w) = 4" and "base w \<le> seq" and "replay_advance w seq = Some (w', x)"
  obtains v where "length (bitmap v) = 4" "base v = base w'"
    "rgtp_replay_check_and_set w seq =
      Some (if seen_bit (bitmap w') (unat (seq - base w')) then RGTP_REPLAY_DUPLICATE else RGTP_REPLAY_ACCEPT, v)"
    "\<forall>i < 256. seen_bit (bitmap v) i \<longleftrightarrow> seen_bit (bitmap w') i \<or> i = unat (seq - base w')"
proof (rule replay_check_cases [OF assms(1,2)])
  fix u v assume u: "replay_advance w seq = Some (u, seq - base u)" "length (bitmap v) = 4" "base v = base u"
    "rgtp_replay_check_and_set w seq =
      Some (if seen_bit (bitmap u) (unat (seq - base u)) then RGTP_REPLAY_DUPLICATE else RGTP_REPLAY_ACCEPT, v)"
    "\<forall>i < 256. seen_bit (bitmap v) i \<longleftrightarrow> seen_bit (bitmap u) i \<or> i = unat (seq - base u)"
  have "u = w'" using u(1) assms(3) by simp
  with u show thesis by (intro that) simp_all
qed

lemma replay_too_old: "seq < base w \<Longrightarrow> rgtp_replay_check_and_set w seq = Some (RGTP_REPLAY_TOO_OLD, w)"
  by (simp add: rgtp_replay_check_and_set_def)

subsection \<open>Sequences of checks\<close>

text \<open>The state after a check, and the check with its arguments in the order of an operation.\<close>

definition replay_next :: "u32 \<Rightarrow> rgtp_replay_window \<Rightarrow> rgtp_replay_window option" where
  "replay_next seq w = map_option snd (rgtp_replay_check_and_set w seq)"

definition replay_check :: "u32 \<Rightarrow> rgtp_replay_window \<Rightarrow> (rgtp_replay_result \<times> rgtp_replay_window) option" where
  "replay_check seq w = rgtp_replay_check_and_set w seq"

definition replay_inv :: "rgtp_replay_window \<Rightarrow> bool" where
  "replay_inv w \<longleftrightarrow> length (bitmap w) = 4"

lemma replay_init_inv: "replay_inv rgtp_replay_window_init"
  by (simp add: replay_inv_def rgtp_replay_window_init_def)

lemma replay_check_inv:
  assumes "replay_inv w"
  obtains r w' where "rgtp_replay_check_and_set w seq = Some (r, w')" "replay_inv w'" "base w \<le> base w'"
proof (cases "seq < base w")
  case True
  then show thesis using that [OF replay_too_old [OF True]] assms by simp
next
  case False
  then have "base w \<le> seq" by simp
  from replay_check_cases [OF assms [unfolded replay_inv_def] this] show thesis
    using that by (metis replay_inv_def)
qed

interpretation replay: step_system replay_next "\<lambda>_. True" replay_inv
proof
  fix w x assume "replay_inv w"
  then obtain r w' where "rgtp_replay_check_and_set w x = Some (r, w')" "replay_inv w'"
    by (rule replay_check_inv)
  then show "\<exists>w'. replay_next x w = Some w' \<and> replay_inv w'" by (simp add: replay_next_def)
qed

text \<open>A number that was just accepted or reported as a duplicate is a duplicate.\<close>

lemma replay_again:
  assumes "replay_inv w" and "base w \<le> seq" and "rgtp_replay_check_and_set w seq = Some (r, v)"
  shows "rgtp_replay_check_and_set v seq = Some (RGTP_REPLAY_DUPLICATE, v)"
proof -
  obtain w' w'' :: rgtp_replay_window where
    w: "length (bitmap w'') = 4" "base w'' = base w'" "base w'' \<le> seq" "unat (seq - base w'') < 256"
      "rgtp_replay_check_and_set w seq =
        Some (if seen_bit (bitmap w') (unat (seq - base w')) then RGTP_REPLAY_DUPLICATE else RGTP_REPLAY_ACCEPT, w'')"
      "\<forall>i < 256. seen_bit (bitmap w'') i \<longleftrightarrow> seen_bit (bitmap w') i \<or> i = unat (seq - base w')"
    by (rule replay_check_cases [OF assms(1) [unfolded replay_inv_def] assms(2)]) blast
  have n: "v = w''" using w(5) assms(3) by simp
  have "replay_advance w'' seq = Some (w'', seq - base w'')"
    using w(4) by (simp add: replay_advance_def WINDOW_BITS_def word_le_nat_alt Let_def)
  then show ?thesis
    using w n by (simp add: rgtp_replay_check_and_set_def bitmap_test_eq)
qed

subsection \<open>The window as a set\<close>

text \<open>The specification: a number is accepted exactly when it was not seen.\<close>

definition spec_check :: "u32 \<Rightarrow> nat set \<Rightarrow> rgtp_replay_result \<times> nat set" where
  "spec_check s S =
    (if unat s \<in> S then RGTP_REPLAY_DUPLICATE else RGTP_REPLAY_ACCEPT, insert (unat s) S)"

definition window_abs :: "rgtp_replay_window \<Rightarrow> nat set" where
  "window_abs w = {i. i < 256 \<and> seen_bit (bitmap w) i}"

lemma check_refines_set:
  assumes "replay_inv w" and "base w = 0" and "s < WINDOW_BITS"
  obtains w' where "rgtp_replay_check_and_set w s =
      Some (if unat s \<in> window_abs w then RGTP_REPLAY_DUPLICATE else RGTP_REPLAY_ACCEPT, w')"
    "replay_inv w'" "base w' = 0" "window_abs w' = insert (unat s) (window_abs w)"
proof -
  have s: "unat s < 256" using assms(3) by (simp add: WINDOW_BITS_def word_less_nat_alt)
  have adv: "replay_advance w s = Some (w, s)"
    using assms(2,3) leD by (simp add: replay_advance_def Let_def not_le [symmetric])
  have len: "length (bitmap w) = 4" using assms(1) by (simp add: replay_inv_def)
  obtain bm where bm: "bitmap_set (bitmap w) s = Some bm" "length bm = 4"
      "\<And>i. i < 256 \<Longrightarrow> seen_bit bm i \<longleftrightarrow> seen_bit (bitmap w) i \<or> i = unat s"
    using bitmap_set_eq [OF len s] by blast
  show thesis
  proof (cases "unat s \<in> window_abs w")
    case True
    with adv s assms len show ?thesis
      by (intro that [of w]) (auto simp: rgtp_replay_check_and_set_def bitmap_test_eq window_abs_def)
  next
    case False
    with adv s assms len bm show ?thesis
      by (intro that [of "w\<lparr>bitmap := bm\<rparr>"])
        (auto simp: rgtp_replay_check_and_set_def bitmap_test_eq window_abs_def replay_inv_def)
  qed
qed

interpretation window_set: refinement replay_check spec_check window_abs
  "\<lambda>w. replay_inv w \<and> base w = 0" "\<lambda>s. s < WINDOW_BITS"
proof
  fix w s assume w: "replay_inv w \<and> base w = 0" and s: "s < WINDOW_BITS"
  show "\<exists>r w'. replay_check s w = Some (r, w') \<and> (replay_inv w' \<and> base w' = 0) \<and>
      spec_check s (window_abs w) = (r, window_abs w')"
    by (rule check_refines_set [OF conjunct1 [OF w] conjunct2 [OF w] s]) (simp add: replay_check_def spec_check_def)
qed

lemma window_abs_init: "window_abs rgtp_replay_window_init = {}"
proof -
  have "i div 64 < 4" if "i < 256" for i :: nat using that by (simp add: less_mult_imp_div_less)
  then show ?thesis by (auto simp: window_abs_def seen_bit_def rgtp_replay_window_init_def nth_replicate simp del: replicate.simps)
qed

subsection \<open>The slide\<close>

text \<open>The verdict on a number, were it checked next.\<close>

definition is_duplicate :: "rgtp_replay_window \<Rightarrow> u32 \<Rightarrow> bool" where
  "is_duplicate w seq \<longleftrightarrow> map_option fst (rgtp_replay_check_and_set w seq) = Some RGTP_REPLAY_DUPLICATE"

lemma is_duplicate_inside:
  assumes "replay_inv w" and "i < 256" and "unat (base w) + i < 2 ^ 32"
  shows "is_duplicate w (base w + word_of_nat i) \<longleftrightarrow> seen_bit (bitmap w) i"
proof -
  let ?s = "base w + word_of_nat i"
  have len: "length (bitmap w) = 4" using assms(1) by (simp add: replay_inv_def)
  have i: "unat (word_of_nat i :: u32) = i" using assms(2) by (simp add: unat_of_nat take_bit_nat_eq_self)
  have le: "base w \<le> ?s" using assms(3) i by (simp add: word_le_nat_alt unat_word_ariths)
  have "replay_advance w ?s = Some (w, ?s - base w)"
    using assms(2) i by (simp add: replay_advance_def WINDOW_BITS_def word_le_nat_alt Let_def)
  then obtain v where "rgtp_replay_check_and_set w ?s =
      Some (if seen_bit (bitmap w) (unat (?s - base w)) then RGTP_REPLAY_DUPLICATE else RGTP_REPLAY_ACCEPT, v)"
    by (rule replay_check_after [OF len le])
  then show ?thesis using i by (simp add: is_duplicate_def)
qed

lemma slide_advance:
  assumes "0 < adv" and "adv < 256"
  shows "replay_advance w (base w + 255 + word_of_nat adv) =
    map_option (\<lambda>bm. (\<lparr>bitmap = bm, base = base w + word_of_nat adv\<rparr>, 255)) (clear_loop adv (bitmap w))"
proof -
  have adv: "unat (word_of_nat adv :: u32) = adv" using assms(2) by (simp add: unat_of_nat take_bit_nat_eq_self)
  then have "unat (255 + word_of_nat adv :: u32) = 255 + adv" using assms(2) by (simp add: unat_word_ariths)
  then have "WINDOW_BITS \<le> 255 + word_of_nat adv" "\<not> WINDOW_BITS \<le> (word_of_nat adv :: u32)"
    using assms adv by (simp_all add: WINDOW_BITS_def word_le_nat_alt)
  moreover have "base w + 255 + word_of_nat adv - base w = 255 + word_of_nat adv"
    "255 + word_of_nat adv - WINDOW_BITS + 1 = (word_of_nat adv :: u32)" by (simp_all add: WINDOW_BITS_def)
  ultimately show ?thesis
    using adv by (cases "clear_loop adv (bitmap w)") (simp_all add: replay_advance_def Let_def)
qed

subsection \<open>Properties\<close>

text \<open>C20: for exposures of at most 256 chunks the window implements the set of the
  numbers seen: over any sequence of checks a number is accepted exactly the first
  time it appears.\<close>

theorem replay_refines_set:
  assumes "list_all (\<lambda>s. s < WINDOW_BITS) ss"
  shows "run_outputs replay_check ss rgtp_replay_window_init = Some (spec_outputs spec_check ss {})"
  using window_set.outputs_refine [OF _ assms] replay_init_inv window_abs_init
  by (simp add: rgtp_replay_window_init_def)

theorem replay_refines_set_witness:
  "run_outputs replay_check [3, 255, 3] rgtp_replay_window_init =
    Some [RGTP_REPLAY_ACCEPT, RGTP_REPLAY_ACCEPT, RGTP_REPLAY_DUPLICATE]"
proof -
  have "run_outputs replay_check [3, 255, 3] rgtp_replay_window_init = Some (spec_outputs spec_check [3, 255, 3] {})"
    by (rule replay_refines_set) (simp add: WINDOW_BITS_def)
  then show ?thesis by (simp add: spec_check_def)
qed

text \<open>C21: after any sequence of checks, every bitmap access is in bounds, the base has
  not decreased, and checking one number twice in a row never accepts it the second
  time.\<close>

theorem replay_invariant:
  "\<exists>w r w'. run_steps replay_next ss rgtp_replay_window_init = Some w \<and>
    rgtp_replay_check_and_set w seq = Some (r, w') \<and> base w \<le> base w' \<and>
    (\<exists>r'. rgtp_replay_check_and_set w' seq = Some (r', w') \<and> r' \<noteq> RGTP_REPLAY_ACCEPT)"
proof -
  obtain w where w: "run_steps replay_next ss rgtp_replay_window_init = Some w" "replay_inv w"
    using replay.run_inv [OF replay_init_inv, of ss] by (auto simp: list_all_iff)
  obtain r w' where r: "rgtp_replay_check_and_set w seq = Some (r, w')" "base w \<le> base w'"
    using replay_check_inv [OF w(2)] by blast
  have "\<exists>r'. rgtp_replay_check_and_set w' seq = Some (r', w') \<and> r' \<noteq> RGTP_REPLAY_ACCEPT"
  proof (cases "seq < base w")
    case True
    with r replay_too_old [OF True] show ?thesis by auto
  next
    case False
    with replay_again [OF w(2) _ r(1)] show ?thesis by auto
  qed
  with w r show ?thesis by blast
qed



end
