(* ===== verification/Rgtp_Float.thy ===== *)
theory Rgtp_Float
  imports Rgtp_Prelude "HOL-Library.Log_Nat"
begin

text \<open>
  Binary floating point for the C types \<^verbatim>\<open>float\<close> and
  \<^verbatim>\<open>double\<close>: every operation is the exact rational result
  rounded to nearest, ties to even, with gradual underflow and overflow to infinity
  (IEEE 754 as C implementations provide it with
  \<^verbatim>\<open>FLT_EVAL_METHOD\<close> 0).  The sign of zero is not represented:
  nothing in the modelled code observes it.  The main facts are that rounding keeps
  every representable bound and is the identity on representable numbers.
\<close>

subsection \<open>Rounding\<close>

abbreviation p2 :: "int \<Rightarrow> rat" where "p2 k \<equiv> 2 powi k"

text \<open>The binary exponent of a positive rational.\<close>

definition ilog :: "rat \<Rightarrow> int" where
  "ilog x =
    (let (n, d) = quotient_of x; k = int (floorlog 2 (nat n)) - int (floorlog 2 (nat d))
     in if p2 k \<le> x then k else k - 1)"

text \<open>Rounding to the nearest integer, ties to even.\<close>

definition rne :: "rat \<Rightarrow> int" where
  "rne x =
    (let f = \<lfloor>x\<rfloor>; r = x - of_int f in
     if r < 1 / 2 then f else if r > 1 / 2 then f + 1 else if even f then f else f + 1)"

record float_format =
  precision :: nat
  min_exp :: int
  max_exp :: int

definition f32 :: float_format where "f32 = \<lparr>precision = 24, min_exp = -149, max_exp = 128\<rparr>"
definition f64 :: float_format where "f64 = \<lparr>precision = 53, min_exp = -1074, max_exp = 1024\<rparr>"

definition ulp_exp :: "float_format \<Rightarrow> rat \<Rightarrow> int" where
  "ulp_exp fmt x = max (ilog \<bar>x\<bar> - int (precision fmt) + 1) (min_exp fmt)"

definition rnd :: "float_format \<Rightarrow> rat \<Rightarrow> rat" where
  "rnd fmt x = (if x = 0 then 0 else of_int (rne (x / p2 (ulp_exp fmt x))) * p2 (ulp_exp fmt x))"

subsection \<open>Values and operations\<close>

datatype flt = Fin rat | PInf | NInf | NaN

definition to_flt :: "float_format \<Rightarrow> rat \<Rightarrow> flt" where
  "to_flt fmt x =
    (let r = rnd fmt x in
     if r \<ge> p2 (max_exp fmt) then PInf else if r \<le> - p2 (max_exp fmt) then NInf else Fin r)"

fun f_neg :: "flt \<Rightarrow> flt" where
  "f_neg (Fin x) = Fin (- x)"
| "f_neg PInf = NInf"
| "f_neg NInf = PInf"
| "f_neg NaN = NaN"

fun f_add :: "float_format \<Rightarrow> flt \<Rightarrow> flt \<Rightarrow> flt" where
  "f_add fmt (Fin x) (Fin y) = to_flt fmt (x + y)"
| "f_add fmt NaN b = NaN"
| "f_add fmt a NaN = NaN"
| "f_add fmt PInf NInf = NaN"
| "f_add fmt NInf PInf = NaN"
| "f_add fmt PInf b = PInf"
| "f_add fmt NInf b = NInf"
| "f_add fmt a PInf = PInf"
| "f_add fmt a NInf = NInf"

definition f_sub :: "float_format \<Rightarrow> flt \<Rightarrow> flt \<Rightarrow> flt" where
  "f_sub fmt a b = f_add fmt a (f_neg b)"

definition inf_sign :: "rat \<Rightarrow> flt \<Rightarrow> flt" where
  "inf_sign x i = (if x = 0 then NaN else if x > 0 then i else f_neg i)"

fun f_mul :: "float_format \<Rightarrow> flt \<Rightarrow> flt \<Rightarrow> flt" where
  "f_mul fmt (Fin x) (Fin y) = to_flt fmt (x * y)"
| "f_mul fmt NaN b = NaN"
| "f_mul fmt a NaN = NaN"
| "f_mul fmt (Fin x) b = inf_sign x b"
| "f_mul fmt a (Fin y) = inf_sign y a"
| "f_mul fmt PInf b = b"
| "f_mul fmt NInf b = f_neg b"

fun f_div :: "float_format \<Rightarrow> flt \<Rightarrow> flt \<Rightarrow> flt" where
  "f_div fmt (Fin x) (Fin y) = (if y = 0 then inf_sign x PInf else to_flt fmt (x / y))"
| "f_div fmt NaN b = NaN"
| "f_div fmt a NaN = NaN"
| "f_div fmt (Fin x) b = Fin 0"
| "f_div fmt a (Fin y) = (if y \<ge> 0 then a else f_neg a)"
| "f_div fmt a b = NaN"

fun f_lt :: "flt \<Rightarrow> flt \<Rightarrow> bool" where
  "f_lt (Fin x) (Fin y) = (x < y)"
| "f_lt NaN b = False"
| "f_lt a NaN = False"
| "f_lt PInf b = False"
| "f_lt a NInf = False"
| "f_lt a b = True"

definition f_le :: "flt \<Rightarrow> flt \<Rightarrow> bool" where
  "f_le a b \<longleftrightarrow> f_lt a b \<or> (a = b \<and> a \<noteq> NaN)"

text \<open>Conversion of an unsigned integer, and the truncating conversion back to
  \<^verbatim>\<open>uint32_t\<close>, undefined out of range.\<close>

definition flt_of_nat :: "float_format \<Rightarrow> nat \<Rightarrow> flt" where
  "flt_of_nat fmt n = to_flt fmt (of_nat n)"

definition trunc :: "rat \<Rightarrow> int" where
  "trunc x = (if x \<ge> 0 then \<lfloor>x\<rfloor> else \<lceil>x\<rceil>)"

fun flt_to_u32 :: "flt \<Rightarrow> u32 option" where
  "flt_to_u32 (Fin x) = (if 0 \<le> trunc x \<and> trunc x < 2 ^ 32 then Some (word_of_int (trunc x)) else None)"
| "flt_to_u32 _ = None"

subsection \<open>Powers of two\<close>

lemma p2_pos [simp]: "0 < p2 k" by simp

lemma p2_add: "p2 (a + b) = p2 a * p2 b"
  by (simp add: power_int_add)

lemma p2_le_iff: "p2 a \<le> p2 b \<longleftrightarrow> a \<le> b"
proof
  assume "p2 a \<le> p2 b"
  then show "a \<le> b" using power_int_strict_increasing [of b a "2::rat"] by (cases "a \<le> b") simp_all
next
  assume "a \<le> b"
  then show "p2 a \<le> p2 b" by (rule power_int_increasing) simp_all
qed

lemma p2_div: "p2 a / p2 b = p2 (a - b)"
  by (simp add: power_int_diff)

lemma p2_nonneg_int: "0 \<le> k \<Longrightarrow> p2 k = of_int (2 ^ nat k)"
  by (simp add: power_int_def)

lemma p2_of_nat: "p2 (int n) = 2 ^ n" by simp

lemma floorlog_p2:
  assumes "0 < n"
  shows "p2 (int (floorlog 2 (nat n)) - 1) \<le> of_int n" and "of_int n < p2 (int (floorlog 2 (nat n)))"
proof -
  define l where "l = floorlog 2 (nat n)"
  have "0 < nat n" using assms by simp
  then have b: "2 ^ (l - 1) \<le> nat n" "nat n < 2 ^ l" and pos: "0 < l"
    using floorlog_bounds [of "nat n" 2] by (simp_all add: l_def floorlog_def)
  have n: "of_int n = (of_nat (nat n) :: rat)" using assms by simp
  have "p2 (int l - 1) = of_nat (2 ^ (l - 1))" using pos p2_of_nat [of "l - 1"] by (simp add: of_nat_diff)
  also have "\<dots> \<le> of_nat (nat n)" using b(1) by (simp only: of_nat_le_iff)
  finally show "p2 (int (floorlog 2 (nat n)) - 1) \<le> of_int n" by (simp only: n l_def)
  have "of_nat (nat n) < (of_nat (2 ^ l) :: rat)" using b(2) by (simp only: of_nat_less_iff)
  then show "of_int n < p2 (int (floorlog 2 (nat n)))" unfolding n l_def [symmetric] by simp
qed

lemma ilog_bounds:
  assumes "0 < x"
  shows "p2 (ilog x) \<le> x" and "x < p2 (ilog x + 1)"
proof -
  obtain n d where q: "quotient_of x = (n, d)" by fastforce
  have d: "0 < d" using q by (rule quotient_of_denom_pos)
  have x: "x = of_int n / of_int d" using q by (rule quotient_of_div)
  have n: "0 < n" using assms d x by (simp add: zero_less_divide_iff)
  let ?a = "int (floorlog 2 (nat n))" and ?b = "int (floorlog 2 (nat d))"
  have "x < p2 ?a / of_int d"
    using floorlog_p2(2) [OF n] d by (simp add: x divide_strict_right_mono)
  also have "\<dots> \<le> p2 ?a / p2 (?b - 1)"
    using floorlog_p2(1) [OF d] d by (intro divide_left_mono) simp_all
  also have "\<dots> = p2 (?a - ?b + 1)" unfolding p2_div by (rule arg_cong [of _ _ p2]) simp
  finally have up: "x < p2 (?a - ?b + 1)" .
  have "p2 (?a - ?b - 1) = p2 (?a - 1) / p2 ?b" unfolding p2_div by (rule arg_cong [of _ _ p2]) simp
  also have "\<dots> \<le> of_int n / p2 ?b" using floorlog_p2(1) [OF n] by (intro divide_right_mono) simp_all
  also have "\<dots> \<le> x"
    unfolding x using floorlog_p2(2) [OF d] d n by (intro divide_left_mono) simp_all
  finally have low: "p2 (?a - ?b - 1) \<le> x" .
  show "p2 (ilog x) \<le> x" "x < p2 (ilog x + 1)"
    using up low by (simp_all add: ilog_def q Let_def)
qed

subsection \<open>Rounding keeps representable bounds\<close>

lemma rne_le: "x \<le> of_int j \<Longrightarrow> rne x \<le> j"
proof -
  assume x: "x \<le> of_int j"
  have f: "\<lfloor>x\<rfloor> \<le> j" using floor_mono [OF x] by simp
  show ?thesis
  proof (cases "\<lfloor>x\<rfloor> = j")
    case True
    with x have "x = of_int j" using of_int_floor_le [of x] by simp
    then show ?thesis by (simp add: rne_def)
  next
    case False
    with f show ?thesis by (simp add: rne_def Let_def)
  qed
qed

lemma rne_ge: "of_int j \<le> x \<Longrightarrow> j \<le> rne x"
  using floor_mono [of "of_int j" x] by (simp add: rne_def Let_def)

definition representable :: "float_format \<Rightarrow> rat \<Rightarrow> bool" where
  "representable fmt y \<longleftrightarrow> (\<exists>m k. y = of_int m * p2 k \<and> \<bar>m\<bar> \<le> 2 ^ precision fmt \<and> min_exp fmt \<le> k)"

lemma representableI:
  "y = of_int m * p2 k \<Longrightarrow> \<bar>m\<bar> \<le> 2 ^ precision fmt \<Longrightarrow> min_exp fmt \<le> k \<Longrightarrow> representable fmt y"
  unfolding representable_def by blast

lemma representable_minus: "representable fmt y \<Longrightarrow> representable fmt (- y)"
  unfolding representable_def by (metis abs_minus_cancel minus_mult_left of_int_minus)

text \<open>A positive representable number is a multiple of the unit in the last place of
  \<open>x\<close>, or it is at most the power of two below \<open>x\<close>, which is.\<close>

lemma representable_grid:
  assumes "representable fmt b" and "0 < x" and "0 < precision fmt"
  obtains (grid) j where "b = of_int j * p2 (ulp_exp fmt x)"
    | (low) j where "b \<le> p2 (ilog x)" "p2 (ilog x) = of_int j * p2 (ulp_exp fmt x)"
proof -
  obtain m k where b: "b = of_int m * p2 k" "\<bar>m\<bar> \<le> 2 ^ precision fmt" "min_exp fmt \<le> k"
    using assms(1) by (auto simp: representable_def)
  let ?q = "ulp_exp fmt x"
  show thesis
  proof (cases "?q \<le> k")
    case True
    have "p2 k = p2 (k - ?q) * p2 ?q" by (simp add: p2_add [symmetric])
    also have "p2 (k - ?q) = of_int (2 ^ nat (k - ?q))" using True by (intro p2_nonneg_int) simp
    finally have "b = of_int (m * 2 ^ nat (k - ?q)) * p2 ?q" by (simp add: b(1))
    then show thesis by (rule grid)
  next
    case False
    with b(3) have q: "?q = ilog x - int (precision fmt) + 1"
      using assms(2) by (auto simp: ulp_exp_def max_def split: if_splits)
    have "b \<le> of_int (2 ^ precision fmt) * p2 k"
      unfolding b(1) using b(2) by (intro mult_right_mono) (simp_all only: of_int_le_iff, auto)
    also have "\<dots> = p2 (int (precision fmt) + k)" by (simp add: p2_add)
    also have "\<dots> \<le> p2 (ilog x)" using False q by (simp add: p2_le_iff)
    finally have "b \<le> p2 (ilog x)" .
    moreover have "p2 (ilog x) = p2 (int (precision fmt) - 1) * p2 ?q" by (simp add: p2_add [symmetric] q)
    then have "p2 (ilog x) = of_int (2 ^ nat (int (precision fmt) - 1)) * p2 ?q"
      using p2_nonneg_int [of "int (precision fmt) - 1"] assms(3) by simp
    ultimately show thesis by (rule low)
  qed
qed

lemma rnd_pos_bounds:
  assumes "representable fmt b" and "0 < x" and "0 < precision fmt"
  shows "x \<le> b \<Longrightarrow> rnd fmt x \<le> b" and "b \<le> x \<Longrightarrow> b \<le> rnd fmt x"
proof -
  let ?u = "p2 (ulp_exp fmt x)"
  have r: "rnd fmt x = of_int (rne (x / ?u)) * ?u" using assms(2) by (simp add: rnd_def)
  have up: "rnd fmt x \<le> of_int j * ?u" if "x \<le> of_int j * ?u" for j
    using rne_le [of "x / ?u" j] that by (simp add: r divide_le_eq)
  have dn: "of_int j * ?u \<le> rnd fmt x" if "of_int j * ?u \<le> x" for j
    using rne_ge [of j "x / ?u"] that by (simp add: r le_divide_eq)
  show "rnd fmt x \<le> b" if "x \<le> b"
    using assms
  proof (cases rule: representable_grid)
    case (low j)
    with that ilog_bounds(1) [OF assms(2)] have "b = x" "x = of_int j * ?u" by simp_all
    with up [of j] show ?thesis by simp
  qed (use that up in simp)
  show "b \<le> rnd fmt x" if "b \<le> x"
    using assms
  proof (cases rule: representable_grid)
    case (low j)
    with ilog_bounds(1) [OF assms(2)] dn [of j] show ?thesis by auto
  qed (use that dn in simp)
qed

lemma rne_minus: "rne (- x) = - rne x"
proof (cases "x = of_int \<lfloor>x\<rfloor>")
  case True
  then obtain k where "x = of_int k" by blast
  then show ?thesis by (simp add: rne_def)
next
  case False
  have c: "\<lfloor>- x\<rfloor> = - \<lfloor>x\<rfloor> - 1"
    using False by (simp add: floor_minus ceiling_altdef)
  show ?thesis unfolding rne_def Let_def c by (auto simp: algebra_simps)
qed

lemma rnd_minus: "rnd fmt (- x) = - rnd fmt x"
  by (simp add: rnd_def ulp_exp_def rne_minus)

lemma rnd_le:
  assumes "representable fmt b" and "x \<le> b" and "0 < precision fmt"
  shows "rnd fmt x \<le> b"
proof (cases "x < 0")
  case True
  then show ?thesis
    using rnd_pos_bounds(2) [OF representable_minus [OF assms(1)], of "- x"] assms(2,3) by (simp add: rnd_minus)
next
  case False
  then show ?thesis
    using rnd_pos_bounds(1) [OF assms(1), of x] assms(2,3) by (cases "x = 0") (auto simp: rnd_def)
qed

lemma rnd_ge:
  assumes "representable fmt a" and "a \<le> x" and "0 < precision fmt"
  shows "a \<le> rnd fmt x"
  using rnd_le [OF representable_minus [OF assms(1)], of "- x"] assms(2,3) by (simp add: rnd_minus)

lemma rnd_exact: "representable fmt x \<Longrightarrow> 0 < precision fmt \<Longrightarrow> rnd fmt x = x"
  by (intro antisym rnd_le rnd_ge) simp_all

text \<open>A result between two representable bounds below the overflow threshold is finite
  and stays between them.\<close>

lemma to_flt_between:
  assumes "representable fmt a" and "representable fmt b" and "a \<le> x" and "x \<le> b"
    and "0 < precision fmt" and "- p2 (max_exp fmt) < a" and "b < p2 (max_exp fmt)"
  obtains y where "to_flt fmt x = Fin y" "a \<le> y" "y \<le> b"
  using that [of "rnd fmt x"] rnd_le [OF assms(2,4,5)] rnd_ge [OF assms(1,3,5)] assms(6,7)
  by (simp add: to_flt_def Let_def)

lemma to_flt_exact:
  assumes "representable fmt x" and "0 < precision fmt" and "\<bar>x\<bar> < p2 (max_exp fmt)"
  shows "to_flt fmt x = Fin x"
  using assms(3) by (simp add: to_flt_def rnd_exact [OF assms(1,2)] Let_def abs_less_iff)

end
