(* ===== verification/Rgtp_Flow.thy ===== *)
theory Rgtp_Flow
  imports Rgtp_Float
begin

text \<open>
  Flow control of \<^verbatim>\<open>src/transport/rgtp_flow.c\<close>: the round-trip
  estimator, the additive-increase window and the adaptive parity overhead, with the
  \<^verbatim>\<open>float\<close> arithmetic rounded step by step.  The conversion of the
  estimate back to \<^verbatim>\<open>uint32_t\<close> is undefined out of range, so the
  operation that does it returns an option.  The lemmas show that no step is undefined
  and that every field stays in its documented range for samples up to
  \<open>2 ^ 31\<close> microseconds and loss samples that are numbers.
\<close>

subsection \<open>State and operations\<close>

definition EWMA_ALPHA :: flt where "EWMA_ALPHA = to_flt f32 (1 / 8)"
definition EWMA_ALPHA_LOSS :: flt where "EWMA_ALPHA_LOSS = to_flt f32 (1 / 8)"
definition CONGESTION_RATIO :: flt where "CONGESTION_RATIO = to_flt f32 2"
definition RECOVERY_RATIO :: flt where "RECOVERY_RATIO = to_flt f32 (11 / 10)"
definition RECOVERY_PERIODS :: u32 where "RECOVERY_PERIODS = 5"
definition PULL_WINDOW_US :: u64 where "PULL_WINDOW_US = 100000"

record rgtp_flow =
  rtt_us :: u32
  rtt_baseline_us :: u32
  rtt_sample_count :: u32
  window_size :: u32
  window_min :: u32
  window_max :: u32
  consecutive_low_rtt :: u32
  loss_rate :: flt
  fec_overhead :: flt
  pull_pressure :: u32
  pull_pressure_window_start_us :: u64
  pull_pressure_count :: u32

definition rgtp_flow_init :: "u32 \<Rightarrow> rgtp_flow" where
  "rgtp_flow_init initial_window = \<lparr>
     rtt_us = 0, rtt_baseline_us = 0, rtt_sample_count = 0,
     window_size = (if initial_window > 0 then initial_window else 64),
     window_min = 1, window_max = 65536, consecutive_low_rtt = 0,
     loss_rate = Fin 0, fec_overhead = Fin 0,
     pull_pressure = 0, pull_pressure_window_start_us = 0, pull_pressure_count = 0\<rparr>"

definition rgtp_flow_on_congestion :: "rgtp_flow \<Rightarrow> rgtp_flow" where
  "rgtp_flow_on_congestion f =
    (let new_window = window_size f div 2;
         new_window = (if new_window < window_min f then window_min f else new_window)
     in f\<lparr>window_size := new_window, consecutive_low_rtt := 0\<rparr>)"

definition rgtp_flow_on_ack :: "rgtp_flow \<Rightarrow> rgtp_flow" where
  "rgtp_flow_on_ack f =
    (let new_window = window_size f + 1;
         new_window = (if new_window > window_max f then window_max f else new_window)
     in f\<lparr>window_size := new_window\<rparr>)"

definition flt_of_u32 :: "u32 \<Rightarrow> flt" where
  "flt_of_u32 w = flt_of_nat f32 (unat w)"

text \<open>The moving average of the round-trip time.\<close>

definition ewma_rtt :: "u32 \<Rightarrow> u32 \<Rightarrow> u32 option" where
  "ewma_rtt old sample_us =
    flt_to_u32 (f_add f32 (f_mul f32 (f_sub f32 (Fin 1) EWMA_ALPHA) (flt_of_u32 old))
      (f_mul f32 EWMA_ALPHA (flt_of_u32 sample_us)))"

text \<open>The reaction to the ratio of the estimate to the baseline.\<close>

definition flow_react :: "rgtp_flow \<Rightarrow> rgtp_flow" where
  "flow_react f =
    (if rtt_baseline_us f > 0 then
       (let ratio = f_div f32 (flt_of_u32 (rtt_us f)) (flt_of_u32 (rtt_baseline_us f)) in
        if f_lt CONGESTION_RATIO ratio then rgtp_flow_on_congestion f
        else if f_le ratio RECOVERY_RATIO then
          (let f = f\<lparr>consecutive_low_rtt := consecutive_low_rtt f + 1\<rparr> in
           if consecutive_low_rtt f \<ge> RECOVERY_PERIODS
           then (rgtp_flow_on_ack f)\<lparr>consecutive_low_rtt := 0\<rparr> else f)
        else f\<lparr>consecutive_low_rtt := 0\<rparr>)
     else f)"

definition rgtp_flow_update_rtt :: "rgtp_flow \<Rightarrow> u32 \<Rightarrow> rgtp_flow option" where
  "rgtp_flow_update_rtt f sample_us =
    (if sample_us = 0 then Some f
     else do {
       f' \<leftarrow> (if rtt_sample_count f = 0 then Some (f\<lparr>rtt_us := sample_us, rtt_baseline_us := sample_us\<rparr>)
         else do {
           r \<leftarrow> ewma_rtt (rtt_us f) sample_us;
           Some (f\<lparr>rtt_us := r, rtt_baseline_us := (if r < rtt_baseline_us f then r else rtt_baseline_us f)\<rparr>)});
       Some (flow_react (f'\<lparr>rtt_sample_count := rtt_sample_count f' + 1\<rparr>))})"

definition rgtp_flow_update_loss :: "rgtp_flow \<Rightarrow> flt \<Rightarrow> rgtp_flow" where
  "rgtp_flow_update_loss f loss_sample =
    (let loss_sample = (if f_lt loss_sample (Fin 0) then Fin 0 else loss_sample);
         loss_sample = (if f_lt (Fin 1) loss_sample then Fin 1 else loss_sample)
     in f\<lparr>loss_rate := f_add f32 (f_mul f32 (f_sub f32 (Fin 1) EWMA_ALPHA_LOSS) (loss_rate f))
                       (f_mul f32 EWMA_ALPHA_LOSS loss_sample)\<rparr>)"

definition rgtp_flow_update_fec :: "rgtp_flow \<Rightarrow> rgtp_flow" where
  "rgtp_flow_update_fec f =
    (if f_lt (to_flt f32 (5 / 100)) (loss_rate f) then
       (let v = f_add f32 (fec_overhead f) (to_flt f32 (10 / 100))
        in f\<lparr>fec_overhead := (if f_lt (to_flt f32 (50 / 100)) v then to_flt f32 (50 / 100) else v)\<rparr>)
     else if f_lt (loss_rate f) (to_flt f32 (1 / 100)) then
       (let v = f_sub f32 (fec_overhead f) (to_flt f32 (5 / 100))
        in f\<lparr>fec_overhead := (if f_lt v (Fin 0) then Fin 0 else v)\<rparr>)
     else f)"

definition rgtp_flow_record_pull :: "rgtp_flow \<Rightarrow> u64 \<Rightarrow> rgtp_flow" where
  "rgtp_flow_record_pull f now_us =
    (let f = (if now_us - pull_pressure_window_start_us f \<ge> PULL_WINDOW_US
        then f\<lparr>pull_pressure := pull_pressure_count f, pull_pressure_count := 0,
               pull_pressure_window_start_us := now_us\<rparr>
        else f)
     in f\<lparr>pull_pressure_count := pull_pressure_count f + 1\<rparr>)"

subsection \<open>Constants and representable bounds\<close>

lemma f32_simps [simp]: "precision f32 = 24" "min_exp f32 = -149" "max_exp f32 = 128"
  by (simp_all add: f32_def)

lemma f32_rep: "y = of_int m * p2 k \<Longrightarrow> \<bar>m\<bar> \<le> 16777216 \<Longrightarrow> -149 \<le> k \<Longrightarrow> representable f32 y"
  by (rule representableI) simp_all

lemma f32_p2: "-149 \<le> k \<Longrightarrow> representable f32 (p2 k)"
  by (rule f32_rep [of _ 1 k]) simp_all

lemma f32_sixteenths: "\<bar>m\<bar> \<le> 16777216 \<Longrightarrow> representable f32 (of_int m / 16)"
  by (rule f32_rep [of _ m "-4"]) (simp_all add: power_int_def power_divide)

lemma f32_32nds: "\<bar>m\<bar> \<le> 16777216 \<Longrightarrow> representable f32 (of_int m / 32)"
  by (rule f32_rep [of _ m "-5"]) (simp_all add: power_int_def power_divide)

lemma f32_int: "\<bar>m\<bar> \<le> 16777216 \<Longrightarrow> representable f32 (of_int m)"
  by (rule f32_rep [of _ m 0]) simp_all

lemma f32_between:
  assumes "representable f32 a" and "representable f32 b" and "a \<le> x" and "x \<le> b" and "-1000000000000 \<le> a" and "b \<le> 1000000000000"
  obtains y where "to_flt f32 x = Fin y" "a \<le> y" "y \<le> b"
proof (rule to_flt_between [OF assms(1-4)])
  have "(1000000000000 :: rat) < p2 128" by simp
  then show "- p2 (max_exp f32) < a" "b < p2 (max_exp f32)" using assms(5,6) by simp_all
qed (use that in simp_all)

lemma f32_exact: "representable f32 x \<Longrightarrow> \<bar>x\<bar> \<le> 1000000000000 \<Longrightarrow> to_flt f32 x = Fin x"
  by (rule f32_between [of x x x]) (auto simp: abs_le_iff)

lemma flow_constants [simp]:
  "EWMA_ALPHA = Fin (1 / 8)" "EWMA_ALPHA_LOSS = Fin (1 / 8)" "CONGESTION_RATIO = Fin 2"
  "f_sub f32 (Fin 1) (Fin (1 / 8)) = Fin (7 / 8)" "to_flt f32 (1 / 2) = Fin (1 / 2)"
  using f32_exact [OF f32_sixteenths [of 2]] f32_exact [OF f32_sixteenths [of 14]]
    f32_exact [OF f32_sixteenths [of 8]] f32_exact [OF f32_int [of 2]]
  by (simp_all add: EWMA_ALPHA_def EWMA_ALPHA_LOSS_def CONGESTION_RATIO_def f_sub_def)

text \<open>The weighted mean of two numbers in a range with suitable bounds.\<close>

lemma ewma_between:
  assumes "a \<le> x" "x \<le> b" "a \<le> y" "y \<le> b" and "0 \<le> a" "b \<le> 10000000000"
    and "representable f32 a" "representable f32 b" "representable f32 (7 / 8 * a)" "representable f32 (7 / 8 * b)"
      "representable f32 (1 / 8 * a)" "representable f32 (1 / 8 * b)"
  obtains z where "f_add f32 (f_mul f32 (Fin (7 / 8)) (Fin x)) (f_mul f32 (Fin (1 / 8)) (Fin y)) = Fin z"
    "a \<le> z" "z \<le> b"
proof -
  obtain u where u: "to_flt f32 (7 / 8 * x) = Fin u" "7 / 8 * a \<le> u" "u \<le> 7 / 8 * b"
    using f32_between [OF assms(9,10), of "7 / 8 * x"] assms by auto
  obtain v where v: "to_flt f32 (1 / 8 * y) = Fin v" "1 / 8 * a \<le> v" "v \<le> 1 / 8 * b"
    using f32_between [OF assms(11,12), of "1 / 8 * y"] assms by auto
  have uv: "a \<le> u + v" "u + v \<le> b" using u(2,3) v(2,3) by simp_all
  obtain z where "to_flt f32 (u + v) = Fin z" "a \<le> z" "z \<le> b"
    using f32_between [OF assms(7,8) uv] assms(5,6) by auto
  then show thesis using u(1) v(1) by (intro that) simp_all
qed

subsection \<open>The invariant\<close>

definition in_range :: "flt \<Rightarrow> rat \<Rightarrow> rat \<Rightarrow> bool" where
  "in_range v a b \<longleftrightarrow> (case v of Fin x \<Rightarrow> a \<le> x \<and> x \<le> b | _ \<Rightarrow> False)"

lemma in_rangeE: "in_range v a b \<Longrightarrow> (\<And>x. v = Fin x \<Longrightarrow> a \<le> x \<Longrightarrow> x \<le> b \<Longrightarrow> thesis) \<Longrightarrow> thesis"
  by (cases v) (simp_all add: in_range_def)

definition flow_inv :: "rgtp_flow \<Rightarrow> bool" where
  "flow_inv f \<longleftrightarrow>
    window_min f = 1 \<and> window_max f = 65536 \<and> 1 \<le> window_size f \<and> window_size f \<le> 65536 \<and>
    consecutive_low_rtt f < 5 \<and> in_range (loss_rate f) 0 1 \<and> in_range (fec_overhead f) 0 (1 / 2) \<and>
    (rtt_sample_count f \<noteq> 0 \<longrightarrow> 1 \<le> rtt_us f \<and> rtt_us f \<le> 2 ^ 31 \<and>
      1 \<le> rtt_baseline_us f \<and> rtt_baseline_us f \<le> 2 ^ 31)"

datatype flow_op = UpdateRtt u32 | UpdateLoss flt | OnCongestion | OnAck | UpdateFec | RecordPull u64

fun flow_step :: "flow_op \<Rightarrow> rgtp_flow \<Rightarrow> rgtp_flow option" where
  "flow_step (UpdateRtt s) f = rgtp_flow_update_rtt f s"
| "flow_step (UpdateLoss l) f = Some (rgtp_flow_update_loss f l)"
| "flow_step OnCongestion f = Some (rgtp_flow_on_congestion f)"
| "flow_step OnAck f = Some (rgtp_flow_on_ack f)"
| "flow_step UpdateFec f = Some (rgtp_flow_update_fec f)"
| "flow_step (RecordPull t) f = Some (rgtp_flow_record_pull f t)"

fun flow_allowed :: "flow_op \<Rightarrow> bool" where
  "flow_allowed (UpdateRtt s) = (s \<le> 2 ^ 31)"
| "flow_allowed (UpdateLoss l) = (l \<noteq> NaN)"
| "flow_allowed _ = True"

lemma word_ge_1: "1 \<le> w \<longleftrightarrow> w \<noteq> 0" for w :: u32
  by (simp add: word_le_nat_alt Suc_le_eq unat_gt_0)

lemma flt_of_u32_range:
  assumes "1 \<le> s" and "s \<le> 2 ^ 31"
  obtains x where "flt_of_u32 s = Fin x" "1 \<le> x" "x \<le> 2147483648"
proof -
  define n where "n = unat s"
  have "1 \<le> n" "n \<le> 2147483648"
    using assms by (simp_all add: n_def word_le_nat_alt)
  then have s: "1 \<le> (of_nat n :: rat)" "(of_nat n :: rat) \<le> 2147483648"
    using of_nat_mono [of n 2147483648, where 'a = rat] by simp_all
  have "representable f32 1" "representable f32 2147483648"
    using f32_int [of 1] f32_p2 [of 31] by simp_all
  from f32_between [OF this s] that show thesis
    by (auto simp: flt_of_u32_def flt_of_nat_def n_def [symmetric])
qed

lemma ewma_rtt_range:
  assumes "1 \<le> old" "old \<le> 2 ^ 31" "1 \<le> s" "s \<le> 2 ^ 31"
  obtains r where "ewma_rtt old s = Some r" "1 \<le> r" "r \<le> 2 ^ 31"
proof -
  obtain x y where xy: "flt_of_u32 old = Fin x" "1 \<le> x" "x \<le> 2147483648"
      "flt_of_u32 s = Fin y" "1 \<le> y" "y \<le> 2147483648"
    using flt_of_u32_range [OF assms(1,2)] flt_of_u32_range [OF assms(3,4)] by metis
  have rep: "representable f32 1" "representable f32 2147483648" "representable f32 (7 / 8 * 1)"
      "representable f32 (7 / 8 * 2147483648)" "representable f32 (1 / 8 * 1)" "representable f32 (1 / 8 * 2147483648)"
    using f32_int [of 1] f32_p2 [of 31] f32_sixteenths [of 14] f32_rep [of _ 7 28] f32_sixteenths [of 2] f32_p2 [of 28]
    by simp_all
  obtain z where z: "f_add f32 (f_mul f32 (Fin (7 / 8)) (Fin x)) (f_mul f32 (Fin (1 / 8)) (Fin y)) = Fin z"
      "1 \<le> z" "z \<le> 2147483648"
    by (rule ewma_between [OF xy(2,3,5,6) _ _ rep]) simp_all
  have t: "1 \<le> trunc z" "trunc z \<le> 2147483648"
    using z(2,3) floor_mono [of 1 z] floor_mono [of z 2147483648] by (simp_all add: trunc_def)
  have "ewma_rtt old s = Some (word_of_int (trunc z))"
    using t z(1) xy(1,4) by (simp add: ewma_rtt_def)
  moreover have "uint (word_of_int (trunc z) :: u32) = trunc z"
    using t by (simp add: uint_word_of_int take_bit_int_eq_self)
  then have "1 \<le> (word_of_int (trunc z) :: u32)" "(word_of_int (trunc z) :: u32) \<le> 2 ^ 31"
    using t by (simp_all add: word_le_def)
  ultimately show thesis by (rule that)
qed

lemma congestion_inv: "flow_inv f \<Longrightarrow> flow_inv (rgtp_flow_on_congestion f)"
proof -
  assume f: "flow_inv f"
  then have "unat (window_size f) \<le> 65536" by (simp add: flow_inv_def word_le_nat_alt)
  then have "unat (window_size f div 2) \<le> 65536" by (simp add: unat_div)
  then have "window_size f div 2 \<le> 65536" by (simp add: word_le_nat_alt)
  with f show ?thesis
    by (auto simp: flow_inv_def rgtp_flow_on_congestion_def Let_def not_less word_ge_1)
qed

lemma ack_inv: "flow_inv f \<Longrightarrow> flow_inv (rgtp_flow_on_ack f)"
proof -
  assume f: "flow_inv f"
  have "window_size f + 1 \<noteq> 0"
  proof
    assume "window_size f + 1 = 0"
    then have "window_size f = - 1" by (simp add: eq_neg_iff_add_eq_0)
    moreover have "unat (- 1 :: u32) = 4294967295" by (simp add: unsigned_minus_1_eq_mask mask_eq_exp_minus_1)
    moreover have "unat (window_size f) \<le> 65536" using f by (simp add: flow_inv_def word_le_nat_alt)
    ultimately show False by simp
  qed
  then have "1 \<le> window_size f + 1" by (simp add: word_ge_1)
  with f show ?thesis by (auto simp: flow_inv_def rgtp_flow_on_ack_def Let_def)
qed

lemma low_count: "c < 5 \<Longrightarrow> \<not> 5 \<le> c + 1 \<Longrightarrow> c + 1 < 5" for c :: u32
  by simp

lemma react_inv: "flow_inv f \<Longrightarrow> flow_inv (flow_react f)"
proof -
  assume f: "flow_inv f"
  define g where "g = f\<lparr>consecutive_low_rtt := consecutive_low_rtt f + 1\<rparr>"
  have zero: "flow_inv (h\<lparr>consecutive_low_rtt := 0\<rparr>)" if "flow_inv h" for h
    using that by (simp add: flow_inv_def)
  have "(rgtp_flow_on_ack g)\<lparr>consecutive_low_rtt := 0\<rparr> = (rgtp_flow_on_ack f)\<lparr>consecutive_low_rtt := 0\<rparr>"
    by (simp add: g_def rgtp_flow_on_ack_def Let_def)
  then have "flow_inv ((rgtp_flow_on_ack g)\<lparr>consecutive_low_rtt := 0\<rparr>)" using zero [OF ack_inv [OF f]] by simp
  moreover have "flow_inv g" if "\<not> RECOVERY_PERIODS \<le> consecutive_low_rtt g"
    using that f by (simp add: flow_inv_def g_def RECOVERY_PERIODS_def)
  ultimately show ?thesis
    using f congestion_inv [OF f] zero [OF f] by (simp add: flow_react_def Let_def g_def [symmetric])
qed

lemma update_rtt_inv:
  assumes f: "flow_inv f" and s: "s \<le> 2 ^ 31"
  shows "\<exists>f'. rgtp_flow_update_rtt f s = Some f' \<and> flow_inv f'"
proof (cases "s = 0")
  case True
  with f show ?thesis by (simp add: rgtp_flow_update_rtt_def)
next
  case False
  then have s1: "1 \<le> s" by (simp add: word_le_nat_alt unat_gt_0 Suc_le_eq)
  show ?thesis
  proof (cases "rtt_sample_count f = 0")
    case True
    have "flow_inv (f\<lparr>rtt_us := s, rtt_baseline_us := s, rtt_sample_count := 1\<rparr>)"
      using f s s1 by (simp add: flow_inv_def)
    with False True show ?thesis by (simp add: rgtp_flow_update_rtt_def react_inv)
  next
    case sc: False
    with f have "1 \<le> rtt_us f" "rtt_us f \<le> 2 ^ 31" by (simp_all add: flow_inv_def)
    from ewma_rtt_range [OF this s1 s] obtain r where r: "ewma_rtt (rtt_us f) s = Some r" "1 \<le> r" "r \<le> 2 ^ 31" .
    have "flow_inv (f\<lparr>rtt_us := r, rtt_baseline_us := (if r < rtt_baseline_us f then r else rtt_baseline_us f),
        rtt_sample_count := rtt_sample_count f + 1\<rparr>)"
      using f r(2,3) sc by (simp add: flow_inv_def)
    with False sc r(1) show ?thesis by (simp add: rgtp_flow_update_rtt_def react_inv)
  qed
qed

lemma update_loss_inv:
  assumes f: "flow_inv f" and l: "l \<noteq> NaN"
  shows "flow_inv (rgtp_flow_update_loss f l)"
proof -
  let ?l1 = "if f_lt l (Fin 0) then Fin 0 else l"
  let ?l2 = "if f_lt (Fin 1) ?l1 then Fin 1 else ?l1"
  have "in_range ?l2 0 1" using l by (cases l) (auto simp: in_range_def)
  then obtain y where y: "?l2 = Fin y" "0 \<le> y" "y \<le> 1" by (rule in_rangeE)
  obtain x where x: "loss_rate f = Fin x" "0 \<le> x" "x \<le> 1"
    using f by (auto simp: flow_inv_def elim: in_rangeE)
  have rep: "representable f32 0" "representable f32 1" "representable f32 (7 / 8 * 0)"
      "representable f32 (7 / 8 * 1)" "representable f32 (1 / 8 * 0)" "representable f32 (1 / 8 * 1)"
    using f32_int [of 0] f32_int [of 1] f32_sixteenths [of 14] f32_sixteenths [of 2] by simp_all
  obtain z where "f_add f32 (f_mul f32 (Fin (7 / 8)) (Fin x)) (f_mul f32 (Fin (1 / 8)) (Fin y)) = Fin z"
      "0 \<le> z" "z \<le> 1"
    by (rule ewma_between [OF x(2,3) y(2,3) _ _ rep]) simp_all
  then have "rgtp_flow_update_loss f l = f\<lparr>loss_rate := Fin z\<rparr>" "in_range (Fin z) 0 1"
    using x(1) y(1) by (simp_all add: rgtp_flow_update_loss_def Let_def in_range_def del: f_mul.simps f_add.simps)
  with f show ?thesis by (simp add: flow_inv_def)
qed

subsection \<open>Parity overhead\<close>

lemma fec_constants:
  obtains t v where "to_flt f32 (1 / 10) = Fin t" "1 / 16 \<le> t" "t \<le> 1 / 8"
    "to_flt f32 (1 / 20) = Fin v" "1 / 32 \<le> v" "v \<le> 1 / 16"
proof -
  obtain t where t: "to_flt f32 (1 / 10) = Fin t" "of_int 1 / 16 \<le> t" "t \<le> of_int 2 / 16"
    by (rule f32_between [OF f32_sixteenths [of 1] f32_sixteenths [of 2], of "1 / 10"]) simp_all
  obtain v where v: "to_flt f32 (1 / 20) = Fin v" "of_int 1 / 32 \<le> v" "v \<le> of_int 1 / 16"
    by (rule f32_between [OF f32_32nds [of 1] f32_sixteenths [of 1], of "1 / 20"]) simp_all
  from t v show thesis by (intro that [of t v]) simp_all
qed

text \<open>One step up adds at least a sixteenth, one step down removes at least a
  thirty-second, up to the bounds.\<close>

lemma fec_step_up:
  assumes "fec_overhead f = Fin x" and "of_int k / 16 \<le> x" and "0 \<le> k" "k \<le> 8" and "0 \<le> x" "x \<le> 1 / 2"
    and "f_lt (to_flt f32 (5 / 100)) (loss_rate f)"
  obtains y where "rgtp_flow_update_fec f = f\<lparr>fec_overhead := Fin y\<rparr>" "min (1 / 2) (of_int (k + 1) / 16) \<le> y"
    "0 \<le> y" "y \<le> 1 / 2"
proof -
  obtain t where t: "to_flt f32 (1 / 10) = Fin t" "1 / 16 \<le> t" "t \<le> 1 / 8" using fec_constants by metis
  have r: "representable f32 (of_int (k + 1) / 16)" "representable f32 (of_int 16 / 16)"
    using assms(3,4) by (intro f32_sixteenths; simp)+
  obtain z where z: "to_flt f32 (x + t) = Fin z" "of_int (k + 1) / 16 \<le> z" "z \<le> 1"
    using f32_between [OF r, of "x + t"] assms(2-6) t by (auto simp: add_divide_distrib)
  have k0: "(0 :: rat) \<le> of_int (k + 1) / 16" using assms(3) by simp
  show thesis
    by (rule that [of "min (1 / 2) z"])
      (use z t assms(1,7) k0 in \<open>auto simp: rgtp_flow_update_fec_def min_def\<close>)
qed

lemma fec_step_down:
  assumes "fec_overhead f = Fin x" and "x \<le> of_int k / 32" and "0 \<le> k" "k \<le> 16" and "0 \<le> x" "x \<le> 1 / 2"
    and "\<not> f_lt (to_flt f32 (5 / 100)) (loss_rate f)" and "f_lt (loss_rate f) (to_flt f32 (1 / 100))"
  obtains y where "rgtp_flow_update_fec f = f\<lparr>fec_overhead := Fin y\<rparr>" "y \<le> max 0 (of_int (k - 1) / 32)"
    "0 \<le> y" "y \<le> 1 / 2"
proof -
  obtain v where v: "to_flt f32 (1 / 20) = Fin v" "1 / 32 \<le> v" "v \<le> 1 / 16" using fec_constants by metis
  have r: "representable f32 (of_int (- 1))" "representable f32 (of_int (k - 1) / 32)"
    using assms(3,4) by (intro f32_int f32_32nds; simp)+
  obtain z where z: "to_flt f32 (x - v) = Fin z" "-1 \<le> z" "z \<le> of_int (k - 1) / 32"
    using f32_between [OF r, of "x - v"] assms(2-6) v by (auto simp: diff_divide_distrib)
  have k16: "of_int (k - 1) / 32 \<le> (1 / 2 :: rat)" using assms(4) by simp
  show thesis
    by (rule that [of "max 0 z"])
      (use z v assms(1,7,8) k16 in \<open>auto simp: rgtp_flow_update_fec_def max_def f_sub_def\<close>)
qed

lemma update_fec_inv:
  assumes "flow_inv f"
  shows "flow_inv (rgtp_flow_update_fec f)"
proof -
  obtain x where x: "fec_overhead f = Fin x" "0 \<le> x" "x \<le> 1 / 2"
    using assms by (auto simp: flow_inv_def elim: in_rangeE)
  have upd: "flow_inv (f\<lparr>fec_overhead := Fin y\<rparr>)" if "0 \<le> y" "y \<le> 1 / 2" for y
    using assms that by (simp add: flow_inv_def in_range_def)
  consider (up) "f_lt (to_flt f32 (5 / 100)) (loss_rate f)"
    | (down) "\<not> f_lt (to_flt f32 (5 / 100)) (loss_rate f)" "f_lt (loss_rate f) (to_flt f32 (1 / 100))"
    | (same) "\<not> f_lt (to_flt f32 (5 / 100)) (loss_rate f)" "\<not> f_lt (loss_rate f) (to_flt f32 (1 / 100))"
    by blast
  then show ?thesis
  proof cases
    case up
    show ?thesis by (rule fec_step_up [OF x(1), of 0]) (use x up upd in auto)
  next
    case down
    show ?thesis by (rule fec_step_down [OF x(1), of 16]) (use x down upd in auto)
  next
    case same
    then show ?thesis using assms by (simp add: rgtp_flow_update_fec_def)
  qed
qed

lemma record_pull_inv: "flow_inv f \<Longrightarrow> flow_inv (rgtp_flow_record_pull f t)"
  by (simp add: flow_inv_def rgtp_flow_record_pull_def Let_def)

interpretation flow: step_system flow_step flow_allowed flow_inv
proof
  fix f x assume "flow_inv f" "flow_allowed x"
  then show "\<exists>f'. flow_step x f = Some f' \<and> flow_inv f'"
    by (cases x)
      (simp_all add: update_rtt_inv update_loss_inv congestion_inv ack_inv update_fec_inv record_pull_inv)
qed

lemma flow_init_inv: "w \<le> 65536 \<Longrightarrow> flow_inv (rgtp_flow_init w)"
  by (simp add: flow_inv_def rgtp_flow_init_def in_range_def word_ge_1 word_gt_0)

subsection \<open>Repeated operations\<close>

lemma update_fec_loss [simp]: "loss_rate (rgtp_flow_update_fec f) = loss_rate f"
  by (simp add: rgtp_flow_update_fec_def Let_def)

lemma fec_rises:
  assumes "f_lt (to_flt f32 (5 / 100)) (loss_rate f)" and "in_range (fec_overhead f) 0 (1 / 2)"
  shows "loss_rate ((rgtp_flow_update_fec ^^ n) f) = loss_rate f \<and>
    (\<exists>x. fec_overhead ((rgtp_flow_update_fec ^^ n) f) = Fin x \<and> 0 \<le> x \<and> x \<le> 1 / 2 \<and> min (1 / 2) (of_nat n / 16) \<le> x)"
proof (induction n)
  case 0
  show ?case using assms(2) by (auto elim: in_rangeE)
next
  case (Suc n)
  let ?g = "(rgtp_flow_update_fec ^^ n) f"
  obtain x where x: "fec_overhead ?g = Fin x" "0 \<le> x" "x \<le> 1 / 2" "min (1 / 2) (of_nat n / 16) \<le> x"
    and l: "loss_rate ?g = loss_rate f" using Suc by blast
  define k where "k = int (min 8 n)"
  have k: "0 \<le> k" "k \<le> 8" "of_int k / 16 \<le> x" using x(4) by (auto simp: k_def min_def split: if_splits)
  have lt: "f_lt (to_flt f32 (5 / 100)) (loss_rate ?g)" using assms(1) l by simp
  obtain y where y: "rgtp_flow_update_fec ?g = ?g\<lparr>fec_overhead := Fin y\<rparr>"
      "min (1 / 2) (of_int (k + 1) / 16) \<le> y" "0 \<le> y" "y \<le> 1 / 2"
    using fec_step_up [OF x(1) k(3,1,2) x(2,3) lt] by blast
  have "min (1 / 2) (of_nat (Suc n) / 16) \<le> y"
    using y(2) by (auto simp: k_def min_def split: if_splits)
  then show ?case using y l by simp
qed

lemma fec_falls:
  assumes "\<not> f_lt (to_flt f32 (5 / 100)) (loss_rate f)" and "f_lt (loss_rate f) (to_flt f32 (1 / 100))"
    and "in_range (fec_overhead f) 0 (1 / 2)"
  shows "loss_rate ((rgtp_flow_update_fec ^^ n) f) = loss_rate f \<and>
    (\<exists>x. fec_overhead ((rgtp_flow_update_fec ^^ n) f) = Fin x \<and> 0 \<le> x \<and> x \<le> 1 / 2 \<and> x \<le> of_int (max 0 (16 - int n)) / 32)"
proof (induction n)
  case 0
  show ?case using assms(3) by (auto elim: in_rangeE)
next
  case (Suc n)
  let ?g = "(rgtp_flow_update_fec ^^ n) f"
  define k where "k = max 0 (16 - int n)"
  obtain x where x: "fec_overhead ?g = Fin x" "0 \<le> x" "x \<le> 1 / 2" "x \<le> of_int k / 32"
    and l: "loss_rate ?g = loss_rate f" using Suc k_def by blast
  have k: "0 \<le> k" "k \<le> 16" by (auto simp: k_def)
  have lt: "\<not> f_lt (to_flt f32 (5 / 100)) (loss_rate ?g)" "f_lt (loss_rate ?g) (to_flt f32 (1 / 100))"
    using assms(1,2) l by simp_all
  obtain y where y: "rgtp_flow_update_fec ?g = ?g\<lparr>fec_overhead := Fin y\<rparr>"
      "y \<le> max 0 (of_int (k - 1) / 32)" "0 \<le> y" "y \<le> 1 / 2"
    using fec_step_down [OF x(1,4) k x(2,3) lt] by blast
  have "max 0 (of_int (k - 1) / 32) = (of_int (max 0 (16 - int (Suc n))) / 32 :: rat)"
    by (auto simp: k_def max_def)
  then show ?case using y l by simp
qed

lemma congestion_step:
  assumes "window_min f = 1"
  shows "window_min (rgtp_flow_on_congestion f) = 1"
    and "unat (window_size (rgtp_flow_on_congestion f)) = max 1 (unat (window_size f) div 2)"
  using assms by (auto simp: rgtp_flow_on_congestion_def Let_def word_less_nat_alt unat_div max_def)

lemma ack_step:
  assumes "window_max f = 65536" and "unat (window_size f) \<le> 65536"
  shows "window_max (rgtp_flow_on_ack f) = 65536"
    and "unat (window_size (rgtp_flow_on_ack f)) = min 65536 (unat (window_size f) + 1)"
proof -
  have "unat (window_size f + 1) = unat (window_size f) + 1"
    using word_of_nat_unat_32 [of "unat (window_size f) + 1"] assms(2) by (simp add: add.commute)
  then show "window_max (rgtp_flow_on_ack f) = 65536"
    and "unat (window_size (rgtp_flow_on_ack f)) = min 65536 (unat (window_size f) + 1)"
    using assms by (auto simp: rgtp_flow_on_ack_def Let_def word_less_nat_alt)
qed

lemma congestions_window:
  assumes "window_min f = 1" and "1 \<le> window_size f"
  shows "window_min ((rgtp_flow_on_congestion ^^ n) f) = 1 \<and>
    unat (window_size ((rgtp_flow_on_congestion ^^ n) f)) = max 1 (unat (window_size f) div 2 ^ n)"
proof (induction n)
  case 0
  show ?case using assms by (simp add: word_le_nat_alt max_def)
next
  case (Suc n)
  have "unat (window_size f) div 2 ^ Suc n = unat (window_size f) div 2 ^ n div 2"
    unfolding power_Suc2 by (rule div_mult2_eq)
  then show ?case using Suc congestion_step [of "(rgtp_flow_on_congestion ^^ n) f"] by (auto simp: max_def)
qed

lemma acks_window:
  assumes "window_max f = 65536" and "window_size f \<le> 65536"
  shows "window_max ((rgtp_flow_on_ack ^^ n) f) = 65536 \<and>
    unat (window_size ((rgtp_flow_on_ack ^^ n) f)) = min 65536 (unat (window_size f) + n)"
proof (induction n)
  case 0
  show ?case using assms by (simp add: word_le_nat_alt)
next
  case (Suc n)
  then show ?case using ack_step [of "(rgtp_flow_on_ack ^^ n) f"] by auto
qed

subsection \<open>Rounding at the top of the range\<close>

lemma ilog_eqI:
  assumes "p2 k \<le> x" and "x < p2 (k + 1)"
  shows "ilog x = k"
proof -
  have "0 < x" using assms(1) p2_pos [of k] by linarith
  then have "p2 (ilog x) < p2 (k + 1)" "p2 k < p2 (ilog x + 1)"
    using ilog_bounds [of x] assms by linarith+
  then show ?thesis using p2_le_iff [of "k + 1" "ilog x"] p2_le_iff [of "ilog x + 1" k] by linarith
qed

lemma round_u32_max: "flt_of_u32 (- 1) = Fin 4294967296"
proof -
  have u: "unat (- 1 :: u32) = 4294967295" by (simp add: unsigned_minus_1_eq_mask mask_eq_exp_minus_1)
  have "ilog 4294967295 = 31" by (rule ilog_eqI) simp_all
  then have e: "ulp_exp f32 4294967295 = 8" by (simp add: ulp_exp_def)
  have "\<lfloor>4294967295 / 256 :: rat\<rfloor> = 16777215" by (simp add: floor_eq_iff)
  then have "rnd f32 4294967295 = 4294967296" by (simp add: rnd_def e rne_def Let_def)
  then show ?thesis by (simp add: flt_of_u32_def flt_of_nat_def to_flt_def u)
qed

subsection \<open>Properties\<close>

text \<open>C22: from any initial window up to 65536, any sequence of operations with round-trip
  samples up to \<open>2 ^ 31\<close> microseconds and loss samples that are numbers is free of
  undefined conversions, and keeps the window in 1 to 65536, the loss rate in 0 to 1, the
  parity overhead in 0 to one half, and the estimate and its baseline in 1 to
  \<open>2 ^ 31\<close> once there is a sample.\<close>

theorem flow_bounds:
  assumes "w \<le> 65536" and "list_all flow_allowed ops"
  shows "\<exists>f. run_steps flow_step ops (rgtp_flow_init w) = Some f \<and>
    1 \<le> window_size f \<and> window_size f \<le> 65536 \<and>
    in_range (loss_rate f) 0 1 \<and> in_range (fec_overhead f) 0 (1 / 2) \<and>
    (rtt_sample_count f \<noteq> 0 \<longrightarrow> 1 \<le> rtt_us f \<and> rtt_us f \<le> 2 ^ 31 \<and>
      1 \<le> rtt_baseline_us f \<and> rtt_baseline_us f \<le> 2 ^ 31)"
  using flow.run_inv [OF flow_init_inv [OF assms(1)] assms(2)] unfolding flow_inv_def by blast

theorem flow_bounds_witness:
  "\<exists>f. run_steps flow_step [UpdateRtt 1000, UpdateLoss (Fin (1 / 2)), UpdateRtt 5000, UpdateFec, OnAck]
      (rgtp_flow_init 64) = Some f \<and> in_range (fec_overhead f) 0 (1 / 2)"
proof -
  have "\<exists>f. run_steps flow_step [UpdateRtt 1000, UpdateLoss (Fin (1 / 2)), UpdateRtt 5000, UpdateFec, OnAck]
      (rgtp_flow_init 64) = Some f \<and> 1 \<le> window_size f \<and> window_size f \<le> 65536 \<and>
    in_range (loss_rate f) 0 1 \<and> in_range (fec_overhead f) 0 (1 / 2) \<and>
    (rtt_sample_count f \<noteq> 0 \<longrightarrow> 1 \<le> rtt_us f \<and> rtt_us f \<le> 2 ^ 31 \<and>
      1 \<le> rtt_baseline_us f \<and> rtt_baseline_us f \<le> 2 ^ 31)"
    by (rule flow_bounds) (simp_all add: word_le_nat_alt)
  then show ?thesis by blast
qed

text \<open>C23: the parity overhead adapts in bounded time: while the loss rate stays above
  5 percent, 8 updates bring it to one half, and while it stays below 1 percent, 16
  updates bring it to 0.\<close>

theorem fec_adapts:
  assumes "in_range (fec_overhead f) 0 (1 / 2)"
  shows "(f_lt (to_flt f32 (5 / 100)) (loss_rate f) \<and> 8 \<le> n \<longrightarrow>
      fec_overhead ((rgtp_flow_update_fec ^^ n) f) = Fin (1 / 2)) \<and>
    (\<not> f_lt (to_flt f32 (5 / 100)) (loss_rate f) \<and> f_lt (loss_rate f) (to_flt f32 (1 / 100)) \<and> 16 \<le> n \<longrightarrow>
      fec_overhead ((rgtp_flow_update_fec ^^ n) f) = Fin 0)"
proof (intro conjI impI)
  assume a: "f_lt (to_flt f32 (5 / 100)) (loss_rate f) \<and> 8 \<le> n"
  then have "(1 / 2 :: rat) \<le> of_nat n / 16" by simp
  with fec_rises [OF conjunct1 [OF a] assms, of n] show "fec_overhead ((rgtp_flow_update_fec ^^ n) f) = Fin (1 / 2)"
    by (auto simp: min_def split: if_splits)
next
  assume a: "\<not> f_lt (to_flt f32 (5 / 100)) (loss_rate f) \<and> f_lt (loss_rate f) (to_flt f32 (1 / 100)) \<and> 16 \<le> n"
  then have "max 0 (16 - int n) = 0" by simp
  with fec_falls [OF _ _ assms, of n] a show "fec_overhead ((rgtp_flow_update_fec ^^ n) f) = Fin 0" by auto
qed

theorem fec_adapts_witness:
  "fec_overhead ((rgtp_flow_update_fec ^^ 8) ((rgtp_flow_init 1)\<lparr>loss_rate := Fin (1 / 2)\<rparr>)) = Fin (1 / 2)"
proof -
  obtain v where "to_flt f32 (1 / 20) = Fin v" "v \<le> 1 / 16" using fec_constants by metis
  then have "f_lt (to_flt f32 (5 / 100)) (Fin (1 / 2))" by simp
  then show ?thesis
    using fec_adapts [of "(rgtp_flow_init 1)\<lparr>loss_rate := Fin (1 / 2)\<rparr>" 8]
    by (simp add: rgtp_flow_init_def in_range_def)
qed

text \<open>\<open>n\<close> congestion events divide the window by \<open>2 ^ n\<close>, never below
  1, and \<open>n\<close> acknowledged periods add \<open>n\<close>, never above 65536.\<close>

theorem flow_aimd:
  assumes "flow_inv f"
  shows "unat (window_size ((rgtp_flow_on_congestion ^^ n) f)) = max 1 (unat (window_size f) div 2 ^ n) \<and>
    unat (window_size ((rgtp_flow_on_ack ^^ n) f)) = min 65536 (unat (window_size f) + n)"
  using congestions_window [of f n] acks_window [of f n] assms by (simp add: flow_inv_def)

theorem flow_aimd_witness:
  "unat (window_size ((rgtp_flow_on_congestion ^^ 3) (rgtp_flow_init 64))) = 8"
  using flow_aimd [OF flow_init_inv [of 64], of 3] by (simp add: rgtp_flow_init_def word_le_nat_alt)

text \<open>Two samples of the largest \<^verbatim>\<open>uint32_t\<close> make the estimator
  convert \<open>2 ^ 32\<close> to \<^verbatim>\<open>uint32_t\<close>, which is undefined, and an
  initial window of that value wraps to 0 on the first acknowledgement.\<close>

theorem flow_extremes:
  "run_steps flow_step [UpdateRtt (- 1), UpdateRtt (- 1)] (rgtp_flow_init 64) = None \<and>
   window_size (rgtp_flow_on_ack (rgtp_flow_init (- 1))) = 0"
proof -
  have rep: "to_flt f32 4294967296 = Fin 4294967296" "to_flt f32 3758096384 = Fin 3758096384"
      "to_flt f32 536870912 = Fin 536870912"
    using f32_exact [OF f32_p2 [of 32]] f32_exact [OF f32_rep [of _ 7 29]] f32_exact [OF f32_p2 [of 29]] by simp_all
  have none: "ewma_rtt (- 1) (- 1) = None"
    by (simp add: ewma_rtt_def round_u32_max rep trunc_def)
  obtain f where f: "rgtp_flow_update_rtt (rgtp_flow_init 64) (- 1) = Some f" "rtt_us f = - 1" "rtt_sample_count f = 1"
    by (simp add: rgtp_flow_update_rtt_def flow_react_def rgtp_flow_init_def rgtp_flow_on_congestion_def
        rgtp_flow_on_ack_def Let_def)
  have "rgtp_flow_update_rtt f (- 1) = None"
    using f none by (simp add: rgtp_flow_update_rtt_def)
  then have "run_steps flow_step [UpdateRtt (- 1), UpdateRtt (- 1)] (rgtp_flow_init 64) = None"
    using f(1) by simp
  moreover have "window_size (rgtp_flow_on_ack (rgtp_flow_init (- 1))) = 0"
    by (simp add: rgtp_flow_on_ack_def rgtp_flow_init_def Let_def word_gt_0)
  ultimately show ?thesis by blast
qed

end
