(* ===== verification/Rgtp_RateLimit.thy ===== *)
theory Rgtp_RateLimit
  imports Rgtp_Float
begin

text \<open>
  The token buckets of \<^verbatim>\<open>src/transport/rgtp_ratelimit.c\<close>: an
  open-addressing table of 256 entries, probed linearly from the hash of the key, with
  the token counts as \<^verbatim>\<open>double\<close>s.  The lemmas show that the
  counts stay in range, which entries a check touches, and that a burst without
  elapsed time is limited to the tokens in the bucket.
\<close>

subsection \<open>The table\<close>

definition RGTP_RATELIMIT_BUCKET_COUNT :: nat where "RGTP_RATELIMIT_BUCKET_COUNT = 256"
definition RGTP_RATELIMIT_MAX_RPS :: nat where "RGTP_RATELIMIT_MAX_RPS = 1000"

record rgtp_ratelimit_entry =
  exposure_id :: bytes
  source_ip :: u32
  tokens :: flt
  last_refill_us :: u64

type_synonym rgtp_ratelimit = "rgtp_ratelimit_entry list"

definition zero_entry :: rgtp_ratelimit_entry where
  "zero_entry = \<lparr>exposure_id = replicate 16 0, source_ip = 0, tokens = Fin 0, last_refill_us = 0\<rparr>"

definition rgtp_ratelimit_init :: rgtp_ratelimit where
  "rgtp_ratelimit_init = replicate RGTP_RATELIMIT_BUCKET_COUNT zero_entry"

definition fnv_step :: "u32 \<Rightarrow> u32 \<Rightarrow> u32" where
  "fnv_step b h = (h XOR b) * 16777619"

definition hash_key :: "bytes \<Rightarrow> u32 \<Rightarrow> u32" where
  "hash_key eid ip =
    (let h = fold (\<lambda>i. fnv_step (ucast (eid ! i))) [0..<16] 2166136261;
         h = fnv_step (ip AND 0xFF) h;
         h = fnv_step (drop_bit 8 ip AND 0xFF) h;
         h = fnv_step (drop_bit 16 ip AND 0xFF) h;
         h = fnv_step (drop_bit 24 ip AND 0xFF) h
     in h AND 255)"

subsection \<open>The check\<close>

text \<open>What the probe stops at: a free slot, the entry of the key, or the end of the
  table with the oldest entry, if one is older than the largest time stamp.\<close>

datatype probe_result = ProbeEmpty nat | ProbeKey nat | ProbeFull "nat option"

definition key_matches :: "bytes \<Rightarrow> u32 \<Rightarrow> rgtp_ratelimit_entry \<Rightarrow> bool" where
  "key_matches eid ip e \<longleftrightarrow> exposure_id e = eid \<and> source_ip e = ip"

fun probe :: "rgtp_ratelimit \<Rightarrow> bytes \<Rightarrow> u32 \<Rightarrow> u32 \<Rightarrow> nat list \<Rightarrow> nat option \<Rightarrow> u64 \<Rightarrow> probe_result" where
  "probe rl eid ip slot [] oldest oldest_ts = ProbeFull oldest"
| "probe rl eid ip slot (i # is) oldest oldest_ts =
    (let idx = unat ((slot + word_of_nat i) AND 255); e = rl ! idx in
     if last_refill_us e = 0 then ProbeEmpty idx
     else if key_matches eid ip e then ProbeKey idx
     else if last_refill_us e < oldest_ts then probe rl eid ip slot is (Some idx) (last_refill_us e)
     else probe rl eid ip slot is oldest oldest_ts)"

definition RATE :: flt where "RATE = flt_of_nat f64 RGTP_RATELIMIT_MAX_RPS"
definition MAX_TOKENS :: flt where "MAX_TOKENS = RATE"

definition claim_entry :: "bytes \<Rightarrow> u32 \<Rightarrow> u64 \<Rightarrow> rgtp_ratelimit_entry" where
  "claim_entry eid ip now_us =
    \<lparr>exposure_id = eid, source_ip = ip, tokens = f_sub f64 MAX_TOKENS (Fin 1), last_refill_us = now_us\<rparr>"

definition refill :: "u64 \<Rightarrow> rgtp_ratelimit_entry \<Rightarrow> rgtp_ratelimit_entry" where
  "refill now_us e =
    (if now_us > last_refill_us e then
       (let elapsed_sec = f_div f64 (flt_of_nat f64 (unat (now_us - last_refill_us e))) (flt_of_nat f64 1000000);
            t = f_add f64 (tokens e) (f_mul f64 elapsed_sec RATE);
            t = (if f_lt MAX_TOKENS t then MAX_TOKENS else t)
        in e\<lparr>tokens := t, last_refill_us := now_us\<rparr>)
     else e)"

text \<open>Consume one token.\<close>

definition consume :: "rgtp_ratelimit_entry \<Rightarrow> rgtp_error option \<times> rgtp_ratelimit_entry" where
  "consume e =
    (if f_lt (tokens e) (Fin 1) then (Some RGTP_ERR_RATE_LIMITED, e)
     else (None, e\<lparr>tokens := f_sub f64 (tokens e) (Fin 1)\<rparr>))"

definition rgtp_ratelimit_check ::
    "rgtp_ratelimit option \<Rightarrow> bytes option \<Rightarrow> u32 \<Rightarrow> u64 \<Rightarrow> rgtp_error option \<times> rgtp_ratelimit option" where
  "rgtp_ratelimit_check rl_ptr eid_ptr ip now_us =
    (case (rl_ptr, eid_ptr) of
       (Some rl, Some eid) \<Rightarrow>
         (case probe rl eid ip (hash_key eid ip) [0..<RGTP_RATELIMIT_BUCKET_COUNT] None (- 1) of
            ProbeEmpty idx \<Rightarrow> (None, Some (rl[idx := claim_entry eid ip now_us]))
          | ProbeFull None \<Rightarrow> (Some RGTP_ERR_RATE_LIMITED, rl_ptr)
          | ProbeFull (Some idx) \<Rightarrow> (None, Some (rl[idx := claim_entry eid ip now_us]))
          | ProbeKey idx \<Rightarrow>
              (let (r, e) = consume (refill now_us (rl ! idx)) in (r, Some (rl[idx := e]))))
     | _ \<Rightarrow> (Some RGTP_ERR_INVALID_ARG, rl_ptr))"

subsection \<open>Token counts\<close>

lemma f64_simps [simp]: "precision f64 = 53" "min_exp f64 = -1074" "max_exp f64 = 1024"
  by (simp_all add: f64_def)

lemma f64_int: "\<bar>m\<bar> \<le> 9007199254740992 \<Longrightarrow> representable f64 (of_int m)"
  by (rule representableI [of _ m 0]) simp_all

lemma f64_p2: "-1074 \<le> k \<Longrightarrow> representable f64 (p2 k)"
  by (rule representableI [of _ 1 k]) simp_all

lemma f64_between:
  assumes "representable f64 a" and "representable f64 b" and "a \<le> x" and "x \<le> b" and "- p2 100 \<le> a" and "b \<le> p2 100"
  obtains y where "to_flt f64 x = Fin y" "a \<le> y" "y \<le> b"
proof (rule to_flt_between [OF assms(1-4)])
  have "p2 100 < p2 1024" by (rule power_int_strict_increasing) simp_all
  then show "- p2 (max_exp f64) < a" "b < p2 (max_exp f64)" using assms(5,6) by simp_all
qed (use that in simp_all)

lemma f64_exact_int:
  assumes "\<bar>m\<bar> \<le> 9007199254740992"
  shows "to_flt f64 (of_int m) = Fin (of_int m)"
proof -
  have "(of_int \<bar>m\<bar> :: rat) \<le> of_int 9007199254740992" using assms by (simp only: of_int_le_iff)
  moreover have "(9007199254740992 :: rat) \<le> p2 100" by simp
  ultimately have "- p2 100 \<le> of_int m" "of_int m \<le> p2 100" by simp_all
  from f64_between [OF f64_int [OF assms] f64_int [OF assms] order_refl order_refl this] show ?thesis
    by (metis order_antisym)
qed

lemma rate_value [simp]: "RATE = Fin 1000" "MAX_TOKENS = Fin 1000"
  using f64_exact_int [of 1000] by (simp_all add: RATE_def MAX_TOKENS_def flt_of_nat_def RGTP_RATELIMIT_MAX_RPS_def)

definition tokens_ok :: "rgtp_ratelimit_entry \<Rightarrow> bool" where
  "tokens_ok e \<longleftrightarrow> (\<exists>x. tokens e = Fin x \<and> 0 \<le> x \<and> x \<le> 1000)"

lemma claim_tokens: "tokens (claim_entry eid ip t) = Fin 999"
  using f64_exact_int [of 999] by (simp add: claim_entry_def f_sub_def)

lemma consume_ok:
  assumes "tokens_ok e"
  shows "tokens_ok (snd (consume e))"
proof (cases "f_lt (tokens e) (Fin 1)")
  case True
  with assms show ?thesis by (simp add: consume_def)
next
  case False
  with assms obtain x where x: "tokens e = Fin x" "1 \<le> x" "x \<le> 1000" by (auto simp: tokens_ok_def)
  have "representable f64 0" "representable f64 1000" using f64_int [of 0] f64_int [of 1000] by simp_all
  from f64_between [OF this, of "x - 1"] x obtain y where "to_flt f64 (x - 1) = Fin y" "0 \<le> y" "y \<le> 1000"
    by auto
  with x False show ?thesis by (simp add: consume_def tokens_ok_def f_sub_def)
qed

lemma refill_ok:
  assumes "tokens_ok e"
  shows "tokens_ok (refill now e)"
proof -
  obtain x where x: "tokens e = Fin x" "0 \<le> x" "x \<le> 1000" using assms by (auto simp: tokens_ok_def)
  define n where "n = unat (now - last_refill_us e)"
  have "n < 2 ^ 64" unfolding n_def by (rule order_less_le_trans [OF unsigned_less]) simp
  then have d: "0 \<le> (of_nat n :: rat)" "of_nat n \<le> p2 64"
    using of_nat_mono [of n "2 ^ 64", where 'a = rat] by simp_all
  have rep: "representable f64 0" "representable f64 (p2 64)" "representable f64 (p2 80)"
    using f64_int [of 0] f64_p2 [of 64] f64_p2 [of 80] by simp_all
  obtain d' where d': "to_flt f64 (of_nat n) = Fin d'" "0 \<le> d'" "d' \<le> p2 64"
    using f64_between [OF rep(1,2) d] by auto
  obtain q where q: "to_flt f64 (d' / 1000000) = Fin q" "0 \<le> q" "q \<le> p2 64"
    using f64_between [OF rep(1,2), of "d' / 1000000"] d'(2,3) by auto
  obtain m where m: "to_flt f64 (q * 1000) = Fin m" "0 \<le> m" "m \<le> p2 80"
    using f64_between [OF rep(1,3), of "q * 1000"] q(2,3) by auto
  obtain t where t: "to_flt f64 (x + m) = Fin t" "0 \<le> t"
    using f64_between [OF rep(1) f64_p2 [of 90], of "x + m"] x(2,3) m(2,3) by auto
  have million: "to_flt f64 1000000 = Fin 1000000"
    using f64_exact_int [of 1000000] by simp
  show ?thesis
    using x d' q m t assms by (simp add: refill_def tokens_ok_def Let_def million flt_of_nat_def n_def [symmetric])
qed

subsection \<open>The probe\<close>

text \<open>The slots of the probe sequence.\<close>

definition slot_at :: "u32 \<Rightarrow> nat \<Rightarrow> nat" where
  "slot_at slot i = unat ((slot + word_of_nat i) AND 255)"

lemma unat_and_255: "unat (w AND 255) = unat w mod 256" for w :: u32
proof -
  have "unat (w AND 255) = unat w AND 255" by (simp add: unsigned_and_eq)
  also have "\<dots> = take_bit 8 (unat w)" by (simp add: take_bit_eq_mask mask_eq_exp_minus_1)
  finally show ?thesis by (simp add: take_bit_eq_mod)
qed

lemma slot_at_bound: "slot_at slot i < 256"
  by (simp add: slot_at_def unat_and_255)

lemma slot_at_mod: "slot_at slot i = (unat slot + i) mod 256"
proof -
  have "unat (slot + word_of_nat i) = (unat slot + i) mod 2 ^ 32"
    using unat_of_nat [of "unat slot + i", where 'a = 32] by (simp add: take_bit_eq_mod)
  then show ?thesis by (simp add: slot_at_def unat_and_255 mod_mod_cancel)
qed

text \<open>Every slot is probed: the sequence is a permutation of the table.\<close>

lemma slot_at_onto:
  assumes "j < 256"
  obtains i where "i < 256" "slot_at slot i = j"
proof -
  let ?s = "unat slot mod 256"
  let ?i = "(j + 256 - ?s) mod 256"
  have "?s < 256" by simp
  then have "(?s + (j + 256 - ?s)) mod 256 = j" using assms by simp
  then have "(unat slot + ?i) mod 256 = j" by (metis mod_add_left_eq mod_add_right_eq)
  then show thesis by (intro that [of ?i]) (simp_all add: slot_at_mod)
qed

lemma probe_bound:
  assumes "\<And>j. oldest = Some j \<Longrightarrow> j < 256"
  shows "case probe rl eid ip slot js oldest ts of
    ProbeEmpty j \<Rightarrow> j < 256 \<and> last_refill_us (rl ! j) = 0
  | ProbeKey j \<Rightarrow> j < 256 \<and> last_refill_us (rl ! j) \<noteq> 0 \<and> key_matches eid ip (rl ! j)
  | ProbeFull r \<Rightarrow> (\<forall>j. r = Some j \<longrightarrow> j < 256) \<and>
      (\<forall>i \<in> set js. last_refill_us (rl ! slot_at slot i) \<noteq> 0 \<and> \<not> key_matches eid ip (rl ! slot_at slot i))"
  using assms
proof (induction js arbitrary: oldest ts)
  case (Cons i js)
  have b: "unat ((slot + word_of_nat i) AND 255) < 256" using slot_at_bound [of slot i] by (simp add: slot_at_def)
  let ?e = "rl ! unat ((slot + word_of_nat i) AND 255)"
  show ?case
  proof (cases "last_refill_us ?e = 0 \<or> key_matches eid ip ?e")
    case True
    with b show ?thesis by (auto simp: Let_def)
  next
    case False
    with Cons.IH [of oldest ts] Cons.IH [of "Some (slot_at slot i)" "last_refill_us ?e"] Cons.prems b
    show ?thesis by (auto simp: Let_def slot_at_def split: probe_result.splits)
  qed
qed simp

subsection \<open>Invariant\<close>

definition ratelimit_inv :: "rgtp_ratelimit \<Rightarrow> bool" where
  "ratelimit_inv rl \<longleftrightarrow> length rl = 256 \<and> (\<forall>e \<in> set rl. tokens_ok e)"

lemma inv_update: "ratelimit_inv rl \<Longrightarrow> tokens_ok e \<Longrightarrow> ratelimit_inv (rl[i := e])"
  unfolding ratelimit_inv_def using set_update_subset_insert [of rl i e] by auto

lemma claim_ok: "tokens_ok (claim_entry eid ip t)"
  by (simp add: tokens_ok_def claim_tokens)

definition ratelimit_step :: "bytes \<times> u32 \<times> u64 \<Rightarrow> rgtp_ratelimit \<Rightarrow> rgtp_ratelimit option" where
  "ratelimit_step r rl = (case r of (eid, ip, now) \<Rightarrow> snd (rgtp_ratelimit_check (Some rl) (Some eid) ip now))"

lemma check_inv:
  assumes "ratelimit_inv rl"
  shows "\<exists>rl'. snd (rgtp_ratelimit_check (Some rl) (Some eid) ip now) = Some rl' \<and> ratelimit_inv rl'"
proof (cases "probe rl eid ip (hash_key eid ip) [0..<RGTP_RATELIMIT_BUCKET_COUNT] None (- 1)")
  case (ProbeKey j)
  then have "j < 256" 
    using probe_bound [where rl = rl and eid = eid and ip = ip and slot = "hash_key eid ip"
      and js = "[0..<RGTP_RATELIMIT_BUCKET_COUNT]" and oldest = None and ts = "- 1"] by simp
  then have "tokens_ok (rl ! j)" using assms by (simp add: ratelimit_inv_def)
  then have "tokens_ok (snd (consume (refill now (rl ! j))))" by (intro consume_ok refill_ok)
  with ProbeKey inv_update [OF assms] show ?thesis
    by (cases "consume (refill now (rl ! j))") (simp add: rgtp_ratelimit_check_def)
qed (use assms inv_update [OF assms claim_ok] in \<open>auto simp: rgtp_ratelimit_check_def split: option.splits\<close>)

interpretation ratelimit: step_system ratelimit_step "\<lambda>_. True" ratelimit_inv
  by unfold_locales (auto simp: ratelimit_step_def check_inv split: prod.splits)

lemma ratelimit_init_inv: "ratelimit_inv rgtp_ratelimit_init"
  by (auto simp: ratelimit_inv_def rgtp_ratelimit_init_def RGTP_RATELIMIT_BUCKET_COUNT_def zero_entry_def tokens_ok_def)

subsection \<open>The entry of a key\<close>

text \<open>A table in which the key is at the probed position \<open>j\<close>: the check
  works on that entry alone.\<close>

definition located :: "rgtp_ratelimit \<Rightarrow> bytes \<Rightarrow> u32 \<Rightarrow> nat \<Rightarrow> bool" where
  "located rl eid ip j \<longleftrightarrow>
    probe rl eid ip (hash_key eid ip) [0..<RGTP_RATELIMIT_BUCKET_COUNT] None (- 1) = ProbeKey j"

lemma check_located:
  assumes "located rl eid ip j"
  shows "rgtp_ratelimit_check (Some rl) (Some eid) ip now =
    (fst (consume (refill now (rl ! j))), Some (rl[j := snd (consume (refill now (rl ! j)))]))"
  using assms by (simp add: located_def rgtp_ratelimit_check_def split: prod.splits)

lemma probe_update:
  assumes "probe rl eid ip slot js oldest ts = ProbeKey j" and "j < length rl"
    and "key_matches eid ip e" and "last_refill_us e \<noteq> 0"
  shows "probe (rl[j := e]) eid ip slot js oldest ts = ProbeKey j"
  using assms(1)
proof (induction js arbitrary: oldest ts)
  case (Cons i js)
  let ?k = "unat ((slot + word_of_nat i) AND 255)"
  show ?case
  proof (cases "?k = j")
    case True
    with assms(2-4) show ?thesis by (simp add: Let_def)
  next
    case False
    with Cons show ?thesis by (auto simp: Let_def split: if_splits)
  qed
qed simp

lemma consume_fields [simp]:
  "exposure_id (snd (consume e)) = exposure_id e" "source_ip (snd (consume e)) = source_ip e"
  "last_refill_us (snd (consume e)) = last_refill_us e"
  by (simp_all add: consume_def)

lemma refill_fields [simp]:
  "exposure_id (refill t e) = exposure_id e" "source_ip (refill t e) = source_ip e"
  "last_refill_us (refill t e) = max t (last_refill_us e)"
  by (auto simp: refill_def Let_def max_def)

lemma located_facts:
  assumes "located rl eid ip j"
  shows "j < 256" and "last_refill_us (rl ! j) \<noteq> 0" and "key_matches eid ip (rl ! j)"
  using probe_bound [where rl = rl and eid = eid and ip = ip and slot = "hash_key eid ip"
      and js = "[0..<RGTP_RATELIMIT_BUCKET_COUNT]" and oldest = None and ts = "- 1"] assms
  by (simp_all add: located_def)

lemma max_nonzero: "w \<noteq> 0 \<Longrightarrow> max t w \<noteq> 0" for t w :: u64
  by (auto simp: max_def)

lemma located_check:
  assumes "located rl eid ip j" and "length rl = 256"
  shows "located (rl[j := snd (consume (refill now (rl ! j)))]) eid ip j"
  unfolding located_def
  by (rule probe_update)
    (use assms located_facts [OF assms(1)] max_nonzero in \<open>auto simp: located_def key_matches_def\<close>)

text \<open>A key that takes a free or evicted slot is at that slot.\<close>

lemma probe_claim:
  assumes "key_matches eid ip e" and "last_refill_us e \<noteq> 0" and "length rl = 256"
  shows "probe rl eid ip slot js oldest ts = ProbeEmpty j \<Longrightarrow> probe (rl[j := e]) eid ip slot js oldest' ts' = ProbeKey j"
proof (induction js arbitrary: oldest ts oldest' ts')
  case (Cons i js)
  let ?k = "unat ((slot + word_of_nat i) AND 255)"
  have "?k < length rl" using slot_at_bound [of slot i] assms(3) by (simp add: slot_at_def)
  then show ?case
    using Cons assms(1,2) by (cases "?k = j") (auto simp: Let_def split: if_splits)
qed simp

subsection \<open>Bursts\<close>

text \<open>The number of requests that are let through among \<open>n\<close> requests for one
  key at one time.\<close>

fun burst :: "nat \<Rightarrow> bytes \<Rightarrow> u32 \<Rightarrow> u64 \<Rightarrow> rgtp_ratelimit \<Rightarrow> nat" where
  "burst 0 eid ip now rl = 0"
| "burst (Suc n) eid ip now rl =
    (case rgtp_ratelimit_check (Some rl) (Some eid) ip now of
       (r, Some rl') \<Rightarrow> (if r = None then 1 else 0) + burst n eid ip now rl'
     | (r, None) \<Rightarrow> 0)"

lemma refill_idle: "now \<le> last_refill_us e \<Longrightarrow> refill now e = e"
  by (simp add: refill_def)

lemma consume_int:
  assumes "tokens e = Fin (of_nat k)" and "k \<le> 1000"
  shows "fst (consume e) = (if k = 0 then Some RGTP_ERR_RATE_LIMITED else None)"
    and "tokens (snd (consume e)) = Fin (of_nat (k - 1))"
proof -
  have "to_flt f64 (of_nat k - 1) = Fin (of_nat k - 1)"
    using f64_exact_int [of "int k - 1"] assms(2) by simp
  then show "fst (consume e) = (if k = 0 then Some RGTP_ERR_RATE_LIMITED else None)"
    and "tokens (snd (consume e)) = Fin (of_nat (k - 1))"
    using assms(1) by (auto simp: consume_def f_sub_def of_nat_diff Suc_le_eq)
qed

lemma burst_int:
  assumes "located rl eid ip j" and "length rl = 256" and "now \<le> last_refill_us (rl ! j)"
    and "tokens (rl ! j) = Fin (of_nat k)" and "k \<le> 1000"
  shows "burst n eid ip now rl = min n k"
  using assms
proof (induction n arbitrary: rl k)
  case (Suc n)
  let ?e = "snd (consume (rl ! j))"
  have j: "j < length rl" using located_facts(1) [OF Suc.prems(1)] Suc.prems(2) by simp
  have idle: "refill now (rl ! j) = rl ! j" using Suc.prems(3) by (rule refill_idle)
  have "burst n eid ip now (rl[j := ?e]) = min n (k - 1)"
    by (rule Suc.IH) (use Suc.prems located_check [OF Suc.prems(1,2), of now] idle j consume_int(2) [OF Suc.prems(4,5)] in auto)
  then show ?case
    using check_located [OF Suc.prems(1), of now] idle consume_int(1) [OF Suc.prems(4,5)] by auto
qed simp

subsection \<open>Properties\<close>

text \<open>After any sequence of requests the table has its 256 entries, and every
  bucket holds a finite number of tokens between 0 and 1000.\<close>

theorem ratelimit_bounds:
  "\<exists>rl. run_steps ratelimit_step reqs rgtp_ratelimit_init = Some rl \<and> length rl = 256 \<and>
    (\<forall>j. j < 256 \<longrightarrow> (\<exists>x. tokens (rl ! j) = Fin x \<and> 0 \<le> x \<and> x \<le> 1000))"
  using ratelimit.run_inv [OF ratelimit_init_inv, of reqs]
  by (auto simp: ratelimit_inv_def tokens_ok_def list_all_iff)

theorem ratelimit_bounds_witness:
  "\<exists>rl. run_steps ratelimit_step [(replicate 16 7, 1, 5), (replicate 16 7, 1, 6)] rgtp_ratelimit_init = Some rl \<and>
    (\<exists>x. tokens (rl ! 3) = Fin x \<and> 0 \<le> x \<and> x \<le> 1000)"
  using ratelimit_bounds [of "[(replicate 16 7, 1, 5), (replicate 16 7, 1, 6)]"] by (auto simp del: run_steps.simps)

text \<open>C25: a new source that claims a free slot at a non-zero time is let through
  exactly 1000 times, the claim included, until time passes: of \<open>n\<close> further
  requests at the same time \<open>min n 999\<close> succeed.\<close>

theorem ratelimit_burst:
  assumes "length rl = 256" and "now \<noteq> 0"
    and "probe rl eid ip (hash_key eid ip) [0..<RGTP_RATELIMIT_BUCKET_COUNT] None (- 1) = ProbeEmpty j"
  shows "burst (Suc n) eid ip now rl = Suc (min n 999)"
proof -
  let ?rl = "rl[j := claim_entry eid ip now]"
  have j: "j < 256" using probe_bound [where rl = rl and eid = eid and ip = ip and slot = "hash_key eid ip"
      and js = "[0..<RGTP_RATELIMIT_BUCKET_COUNT]" and oldest = None and ts = "- 1"] assms(3) by simp
  have loc: "located ?rl eid ip j"
    unfolding located_def
    by (rule probe_claim [OF _ _ assms(1,3)]) (use assms(2) in \<open>simp_all add: key_matches_def claim_entry_def\<close>)
  have "burst n eid ip now ?rl = min n 999"
    by (rule burst_int [OF loc]) (use assms(1) j in \<open>simp_all add: claim_tokens, simp add: claim_entry_def\<close>)
  then show ?thesis using assms(3) by (simp add: rgtp_ratelimit_check_def)
qed

theorem ratelimit_burst_witness: "burst 5000 (replicate 16 7) 1 5 rgtp_ratelimit_init = 1000"
proof -
  have "rgtp_ratelimit_init ! unat (w AND 255) = zero_entry" for w :: u32
    using unat_and_255 [of w] by (simp add: rgtp_ratelimit_init_def RGTP_RATELIMIT_BUCKET_COUNT_def)
  moreover have "[0..<RGTP_RATELIMIT_BUCKET_COUNT] = 0 # [1..<256]"
    by (simp add: RGTP_RATELIMIT_BUCKET_COUNT_def upt_conv_Cons)
  ultimately obtain j where "probe rgtp_ratelimit_init (replicate 16 7) 1 (hash_key (replicate 16 7) 1)
      [0..<RGTP_RATELIMIT_BUCKET_COUNT] None (- 1) = ProbeEmpty j"
    by (simp add: Let_def zero_entry_def)
  from ratelimit_burst [OF _ _ this, of 5 4999] show ?thesis
    by (simp add: rgtp_ratelimit_init_def RGTP_RATELIMIT_BUCKET_COUNT_def)
qed

text \<open>At time 0 nothing is limited: an entry whose time stamp is 0 counts as a free
  slot, so every request of a source whose first slot is free finds a full bucket.\<close>

theorem ratelimit_time_zero:
  "burst n eid ip 0 (rgtp_ratelimit_init[slot_at (hash_key eid ip) 0 := claim_entry eid ip 0]) = n"
proof -
  let ?k = "slot_at (hash_key eid ip) 0"
  let ?rl = "rgtp_ratelimit_init[?k := claim_entry eid ip 0]"
  have k: "?k < length rgtp_ratelimit_init"
    using slot_at_bound by (simp add: rgtp_ratelimit_init_def RGTP_RATELIMIT_BUCKET_COUNT_def)
  have "[0..<RGTP_RATELIMIT_BUCKET_COUNT] = 0 # [1..<256]"
    by (simp add: RGTP_RATELIMIT_BUCKET_COUNT_def upt_conv_Cons)
  then have "probe ?rl eid ip (hash_key eid ip) [0..<RGTP_RATELIMIT_BUCKET_COUNT] None (- 1) = ProbeEmpty ?k"
    using k by (simp add: Let_def slot_at_def claim_entry_def)
  then have "rgtp_ratelimit_check (Some ?rl) (Some eid) ip 0 = (None, Some ?rl)"
    by (simp add: rgtp_ratelimit_check_def)
  then show ?thesis by (induction n) simp_all
qed

end
