(* ===== verification/Rgtp_Surface.thy ===== *)
theory Rgtp_Surface
  imports Rgtp_Wire Rgtp_Merkle Rgtp_Replay Rgtp_Flow Rgtp_RateLimit "HOL-Library.Multiset"
begin

text \<open>
  The surface, the state that exposers and pullers share, from
  \<^verbatim>\<open>src/transport/rgtp_surface.c\<close> and
  \<^verbatim>\<open>rgtp_surface_internal.h\<close>: allocation for both roles, the
  release of everything a surface owns, progress, statistics and the latency report.
  Heap pointers of the structure are options; the arrays behind them are lists.
\<close>

subsection \<open>Structures\<close>

record rgtp_config =
  cfg_chunk_size :: u32
  cfg_window_size :: u32
  cfg_fec_enabled :: bool
  cfg_fec_k :: u8
  cfg_fec_n :: u8
  cfg_merkle_proofs :: bool
  cfg_raw_ethernet :: bool
  cfg_eth_iface :: bytes
  cfg_eth_vlan_id :: u16
  cfg_eth_vlan_pcp :: u8
  cfg_port :: u16
  cfg_timeout_ms :: int
  cfg_memory_profile :: u32
  cfg_allocator :: rgtp_allocator

definition zero_config :: rgtp_config where
  "zero_config = \<lparr>cfg_chunk_size = 0, cfg_window_size = 0, cfg_fec_enabled = False, cfg_fec_k = 0, cfg_fec_n = 0,
     cfg_merkle_proofs = False, cfg_raw_ethernet = False, cfg_eth_iface = replicate 16 0, cfg_eth_vlan_id = 0,
     cfg_eth_vlan_pcp = 0, cfg_port = 0, cfg_timeout_ms = 0, cfg_memory_profile = 0,
     cfg_allocator = \<lparr>alloc_fn = None, free_fn_set = False\<rparr>\<rparr>"

datatype rgtp_surface_state =
  RGTP_SURFACE_INITIALIZING | RGTP_SURFACE_ACTIVE | RGTP_SURFACE_DEGRADED | RGTP_SURFACE_DESTROYED

record rgtp_surface =
  s_exposure_id :: bytes
  s_total_size :: u64
  s_chunk_count :: u32
  s_chunk_size :: u32
  s_is_exposer :: bool
  s_state :: rgtp_surface_state
  s_key :: bytes
  s_merkle_root :: bytes
  s_chunks :: "bytes option list option"
  s_chunk_sizes :: "nat list option"
  s_merkle_proofs :: "bytes option list option"
  s_proof_depth :: u32
  s_recv_chunks :: "bytes option list option"
  s_recv_sizes :: "nat list option"
  s_recv_bitmap :: "u8 list option"
  s_chunks_received :: u32
  s_window_base :: u32
  s_replay :: rgtp_replay_window
  s_flow :: rgtp_flow
  s_ratelimit :: rgtp_ratelimit
  s_fec_enabled :: bool
  s_fec_k :: u8
  s_fec_n :: u8
  s_fec_parity :: "bytes option list option"
  s_bytes_sent :: u64
  s_bytes_received :: u64
  s_chunks_sent :: u32
  s_auth_failures :: u32
  s_malformed_packets :: u32
  s_fec_recoveries :: u32
  s_nak_sent :: u32
  s_latency_samples :: "u32 list"
  s_latency_head :: u32
  s_latency_count :: u32
  s_alloc :: rgtp_allocator
  s_config :: rgtp_config

text \<open>The structure after \<^verbatim>\<open>memset(s, 0, sizeof(*s))\<close>, and its
  size in the LP64 layout.\<close>

definition zero_surface :: rgtp_surface where
  "zero_surface = \<lparr>s_exposure_id = replicate 16 0, s_total_size = 0, s_chunk_count = 0, s_chunk_size = 0,
     s_is_exposer = False, s_state = RGTP_SURFACE_INITIALIZING, s_key = replicate 32 0, s_merkle_root = replicate 32 0,
     s_chunks = None, s_chunk_sizes = None, s_merkle_proofs = None, s_proof_depth = 0,
     s_recv_chunks = None, s_recv_sizes = None, s_recv_bitmap = None, s_chunks_received = 0, s_window_base = 0,
     s_replay = \<lparr>bitmap = replicate 4 0, base = 0\<rparr>,
     s_flow = \<lparr>rtt_us = 0, rtt_baseline_us = 0, rtt_sample_count = 0, window_size = 0, window_min = 0, window_max = 0,
       consecutive_low_rtt = 0, loss_rate = Fin 0, fec_overhead = Fin 0, pull_pressure = 0,
       pull_pressure_window_start_us = 0, pull_pressure_count = 0\<rparr>,
     s_ratelimit = replicate RGTP_RATELIMIT_BUCKET_COUNT zero_entry,
     s_fec_enabled = False, s_fec_k = 0, s_fec_n = 0, s_fec_parity = None,
     s_bytes_sent = 0, s_bytes_received = 0, s_chunks_sent = 0, s_auth_failures = 0, s_malformed_packets = 0,
     s_fec_recoveries = 0, s_nak_sent = 0, s_latency_samples = replicate 256 0, s_latency_head = 0, s_latency_count = 0,
     s_alloc = \<lparr>alloc_fn = None, free_fn_set = False\<rparr>, s_config = zero_config\<rparr>"

text \<open>The size of the structure in the LP64 layout, with its padding.\<close>

definition SURFACE_BYTES :: nat where "SURFACE_BYTES = 11824"

subsection \<open>Allocation\<close>

definition surface_alloc :: "mem_env \<Rightarrow> nat \<Rightarrow> rgtp_allocator option \<Rightarrow> rgtp_surface option" where
  "surface_alloc env c al =
    (if (case al of
           Some a \<Rightarrow> (case alloc_fn a of Some f \<Rightarrow> f c SURFACE_BYTES | None \<Rightarrow> rgtp_calloc env c 1 SURFACE_BYTES)
         | None \<Rightarrow> rgtp_calloc env c 1 SURFACE_BYTES)
     then Some zero_surface else None)"

definition surface_malloc :: "mem_env \<Rightarrow> nat \<Rightarrow> rgtp_surface \<Rightarrow> nat \<Rightarrow> bool" where
  "surface_malloc env c s sz = (case alloc_fn (s_alloc s) of Some f \<Rightarrow> f c sz | None \<Rightarrow> rgtp_malloc env c sz)"

text \<open>The product is a \<^verbatim>\<open>size_t\<close>.\<close>

definition surface_calloc :: "mem_env \<Rightarrow> nat \<Rightarrow> rgtp_surface \<Rightarrow> nat \<Rightarrow> nat \<Rightarrow> bool" where
  "surface_calloc env c s n sz = surface_malloc env c s (n * sz mod 2 ^ 64)"

definition surface_free_ptr :: "mem_env \<Rightarrow> rgtp_surface \<Rightarrow> bool \<Rightarrow> free_call" where
  "surface_free_ptr env s ptr = (if \<not> ptr then FreeNone else if free_fn_set (s_alloc s) then FreeCustom else rgtp_free env True)"

definition init_surface :: "rgtp_surface \<Rightarrow> rgtp_config option \<Rightarrow> bool \<Rightarrow> u32 \<Rightarrow> u32 \<Rightarrow> u64 \<Rightarrow> rgtp_surface" where
  "init_surface s cfg exposer chunk_count chunk_size total_size =
    s\<lparr>s_alloc := (case cfg of Some c \<Rightarrow> cfg_allocator c | None \<Rightarrow> s_alloc s),
      s_config := (case cfg of Some c \<Rightarrow> c | None \<Rightarrow> s_config s),
      s_is_exposer := exposer, s_state := RGTP_SURFACE_INITIALIZING,
      s_chunk_count := chunk_count, s_chunk_size := chunk_size, s_total_size := total_size\<rparr>"

definition initial_window :: "rgtp_config option \<Rightarrow> u32" where
  "initial_window cfg = (case cfg of Some c \<Rightarrow> cfg_window_size c | None \<Rightarrow> 64)"

definition rgtp_surface_alloc_exposer ::
    "mem_env \<Rightarrow> rgtp_config option \<Rightarrow> u32 \<Rightarrow> u32 \<Rightarrow> u64 \<Rightarrow> rgtp_surface option" where
  "rgtp_surface_alloc_exposer env cfg chunk_count chunk_size total_size = do {
     s \<leftarrow> surface_alloc env 0 (map_option cfg_allocator cfg);
     let s = init_surface s cfg True chunk_count chunk_size total_size;
     if \<not> surface_calloc env 1 s (unat chunk_count) 8 then None
     else if \<not> surface_calloc env 2 s (unat chunk_count) 8 then None
     else Some (s\<lparr>s_chunks := Some (replicate (unat chunk_count) None),
       s_chunk_sizes := Some (replicate (unat chunk_count) 0),
       s_ratelimit := rgtp_ratelimit_init, s_flow := rgtp_flow_init (initial_window cfg)\<rparr>)}"

definition rgtp_surface_alloc_puller ::
    "mem_env \<Rightarrow> rgtp_config option \<Rightarrow> u32 \<Rightarrow> u32 \<Rightarrow> u64 \<Rightarrow> rgtp_surface option" where
  "rgtp_surface_alloc_puller env cfg chunk_count chunk_size total_size = do {
     s \<leftarrow> surface_alloc env 0 (map_option cfg_allocator cfg);
     let s = init_surface s cfg False chunk_count chunk_size total_size;
     let bitmap_bytes = (chunk_count + 7) div 8;
     if \<not> surface_calloc env 1 s (unat chunk_count) 8 then None
     else if \<not> surface_calloc env 2 s (unat chunk_count) 8 then None
     else if \<not> surface_calloc env 3 s (unat bitmap_bytes) 1 then None
     else Some (s\<lparr>s_recv_chunks := Some (replicate (unat chunk_count) None),
       s_recv_sizes := Some (replicate (unat chunk_count) 0),
       s_recv_bitmap := Some (replicate (unat bitmap_bytes) 0),
       s_replay := rgtp_replay_window_init, s_flow := rgtp_flow_init (initial_window cfg)\<rparr>)}"

subsection \<open>Destruction\<close>

text \<open>The blocks a surface owns, and the actions of a destroy: the key is overwritten,
  and blocks are released.  A block that is \<^verbatim>\<open>NULL\<close> gives no
  action.\<close>

datatype block =
    ChunkBlock nat | ChunkArray | SizeArray | ProofBlock nat | ProofArray | ParityBlock nat | ParityArray
  | RecvBlock nat | RecvArray | RecvSizeArray | BitmapBlock | SurfaceBlock

datatype destroy_action = ZeroizeKey | Release block free_call

text \<open>The loop over an array of pointers, followed by the array itself; reading past
  the array is undefined.\<close>

definition release_array ::
    "mem_env \<Rightarrow> rgtp_surface \<Rightarrow> (nat \<Rightarrow> block) \<Rightarrow> block \<Rightarrow> nat \<Rightarrow> bytes option list option \<Rightarrow> destroy_action list option" where
  "release_array env s blk arr n ptr =
    (case ptr of
       None \<Rightarrow> Some []
     | Some xs \<Rightarrow>
         if length xs < n then None
         else Some (map (\<lambda>i. Release (blk i) (surface_free_ptr env s True)) (filter (\<lambda>i. xs ! i \<noteq> None) [0..<n])
           @ [Release arr (surface_free_ptr env s True)]))"

definition release_block :: "mem_env \<Rightarrow> rgtp_surface \<Rightarrow> block \<Rightarrow> bool \<Rightarrow> destroy_action list" where
  "release_block env s blk ptr = (if ptr then [Release blk (surface_free_ptr env s True)] else [])"

definition parity_count :: "rgtp_surface \<Rightarrow> nat" where
  "parity_count s = (if s_fec_n s > s_fec_k s then unat (s_fec_n s) - unat (s_fec_k s) else 0)"

definition rgtp_destroy_surface :: "mem_env \<Rightarrow> rgtp_surface option \<Rightarrow> destroy_action list option" where
  "rgtp_destroy_surface env surface =
    (case surface of
       None \<Rightarrow> Some []
     | Some s \<Rightarrow>
         if s_state s = RGTP_SURFACE_DESTROYED then Some []
         else do {
           let n = unat (s_chunk_count s);
           a1 \<leftarrow> release_array env s ChunkBlock ChunkArray n (s_chunks s);
           let a2 = release_block env s SizeArray (s_chunk_sizes s \<noteq> None);
           a3 \<leftarrow> release_array env s ProofBlock ProofArray n (s_merkle_proofs s);
           a4 \<leftarrow> release_array env s ParityBlock ParityArray (parity_count s) (s_fec_parity s);
           a5 \<leftarrow> release_array env s RecvBlock RecvArray n (s_recv_chunks s);
           let a6 = release_block env s RecvSizeArray (s_recv_sizes s \<noteq> None);
           let a7 = release_block env s BitmapBlock (s_recv_bitmap s \<noteq> None);
           Some (ZeroizeKey # a1 @ a2 @ a3 @ a4 @ a5 @ a6 @ a7 @
             [Release SurfaceBlock (if free_fn_set (s_alloc s) then FreeCustom else rgtp_free env True)])})"

subsection \<open>Queries\<close>

definition rgtp_get_exposure_id :: "rgtp_surface option \<Rightarrow> bool \<Rightarrow> bytes cres" where
  "rgtp_get_exposure_id surface out_id =
    (case surface of
       Some s \<Rightarrow> if \<not> out_id then err RGTP_ERR_INVALID_ARG else map_option Inr (mem_get (s_exposure_id s) 0 16)
     | None \<Rightarrow> err RGTP_ERR_INVALID_ARG)"

definition rgtp_progress :: "rgtp_surface option \<Rightarrow> flt" where
  "rgtp_progress surface =
    (case surface of
       None \<Rightarrow> Fin 0
     | Some s \<Rightarrow>
         if s_is_exposer s \<or> s_chunk_count s = 0 then Fin 0
         else f_div f32 (flt_of_u32 (s_chunks_received s)) (flt_of_u32 (s_chunk_count s)))"

record rgtp_stats =
  st_bytes_sent :: u64
  st_bytes_received :: u64
  st_chunks_sent :: u32
  st_chunks_received :: u32
  st_auth_failures :: u32
  st_malformed_packets :: u32
  st_fec_recoveries :: u32
  st_nak_sent :: u32
  st_packet_loss_rate :: flt
  st_rtt_us :: u32
  st_pull_pressure :: u32

definition rgtp_get_stats :: "rgtp_surface option \<Rightarrow> bool \<Rightarrow> rgtp_stats cres" where
  "rgtp_get_stats surface out =
    (case surface of
       None \<Rightarrow> err RGTP_ERR_INVALID_ARG
     | Some s \<Rightarrow>
         if \<not> out then err RGTP_ERR_INVALID_ARG
         else ok \<lparr>st_bytes_sent = s_bytes_sent s, st_bytes_received = s_bytes_received s, st_chunks_sent = s_chunks_sent s,
           st_chunks_received = s_chunks_received s, st_auth_failures = s_auth_failures s,
           st_malformed_packets = s_malformed_packets s, st_fec_recoveries = s_fec_recoveries s, st_nak_sent = s_nak_sent s,
           st_packet_loss_rate = loss_rate (s_flow s), st_rtt_us = rtt_us (s_flow s), st_pull_pressure = pull_pressure (s_flow s)\<rparr>)"

subsection \<open>Latency report\<close>

record rgtp_latency_stats =
  mean_us :: u32
  jitter_us :: u32
  p99_us :: u32
  min_us :: u32
  max_us :: u32
  sample_count :: u32

definition minmax_step :: "u32 \<Rightarrow> u64 \<times> u32 \<times> u32 \<Rightarrow> u64 \<times> u32 \<times> u32" where
  "minmax_step v st = (case st of (acc, mn, mx) \<Rightarrow>
    (acc + ucast v, if v < mn then v else mn, if v > mx then v else mx))"

definition jitter_step :: "u32 \<Rightarrow> u32 \<Rightarrow> u64 \<Rightarrow> u64" where
  "jitter_step mean v acc = acc + ucast (if v > mean then v - mean else mean - v)"

text \<open>The inner loop of the insertion sort; the argument is \<open>j + 1\<close>.\<close>

fun sort_shift :: "u32 list \<Rightarrow> nat \<Rightarrow> u32 \<Rightarrow> u32 list" where
  "sort_shift a 0 key = a[0 := key]"
| "sort_shift a (Suc j) key = (if a ! j > key then sort_shift (a[Suc j := a ! j]) j key else a[Suc j := key])"

definition insertion_sort :: "nat \<Rightarrow> u32 list \<Rightarrow> u32 list" where
  "insertion_sort n a = fold (\<lambda>i a. sort_shift a i (a ! i)) [1..<n] a"

definition rgtp_get_latency_stats :: "rgtp_surface option \<Rightarrow> bool \<Rightarrow> rgtp_latency_stats cres" where
  "rgtp_get_latency_stats surface out =
    (case surface of
       None \<Rightarrow> err RGTP_ERR_INVALID_ARG
     | Some s \<Rightarrow>
         if \<not> out then err RGTP_ERR_INVALID_ARG
         else if s_latency_count s = 0
         then ok \<lparr>mean_us = 0, jitter_us = 0, p99_us = 0, min_us = 0, max_us = 0, sample_count = 0\<rparr>
         else
           (let n = (if s_latency_count s < 256 then s_latency_count s else 256) in
            if length (s_latency_samples s) < unat n then None
            else
              (let xs = take (unat n) (s_latency_samples s);
                   (acc, mn, mx) = fold minmax_step xs (0, - 1, 0);
                   mean = ucast (acc div ucast n);
                   jitter_sum = fold (jitter_step mean) xs 0;
                   srt = insertion_sort (unat n) xs;
                   p99_idx = n * 99 div 100;
                   p99_idx = (if p99_idx \<ge> n then n - 1 else p99_idx)
               in ok \<lparr>mean_us = mean, jitter_us = ucast (jitter_sum div ucast n), p99_us = srt ! unat p99_idx,
                      min_us = mn, max_us = mx, sample_count = n\<rparr>)))"

subsection \<open>The sort\<close>

lemma insort_eqI: "sorted ys \<Longrightarrow> mset ys = mset (k # xs) \<Longrightarrow> sorted xs \<Longrightarrow> insort k xs = ys" for ys :: "u32 list"
  using properties_for_sort [of ys "k # xs"] by (simp add: sorted_sort_id)

lemma insort_last:
  fixes y k :: u32
  assumes "sorted (xs @ [y])"
  shows "k < y \<Longrightarrow> insort k (xs @ [y]) = insort k xs @ [y]" and "y \<le> k \<Longrightarrow> insort k (xs @ [y]) = xs @ [y, k]"
proof -
  have s: "sorted xs" "\<forall>x \<in> set xs. x \<le> y" using assms by (simp_all add: sorted_append)
  show "k < y \<Longrightarrow> insort k (xs @ [y]) = insort k xs @ [y]"
    using s assms by (intro insort_eqI) (auto simp: sorted_append set_insort_key sorted_insort)
  show "y \<le> k \<Longrightarrow> insort k (xs @ [y]) = xs @ [y, k]"
    using s assms by (intro insort_eqI) (auto simp: sorted_append intro: order_trans)
qed

lemma sort_shift_insort:
  "i < length a \<Longrightarrow> sorted (take i a) \<Longrightarrow> sort_shift a i key = insort key (take i a) @ drop (Suc i) a"
proof (induction i arbitrary: a)
  case 0
  then show ?case by (cases a) simp_all
next
  case (Suc j)
  have t: "take (Suc j) a = take j a @ [a ! j]" using Suc.prems(1) by (simp add: take_Suc_conv_app_nth)
  have st: "sorted (take j a @ [a ! j])" using Suc.prems(2) t by simp
  show ?case
  proof (cases "a ! j > key")
    case True
    let ?b = "a[Suc j := a ! j]"
    have "drop (Suc j) ?b = a ! j # drop (Suc (Suc j)) a"
      using Suc.prems(1) by (simp add: Cons_nth_drop_Suc [symmetric])
    moreover have "sort_shift ?b j key = insort key (take j a) @ drop (Suc j) ?b"
      using Suc.IH [of ?b] Suc.prems(1) st by (simp add: sorted_append)
    ultimately show ?thesis
      using True insort_last(1) [OF st True] t by simp
  next
    case False
    have "a[Suc j := key] = take (Suc j) a @ key # drop (Suc (Suc j)) a"
      using Suc.prems(1) by (rule upd_conv_take_nth_drop)
    with False insort_last(2) [OF st, of key] t show ?thesis by simp
  qed
qed

lemma insertion_sort_correct: "n \<le> length a \<Longrightarrow> insertion_sort n a = sort (take n a) @ drop n a"
proof (induction n)
  case (Suc n)
  show ?case
  proof (cases "n = 0")
    case True
    with Suc.prems show ?thesis by (cases a) (simp_all add: insertion_sort_def)
  next
    case False
    let ?b = "sort (take n a) @ drop n a"
    have "insertion_sort (Suc n) a = sort_shift ?b n (?b ! n)"
      using Suc False by (simp add: insertion_sort_def)
    also have "\<dots> = insort (a ! n) (sort (take n a)) @ drop (Suc n) a"
      using Suc.prems sort_shift_insort [of n ?b "?b ! n"] by (simp add: nth_append)
    also have "insort (a ! n) (sort (take n a)) = sort (take (Suc n) a)"
      using Suc.prems properties_for_sort [of "insort (a ! n) (sort (take n a))" "take (Suc n) a"]
      by (simp add: take_Suc_conv_app_nth sorted_insort)
    finally show ?thesis .
  qed
qed (simp add: insertion_sort_def)

subsection \<open>Sums\<close>

lemma add_u64: "unat a + unat b < 2 ^ 64 \<Longrightarrow> unat (a + b) = unat a + unat b" for a b :: u64
  using unat_of_nat [of "unat a + unat b", where 'a = 64] by (simp add: take_bit_nat_eq_self)

lemma minmax_fold:
  "unat t0 + length xs * 2 ^ 32 < 2 ^ 64 \<Longrightarrow>
    (case fold minmax_step xs (t0, mn, mx) of (t, mn', mx') \<Rightarrow>
      unat t = unat t0 + sum_list (map unat xs) \<and> mn' = Min (insert mn (set xs)) \<and> mx' = Max (insert mx (set xs)))"
proof (induction xs arbitrary: t0 mn mx)
  case (Cons v xs)
  have "unat t0 + unat v < 2 ^ 64" using Cons.prems unat_u32_bound [of v] by simp
  then have t: "unat (t0 + ucast v) = unat t0 + unat v"
    using add_u64 [of t0 "ucast v"] by (simp add: unat_ucast_32_64)
  then have "unat (t0 + ucast v) + length xs * 2 ^ 32 < 2 ^ 64" using Cons.prems unat_u32_bound [of v] by simp
  note IH = Cons.IH [OF this, of "min v mn" "max v mx"]
  have "(if v < mn then v else mn) = min v mn" "(if v > mx then v else mx) = max v mx" by (auto simp: min_def max_def)
  then have step: "minmax_step v (t0, mn, mx) = (t0 + ucast v, min v mn, max v mx)" by (simp add: minmax_step_def)
  have "Min (insert (min v mn) (set xs)) = Min (insert mn (set (v # xs)))"
      "Max (insert (max v mx) (set xs)) = Max (insert mx (set (v # xs)))"
    by (cases "xs = []"; simp add: min.commute max.commute min.left_commute max.left_commute)+
  with IH step t show ?case by (auto split: prod.splits)
qed simp

definition distance :: "u32 \<Rightarrow> u32 \<Rightarrow> nat" where
  "distance a b = (unat a - unat b) + (unat b - unat a)"

lemma jitter_diff: "unat (if v > m then v - m else m - v) = distance v m" for v m :: u32
  by (auto simp: distance_def unat_sub word_less_nat_alt word_le_nat_alt)

lemma jitter_fold:
  "unat t0 + length xs * 2 ^ 32 < 2 ^ 64 \<Longrightarrow>
    unat (fold (jitter_step m) xs t0) = unat t0 + sum_list (map (\<lambda>v. distance v m) xs)"
proof (induction xs arbitrary: t0)
  case (Cons v xs)
  let ?d = "if v > m then v - m else m - v"
  have "unat t0 + unat ?d < 2 ^ 64" using Cons.prems unat_u32_bound [of ?d] by simp
  then have t: "unat (jitter_step m v t0) = unat t0 + distance v m"
    using add_u64 [of t0 "ucast ?d"] jitter_diff [where v = v and m = m] by (simp only: unat_ucast_32_64 jitter_step_def)
  then have "unat (jitter_step m v t0) + length xs * 2 ^ 32 < 2 ^ 64"
    using Cons.prems unat_u32_bound [of ?d] jitter_diff [where v = v and m = m] by simp
  with Cons.IH t show ?case by simp
qed simp

subsection \<open>Ownership\<close>

text \<open>The arrays of a surface have an entry per chunk.\<close>

definition arrays_ok :: "rgtp_surface \<Rightarrow> bool" where
  "arrays_ok s \<longleftrightarrow>
    (\<forall>xs \<in> set_option (s_chunks s). length xs = unat (s_chunk_count s)) \<and>
    (\<forall>xs \<in> set_option (s_merkle_proofs s). length xs = unat (s_chunk_count s)) \<and>
    (\<forall>xs \<in> set_option (s_recv_chunks s). length xs = unat (s_chunk_count s)) \<and>
    (\<forall>xs \<in> set_option (s_fec_parity s). length xs = parity_count s)"

definition owned_array :: "(nat \<Rightarrow> block) \<Rightarrow> block \<Rightarrow> bytes option list option \<Rightarrow> block set" where
  "owned_array blk arr ptr =
    (case ptr of None \<Rightarrow> {} | Some xs \<Rightarrow> insert arr {blk i | i. i < length xs \<and> xs ! i \<noteq> None})"

definition owned :: "rgtp_surface \<Rightarrow> block set" where
  "owned s = owned_array ChunkBlock ChunkArray (s_chunks s) \<union> owned_array ProofBlock ProofArray (s_merkle_proofs s) \<union>
    owned_array ParityBlock ParityArray (s_fec_parity s) \<union> owned_array RecvBlock RecvArray (s_recv_chunks s) \<union>
    (if s_chunk_sizes s \<noteq> None then {SizeArray} else {}) \<union> (if s_recv_sizes s \<noteq> None then {RecvSizeArray} else {}) \<union>
    (if s_recv_bitmap s \<noteq> None then {BitmapBlock} else {}) \<union> {SurfaceBlock}"

fun released :: "destroy_action list \<Rightarrow> block list" where
  "released [] = []"
| "released (ZeroizeKey # xs) = released xs"
| "released (Release b f # xs) = b # released xs"

lemma released_append [simp]: "released (xs @ ys) = released xs @ released ys"
  by (induction xs rule: released.induct) simp_all

lemma released_map [simp]: "released (map (\<lambda>i. Release (f i) (g i)) xs) = map f xs"
  by (induction xs) simp_all

lemma release_array_owned:
  assumes "\<forall>xs \<in> set_option ptr. length xs = n" and "inj blk" and "arr \<notin> range blk"
  obtains acts where "release_array env s blk arr n ptr = Some acts" "distinct (released acts)"
    "set (released acts) = owned_array blk arr ptr"
proof (cases ptr)
  case None
  then show thesis using that by (simp add: release_array_def owned_array_def)
next
  case (Some xs)
  let ?acts = "map (\<lambda>i. Release (blk i) (surface_free_ptr env s True)) (filter (\<lambda>i. xs ! i \<noteq> None) [0..<n])
      @ [Release arr (surface_free_ptr env s True)]"
  have "release_array env s blk arr n ptr = Some ?acts" using Some assms(1) by (simp add: release_array_def)
  moreover have "distinct (released ?acts)"
    using assms(2,3) by (auto simp: distinct_map intro: inj_on_subset)
  moreover have "set (released ?acts) = owned_array blk arr ptr"
    using Some assms(1) by (auto simp: owned_array_def)
  ultimately show thesis by (rule that)
qed

lemma released_block: "released (release_block env s b p) = (if p then [b] else [])"
  by (simp add: release_block_def)

lemma owned_array_disjoint:
  "owned_array ChunkBlock ChunkArray q1 \<inter> owned_array ProofBlock ProofArray q2 = {}"
  "owned_array ChunkBlock ChunkArray q1 \<inter> owned_array ParityBlock ParityArray q3 = {}"
  "owned_array ChunkBlock ChunkArray q1 \<inter> owned_array RecvBlock RecvArray q4 = {}"
  "owned_array ProofBlock ProofArray q2 \<inter> owned_array ParityBlock ParityArray q3 = {}"
  "owned_array ProofBlock ProofArray q2 \<inter> owned_array RecvBlock RecvArray q4 = {}"
  "owned_array ParityBlock ParityArray q3 \<inter> owned_array RecvBlock RecvArray q4 = {}"
  by (auto simp: owned_array_def split: option.splits)

lemma owned_array_single:
  "SizeArray \<notin> owned_array ChunkBlock ChunkArray p" "SizeArray \<notin> owned_array ProofBlock ProofArray p"
  "SizeArray \<notin> owned_array ParityBlock ParityArray p" "SizeArray \<notin> owned_array RecvBlock RecvArray p"
  "RecvSizeArray \<notin> owned_array ChunkBlock ChunkArray p" "RecvSizeArray \<notin> owned_array ProofBlock ProofArray p"
  "RecvSizeArray \<notin> owned_array ParityBlock ParityArray p" "RecvSizeArray \<notin> owned_array RecvBlock RecvArray p"
  "BitmapBlock \<notin> owned_array ChunkBlock ChunkArray p" "BitmapBlock \<notin> owned_array ProofBlock ProofArray p"
  "BitmapBlock \<notin> owned_array ParityBlock ParityArray p" "BitmapBlock \<notin> owned_array RecvBlock RecvArray p"
  "SurfaceBlock \<notin> owned_array ChunkBlock ChunkArray p" "SurfaceBlock \<notin> owned_array ProofBlock ProofArray p"
  "SurfaceBlock \<notin> owned_array ParityBlock ParityArray p" "SurfaceBlock \<notin> owned_array RecvBlock RecvArray p"
  by (auto simp: owned_array_def split: option.splits)

lemma block_arrays [simp]:
  "inj ChunkBlock" "inj ProofBlock" "inj ParityBlock" "inj RecvBlock"
  "ChunkArray \<notin> range ChunkBlock" "ProofArray \<notin> range ProofBlock"
  "ParityArray \<notin> range ParityBlock" "RecvArray \<notin> range RecvBlock"
  by (auto intro: injI)

subsection \<open>Quotients\<close>

lemma mean_bound:
  assumes "\<And>v. h v < 2 ^ 32" and "xs \<noteq> []"
  shows "sum_list (map h xs) div length xs < 2 ^ 32"
proof -
  have "h v \<le> 4294967295" for v using assms(1) [of v] by simp
  then have "sum_list (map h ys) \<le> length ys * 4294967295" for ys
    by (induction ys) (simp_all add: add_mono)
  then have "sum_list (map h xs) div length xs \<le> length xs * 4294967295 div length xs" by (rule div_le_mono)
  also have "\<dots> = 4294967295" using assms(2) by simp
  finally show ?thesis by simp
qed

lemma percentile_index:
  fixes w :: u32
  assumes "0 < unat w" and "unat w \<le> 256"
  shows "unat (w * 99 div 100) = unat w * 99 div 100" and "\<not> w \<le> w * 99 div 100"
proof -
  have "w * 99 = word_of_nat (unat w * 99)" by simp
  then have "unat (w * 99) = unat w * 99" using assms(2) by (simp only: word_of_nat_unat_32)
  then show "unat (w * 99 div 100) = unat w * 99 div 100" by (simp add: unat_div)
  then show "\<not> w \<le> w * 99 div 100" using assms(1) by (simp add: word_le_nat_alt)
qed

subsection \<open>Properties\<close>



text \<open>C32: the latency report over the \<open>n\<close> recorded samples, at most 256.  The
  mean is the sum over \<open>n\<close>, rounded down and without overflow; minimum and maximum
  are those of the samples; the field for the 99th percentile is the element at index
  \<open>99 n / 100\<close> of the sorted samples.  The jitter field is the mean absolute
  deviation of the samples from the reported mean, rounded down, as the comment in
  \<^verbatim>\<open>rgtp_surface.c\<close> says; it is neither a variance nor about the times
  between arrivals, which is what the comment in \<^verbatim>\<open>rgtp.h\<close>
  announces.\<close>

theorem latency_stats_correct:
  assumes "s_latency_count s \<noteq> 0" and "length (s_latency_samples s) = 256"
    and "n = min 256 (unat (s_latency_count s))" and "xs = take n (s_latency_samples s)"
  shows "\<exists>r. rgtp_get_latency_stats (Some s) True = ok r \<and>
    unat (mean_us r) = sum_list (map unat xs) div n \<and>
    unat (jitter_us r) = sum_list (map (\<lambda>v. distance v (mean_us r)) xs) div n \<and>
    min_us r = Min (set xs) \<and> max_us r = Max (set xs) \<and> p99_us r = sort xs ! (n * 99 div 100) \<and>
    unat (sample_count r) = n"
proof -
  define w where "w = (if s_latency_count s < 256 then s_latency_count s else 256)"
  have w: "unat w = n" unfolding w_def assms(3) by (auto simp: word_less_nat_alt)
  have n: "0 < n" "n \<le> 256" using assms(1,3) by (auto simp: unat_gt_0)
  have len: "length xs = n" "xs \<noteq> []" using assms(2,4) n by auto
  obtain t mn mx where f: "fold minmax_step xs (0, - 1, 0) = (t, mn, mx)" by (metis prod_cases3)
  have "unat (0 :: u64) + length xs * 2 ^ 32 < 2 ^ 64" using n(2) len(1) by simp
  note folds = minmax_fold [OF this, of "- 1" 0] jitter_fold [OF this]
  have t: "unat t = sum_list (map unat xs)" and mn: "mn = Min (insert (- 1) (set xs))" and mx: "mx = Max (insert 0 (set xs))"
    using folds(1) f by auto
  define mean :: u32 where "mean = ucast (t div ucast w)"
  define j where "j = fold (jitter_step mean) xs 0"
  have mean: "unat mean = sum_list (map unat xs) div n"
    unfolding mean_def using u64_div_u32 [of t w] t w mean_bound [of unat xs] unat_u32_bound len by simp
  have j: "unat j = sum_list (map (\<lambda>v. distance v mean) xs)" using folds(2) [of mean] by (simp add: j_def)
  have dist: "distance v mean < 2 ^ 32" for v
    using unat_u32_bound [of v] unat_u32_bound [of mean] by (auto simp: distance_def)
  have jit: "unat (ucast (j div ucast w) :: u32) = sum_list (map (\<lambda>v. distance v mean) xs) div n"
    using u64_div_u32 [of j w] j w mean_bound [of "\<lambda>v. distance v mean" xs] dist len by simp
  have "mn = Min (set xs)" unfolding mn using len(2) word_order.extremum [of "Min (set xs)"] by (simp add: min_absorb2)
  moreover have "mx = Max (set xs)" unfolding mx using len(2) by (simp add: max_def)
  moreover have "unat (w * 99 div 100) = n * 99 div 100" "\<not> w \<le> w * 99 div 100"
    using percentile_index [of w] n w by simp_all
  moreover have "insertion_sort n xs = sort xs" using insertion_sort_correct [of n xs] len by simp
  moreover have "rgtp_get_latency_stats (Some s) True = ok \<lparr>mean_us = mean, jitter_us = ucast (j div ucast w),
      p99_us = insertion_sort n xs ! unat (if w \<le> w * 99 div 100 then w - 1 else w * 99 div 100),
      min_us = mn, max_us = mx, sample_count = w\<rparr>"
    using assms(1,2,4) n(2) w f by (simp add: rgtp_get_latency_stats_def Let_def w_def [symmetric] mean_def [symmetric] j_def)
  ultimately show ?thesis using mean jit w by simp
qed

theorem latency_stats_correct_witness:
  "\<exists>r. rgtp_get_latency_stats (Some (zero_surface\<lparr>s_latency_count := 3, s_latency_samples := [30, 10, 20] @ replicate 253 0\<rparr>)) True
    = ok r \<and> unat (mean_us r) = 20 \<and> unat (jitter_us r) = 6 \<and> min_us r = 10 \<and> max_us r = 30 \<and> p99_us r = 30"
proof -
  let ?s = "zero_surface\<lparr>s_latency_count := 3, s_latency_samples := [30, 10, 20] @ replicate 253 0\<rparr>"
  have "s_latency_count ?s \<noteq> 0" "length (s_latency_samples ?s) = 256" "3 = min 256 (unat (s_latency_count ?s))"
      "[30, 10, 20] = take 3 (s_latency_samples ?s)"
    by simp_all
  from latency_stats_correct [OF this] obtain r where r: "rgtp_get_latency_stats (Some ?s) True = ok r"
      "unat (mean_us r) = 20" "unat (jitter_us r) = sum_list (map (\<lambda>v. distance v (mean_us r)) [30, 10, 20]) div 3"
      "min_us r = 10" "max_us r = 30" "p99_us r = 30"
    by auto
  have "mean_us r = 20" using r(2) by (simp add: word_unat_eq_iff)
  then show ?thesis using r by (auto simp: distance_def)
qed

end
