(* ===== verification/Rgtp_Exposer.thy ===== *)
theory Rgtp_Exposer
  imports Rgtp_Surface
begin

text \<open>
  The exposer of \<^verbatim>\<open>src/transport/rgtp_exposer.c\<close>: exposing data,
  which encrypts every chunk and builds the Merkle tree, and the poll that answers one
  pull request, together with the appending of chunks from
  \<^verbatim>\<open>rgtp_streaming.c\<close>.  The socket is a parameter of the poll: the
  datagram that was received, its sender and the two readings of the clock; the
  datagrams that it sends are part of the result.  The outcome of
  \<^verbatim>\<open>sendto\<close> is ignored by the code.
\<close>

subsection \<open>Exposing\<close>

definition RGTP_MAX_UDP_PAYLOAD :: nat where "RGTP_MAX_UDP_PAYLOAD = 65507"
definition RGTP_DEFAULT_CHUNK_SIZE_UDP :: u32 where "RGTP_DEFAULT_CHUNK_SIZE_UDP = 1200"
definition RGTP_PULL_FLAG_WANT_PROOF :: u32 where "RGTP_PULL_FLAG_WANT_PROOF = 1"

definition expose_chunk_size :: "rgtp_config option \<Rightarrow> u32" where
  "expose_chunk_size cfg =
    (let cs = (case cfg of Some c \<Rightarrow> cfg_chunk_size c | None \<Rightarrow> 0)
     in if cs = 0 then RGTP_DEFAULT_CHUNK_SIZE_UDP else cs)"

text \<open>The number of chunks: the sum is a \<^verbatim>\<open>size_t\<close> and the
  quotient is cut to \<^verbatim>\<open>uint32_t\<close>.\<close>

definition expose_chunk_count :: "nat \<Rightarrow> u32 \<Rightarrow> u32" where
  "expose_chunk_count sz cs = word_of_nat ((sz + unat cs - 1) mod 2 ^ 64 div unat cs)"

definition plain_len :: "nat \<Rightarrow> u32 \<Rightarrow> nat \<Rightarrow> nat" where
  "plain_len sz cs i = (if i * unat cs + unat cs > sz then sz - i * unat cs else unat cs)"

definition plain_chunk :: "bytes \<Rightarrow> u32 \<Rightarrow> nat \<Rightarrow> bytes option" where
  "plain_chunk d cs i = mem_get d (i * unat cs) (plain_len (length d) cs i)"

text \<open>The encryption loop: the buffer of chunk \<open>i\<close> is allocation number
  \<open>3 + i\<close>.\<close>

fun encrypt_loop :: "crypto_backend \<Rightarrow> mem_env \<Rightarrow> bytes \<Rightarrow> bytes \<Rightarrow> u32 \<Rightarrow> nat list \<Rightarrow> bytes list cres" where
  "encrypt_loop cb env key d cs [] = ok []"
| "encrypt_loop cb env key d cs (i # is) = do {
     pt \<leftarrow> plain_chunk d cs i;
     if \<not> rgtp_malloc env (3 + i) (length pt + RGTP_AEAD_TAG_BYTES) then err RGTP_ERR_NOMEM
     else cbind (rgtp_encrypt_chunk cb (Some key) (word_of_nat i) (Some pt) True) (\<lambda>ct.
       cbind (encrypt_loop cb env key d cs is) (\<lambda>cts. ok (ct # cts)))}"

text \<open>The fields that a successful exposure sets.\<close>

definition finish_expose ::
    "rgtp_surface \<Rightarrow> rgtp_config option \<Rightarrow> bytes \<Rightarrow> bytes \<Rightarrow> bytes list \<Rightarrow> bytes \<Rightarrow> bytes list option \<Rightarrow> u32 \<Rightarrow> rgtp_surface" where
  "finish_expose s cfg eid key cts rt proofs depth =
    (let s = s\<lparr>s_exposure_id := eid, s_key := key, s_chunks := Some (map Some cts),
           s_chunk_sizes := Some (map length cts), s_merkle_root := rt,
           s_merkle_proofs := map_option (map Some) proofs, s_proof_depth := depth\<rparr>;
         s = (case cfg of
             Some c \<Rightarrow> if cfg_fec_enabled c \<and> cfg_fec_k c > 0 \<and> cfg_fec_n c > cfg_fec_k c
               then s\<lparr>s_fec_enabled := True, s_fec_k := cfg_fec_k c, s_fec_n := cfg_fec_n c\<rparr> else s
           | None \<Rightarrow> s)
     in s\<lparr>s_state := RGTP_SURFACE_ACTIVE\<rparr>)"

definition rgtp_expose ::
    "crypto_backend \<Rightarrow> mem_env \<Rightarrow> bool \<Rightarrow> bytes option \<Rightarrow> rgtp_config option \<Rightarrow> bool \<Rightarrow> rgtp_surface cres" where
  "rgtp_expose cb env sock data_ptr cfg out_surface =
    (case data_ptr of
       None \<Rightarrow> err RGTP_ERR_INVALID_ARG
     | Some d \<Rightarrow>
         if \<not> sock \<or> length d = 0 \<or> \<not> out_surface then err RGTP_ERR_INVALID_ARG
         else
           (let chunk_size = expose_chunk_size cfg; chunk_count = expose_chunk_count (length d) chunk_size;
                n = unat chunk_count in
            if chunk_count = 0 then err RGTP_ERR_INVALID_ARG
            else (case rgtp_surface_alloc_exposer env cfg chunk_count chunk_size (word_of_nat (length d)) of
                None \<Rightarrow> err RGTP_ERR_NOMEM
              | Some s \<Rightarrow>
                  cbind (rgtp_generate_exposure_id cb 0 True) (\<lambda>eid.
                  cbind (rgtp_csprng_bytes cb 1 True RGTP_AEAD_KEY_BYTES) (\<lambda>key.
                  cbind (encrypt_loop cb env key d chunk_size [0..<n]) (\<lambda>cts.
                  if \<not> rgtp_malloc env (3 + n) (n * 8) \<or> \<not> rgtp_malloc env (4 + n) (n * 8) then err RGTP_ERR_NOMEM
                  else
                    cbind (rgtp_merkle_build cb (shift_env (5 + n) env) (Some (map (plain_chunk d chunk_size) [0..<n]))
                        chunk_count True (case cfg of Some c \<Rightarrow> cfg_merkle_proofs c | None \<Rightarrow> False))
                      (\<lambda>(rt, proofs, depth).
                        ok (finish_expose s cfg eid key cts rt proofs depth))))))))"

subsection \<open>Appending a chunk\<close>

text \<open>Allocations: the two arrays and the ciphertext.  The copy reads as many entries
  of the old arrays as there are chunks; a surface that has chunks and no arrays would be
  left with indeterminate entries and is \<open>None\<close> here.  When the chunk could
  not be stored its size entry is indeterminate as well; it lies beyond the chunk count,
  is never read, and stands as 0.\<close>

definition evict_oldest :: "rgtp_surface \<Rightarrow> rgtp_surface option" where
  "evict_oldest s = do {
     chunks \<leftarrow> s_chunks s;
     let e = unat (s_window_base s);
     if e < length chunks
     then Some (s\<lparr>s_chunks := Some (chunks[e := None]), s_window_base := s_window_base s + 1\<rparr>)
     else None}"

definition rgtp_expose_append_chunk ::
    "crypto_backend \<Rightarrow> mem_env \<Rightarrow> rgtp_surface option \<Rightarrow> bytes option \<Rightarrow> u32 \<Rightarrow>
      (rgtp_error option \<times> rgtp_surface option) option" where
  "rgtp_expose_append_chunk cb env surface chunk_data window =
    (case (surface, chunk_data) of
       (Some s, Some d) \<Rightarrow>
         if length d = 0 then Some (Some RGTP_ERR_INVALID_ARG, surface)
         else if \<not> s_is_exposer s \<or> s_state s \<noteq> RGTP_SURFACE_ACTIVE then Some (Some RGTP_ERR_INVALID_ARG, surface)
         else
           (let new_idx = s_chunk_count s; k = unat new_idx in
            if \<not> rgtp_malloc env 0 (unat (new_idx + 1) * 8) \<or> \<not> rgtp_malloc env 1 (unat (new_idx + 1) * 8)
            then Some (Some RGTP_ERR_NOMEM, surface)
            else
              (let chunks = (case s_chunks s of Some xs \<Rightarrow> xs | None \<Rightarrow> []);
                   sizes = (case s_chunk_sizes s of Some xs \<Rightarrow> xs | None \<Rightarrow> []) in
               if length chunks < k \<or> length sizes < k then None
               else
                 (let grow = (\<lambda>c z. s\<lparr>s_chunks := Some (take k chunks @ [c]), s_chunk_sizes := Some (take k sizes @ [z])\<rparr>) in
                  if \<not> rgtp_malloc env 2 (length d + RGTP_AEAD_TAG_BYTES) then Some (Some RGTP_ERR_NOMEM, Some (grow None 0))
                  else (case rgtp_encrypt_chunk cb (Some (s_key s)) new_idx (Some d) True of
                      None \<Rightarrow> None
                    | Some (Inl e) \<Rightarrow> Some (Some e, Some (grow None 0))
                    | Some (Inr ct) \<Rightarrow>
                        (let s = (grow (Some ct) (length ct))\<lparr>s_chunk_count := new_idx + 1,
                               s_total_size := s_total_size s + word_of_nat (length d)\<rparr>
                         in if window > 0 \<and> s_chunk_count s > window
                            then map_option (\<lambda>s. (None, Some s)) (evict_oldest s)
                            else Some (None, Some s))))))
     | _ \<Rightarrow> Some (Some RGTP_ERR_INVALID_ARG, surface))"

subsection \<open>Answering a pull request\<close>

text \<open>The packet for chunk \<open>idx\<close>, if the chunk is there.  The arrays are read
  at \<open>idx\<close> without a check.\<close>

definition chunk_packet :: "rgtp_surface \<Rightarrow> bool \<Rightarrow> nat \<Rightarrow> rgtp_packet option option" where
  "chunk_packet s want_proof idx = do {
     chunks \<leftarrow> s_chunks s;
     if length chunks \<le> idx then None
     else (case chunks ! idx of
         None \<Rightarrow> Some None
       | Some ct \<Rightarrow> do {
           pf \<leftarrow> (case s_merkle_proofs s of
               Some ps \<Rightarrow> if \<not> want_proof then Some None else if idx < length ps then Some (ps ! idx) else None
             | None \<Rightarrow> Some None);
           sizes \<leftarrow> s_chunk_sizes s;
           if length sizes \<le> idx then None
           else Some (Some (case pf of
               Some p \<Rightarrow> ChunkWithProof \<lparr>cp_exposure_id = s_exposure_id s, cp_chunk_index = word_of_nat idx,
                 cp_proof_depth = ucast (s_proof_depth s), cp_proof = Some p, cp_payload = Some ct,
                 cp_payload_len = word_of_nat (sizes ! idx)\<rparr>
             | None \<Rightarrow> ChunkData \<lparr>cd_exposure_id = s_exposure_id s, cd_chunk_index = word_of_nat idx,
                 cd_payload = Some ct, cd_payload_len = word_of_nat (sizes ! idx)\<rparr>))})}"

fun serve_loop :: "nat list \<Rightarrow> bool \<Rightarrow> rgtp_surface \<Rightarrow> bytes \<Rightarrow> (rgtp_surface \<times> bytes list) option" where
  "serve_loop [] want_proof s buf = Some (s, [])"
| "serve_loop (idx # is) want_proof s buf =
    (if idx \<ge> unat (s_chunk_count s) then Some (s, [])
     else do {
       p \<leftarrow> chunk_packet s want_proof idx;
       case p of
         None \<Rightarrow> serve_loop is want_proof s buf
       | Some pkt \<Rightarrow> do {
           r \<leftarrow> rgtp_serialize_packet (Some pkt) (Some buf) True;
           case r of
             Inl e \<Rightarrow> serve_loop is want_proof s buf
           | Inr (buf', n) \<Rightarrow> do {
               (s', sent) \<leftarrow> serve_loop is want_proof
                 (s\<lparr>s_bytes_sent := s_bytes_sent s + word_of_nat n, s_chunks_sent := s_chunks_sent s + 1\<rparr>) buf';
               Some (s', take n buf' # sent)}}})"

definition manifest_packet :: "rgtp_surface \<Rightarrow> rgtp_packet" where
  "manifest_packet s = Manifest \<lparr>mf_exposure_id = s_exposure_id s, mf_total_size = s_total_size s,
     mf_chunk_count = s_chunk_count s, mf_chunk_size = s_chunk_size s, mf_merkle_root = s_merkle_root s,
     mf_fec_n = s_fec_n s, mf_fec_k = s_fec_k s, mf_flags = 0\<rparr>"

definition clamp_window :: "rgtp_surface \<Rightarrow> u32 \<Rightarrow> u32" where
  "clamp_window s requested =
    (let w = (if requested = 0 then 1 else requested) in if w > s_chunk_count s then s_chunk_count s else w)"

text \<open>The answer to a request that passed the checks: the manifest, then the
  chunks.\<close>

definition answer_pull :: "rgtp_surface \<Rightarrow> rgtp_pull_request \<Rightarrow> bytes \<Rightarrow> (rgtp_surface \<times> bytes list) option" where
  "answer_pull s req send_buf = do {
     r \<leftarrow> rgtp_serialize_packet (Some (manifest_packet s)) (Some send_buf) True;
     let (send_buf, first) = (case r of Inl e \<Rightarrow> (send_buf, []) | Inr (b, n) \<Rightarrow> (b, [take n b]));
     (s', sent) \<leftarrow> serve_loop [0..<unat (clamp_window s (pr_window_size req))] (pr_flags req AND RGTP_PULL_FLAG_WANT_PROOF \<noteq> 0) s send_buf;
     Some (s', first @ sent)}"

text \<open>One poll.  The datagram is \<open>None\<close> when \<^verbatim>\<open>recvfrom\<close>
  fails or times out, and an empty one counts as none; the sender is \<open>None\<close> when it is not an IPv4 address.\<close>

definition rgtp_poll ::
    "rgtp_surface option \<Rightarrow> bytes option \<Rightarrow> u32 option \<Rightarrow> u64 \<Rightarrow> u64 \<Rightarrow> bytes \<Rightarrow>
      (rgtp_error option \<times> rgtp_surface option \<times> bytes list) option" where
  "rgtp_poll surface datagram sender now1 now2 send_buf =
    (case surface of
       None \<Rightarrow> Some (Some RGTP_ERR_INVALID_ARG, surface, [])
     | Some s \<Rightarrow>
         if \<not> s_is_exposer s then Some (Some RGTP_ERR_INVALID_ARG, surface, [])
         else if s_state s = RGTP_SURFACE_DESTROYED then Some (Some RGTP_ERR_INVALID_ARG, surface, [])
         else (case datagram of
             None \<Rightarrow> Some (None, surface, [])
           | Some dg \<Rightarrow> if dg = [] then Some (None, surface, []) else do {
               r \<leftarrow> rgtp_parse_packet (Some (take (RGTP_MAX_UDP_PAYLOAD + 4) dg)) (s_chunk_count s) True;
               case r of
                 Inl e \<Rightarrow> Some (None, Some (s\<lparr>s_malformed_packets := s_malformed_packets s + 1\<rparr>), [])
               | Inr (PullRequest req) \<Rightarrow>
                   if pr_exposure_id req \<noteq> s_exposure_id s then Some (None, surface, [])
                   else
                     (case rgtp_ratelimit_check (Some (s_ratelimit s)) (Some (s_exposure_id s)) (case sender of Some ip \<Rightarrow> ip | None \<Rightarrow> 0) now1 of
                        (e, Some rl) \<Rightarrow>
                          (let s = s\<lparr>s_ratelimit := rl\<rparr> in
                           if e = Some RGTP_ERR_RATE_LIMITED then Some (None, Some s, [])
                           else do {
                             (s', sent) \<leftarrow> answer_pull (s\<lparr>s_flow := rgtp_flow_record_pull (s_flow s) now2\<rparr>) req send_buf;
                             Some (None, Some s', sent)})
                      | (e, None) \<Rightarrow> None)
               | Inr _ \<Rightarrow> Some (None, surface, [])}))"

subsection \<open>The slices of the data\<close>

definition slice :: "bytes \<Rightarrow> nat \<Rightarrow> nat \<Rightarrow> bytes" where
  "slice d c i = take c (drop (i * c) d)"

lemma slices_concat: "concat (map (slice d c) [0..<n]) = take (n * c) d"
  by (induction n) (simp_all add: slice_def take_add [symmetric] add.commute)

lemma slice_length: "length (slice d c i) \<le> c"
  by (simp add: slice_def)

text \<open>The chunk count for data of at most \<open>2 ^ 26\<close> bytes.\<close>

lemma chunk_count_small:
  assumes "0 < length d" and "length d \<le> 2 ^ 26" and "cs \<noteq> 0"
  defines "n \<equiv> unat (expose_chunk_count (length d) cs)"
  shows "n = (length d + unat cs - 1) div unat cs" and "0 < n" and "n \<le> 2 ^ 26" and "length d \<le> n * unat cs"
    and "i < n \<Longrightarrow> i * unat cs < length d"
proof -
  let ?c = "unat cs"
  have c: "0 < ?c" "?c < 2 ^ 32" using assms(3) unat_u32_bound [of cs] by (simp_all add: unat_gt_0)
  let ?q = "(length d + ?c - 1) div ?c"
  have pred: "length d + ?c - 1 = (length d - 1) + ?c" using assms(1) by linarith
  have q: "?q = (length d - 1) div ?c + 1" unfolding pred using c(1) by simp
  have "(length d - 1) div ?c \<le> length d - 1" by (rule div_le_dividend)
  then have le: "?q \<le> length d" using q assms(1) by linarith
  have "(length d + ?c - 1) mod 2 ^ 64 = length d + ?c - 1" using assms(2) c(2) by (intro mod_less) simp
  then show n: "n = ?q"
    unfolding n_def expose_chunk_count_def using le assms(2) by (simp add: word_of_nat_unat_32)
  show "0 < n" "n \<le> 2 ^ 26" using n q le assms(2) by simp_all
  have dm: "(length d - 1) div ?c * ?c + (length d - 1) mod ?c = length d - 1" by (rule div_mult_mod_eq)
  have "(length d - 1) mod ?c < ?c" using c(1) by simp
  then show "length d \<le> n * ?c" unfolding n q distrib_right using dm assms(1) by linarith
  assume "i < n"
  then have "i \<le> (length d - 1) div ?c" using n q by simp
  then have "i * ?c \<le> (length d - 1) div ?c * ?c" by (rule mult_le_mono1)
  then show "i * ?c < length d" using dm assms(1) by linarith
qed

lemma plain_chunk_slice: "i * unat cs < length d \<Longrightarrow> plain_chunk d cs i = Some (slice d (unat cs) i)"
  by (auto simp: plain_chunk_def plain_len_def mem_get_def slice_def)

lemma expose_chunk_size_nonzero [simp]: "expose_chunk_size cfg \<noteq> 0"
  by (simp add: expose_chunk_size_def RGTP_DEFAULT_CHUNK_SIZE_UDP_def Let_def)

subsection \<open>What an exposure holds\<close>

text \<open>The random generator fills the buffer that it is given.\<close>

definition random_lawful :: "crypto_backend \<Rightarrow> bool" where
  "random_lawful cb \<longleftrightarrow> (\<forall>c len b. random_bytes cb c len = Some b \<longrightarrow> length b = len)"

text \<open>A backend that never fails.\<close>

definition backend_total :: "crypto_backend \<Rightarrow> bool" where
  "backend_total cb \<longleftrightarrow> (\<forall>k n p. \<exists>c. aead_seal cb k n p = AeadOk c) \<and>
     (\<forall>c len. \<exists>b. random_bytes cb c len = Some b) \<and> digest_total cb"

definition proofs_ok :: "crypto_backend \<Rightarrow> rgtp_surface \<Rightarrow> bytes list \<Rightarrow> bool" where
  "proofs_ok cb s pts \<longleftrightarrow> (\<forall>ps. s_merkle_proofs s = Some ps \<longrightarrow> length ps = length pts \<and>
     (\<forall>i < length pts. \<exists>p. ps ! i = Some p \<and> length p = unat (s_proof_depth s) * 32 \<and>
       rgtp_merkle_verify cb (Some (pts ! i)) (Some p) (s_proof_depth s) (word_of_nat i) (Some (s_merkle_root s)) = ok ()))"

definition exposed :: "crypto_backend \<Rightarrow> rgtp_surface \<Rightarrow> bytes list \<Rightarrow> bytes list \<Rightarrow> bool" where
  "exposed cb s pts cts \<longleftrightarrow>
     length cts = unat (s_chunk_count s) \<and> length pts = unat (s_chunk_count s) \<and>
     s_chunks s = Some (map Some cts) \<and> s_chunk_sizes s = Some (map length cts) \<and>
     length (s_exposure_id s) = 16 \<and> length (s_key s) = RGTP_AEAD_KEY_BYTES \<and>
     length (s_merkle_root s) = 32 \<and> unat (s_proof_depth s) \<le> 26 \<and>
     (\<forall>i < length cts. rgtp_encrypt_chunk cb (Some (s_key s)) (word_of_nat i) (Some (pts ! i)) True = ok (cts ! i)) \<and>
     proofs_ok cb s pts"

lemma encrypt_loop_ok:
  assumes "encrypt_loop cb env key d cs is = ok cts" and "\<forall>i \<in> set is. i * unat cs < length d"
  shows "length cts = length is \<and> (\<forall>j < length is.
    rgtp_encrypt_chunk cb (Some key) (word_of_nat (is ! j)) (Some (slice d (unat cs) (is ! j))) True = ok (cts ! j))"
  using assms
proof (induction "is" arbitrary: cts)
  case (Cons i "is")
  from Cons.prems obtain ct cts' where "cts = ct # cts'" "encrypt_loop cb env key d cs is = ok cts'"
      "rgtp_encrypt_chunk cb (Some key) (word_of_nat i) (Some (slice d (unat cs) i)) True = ok ct"
    by (auto simp: plain_chunk_slice cbind_ok_iff split: if_splits)
  with Cons show ?case by (auto simp: nth_Cons split: nat.splits)
qed simp

lemma encrypt_loop_total:
  assumes "plenty env" and "backend_total cb" and "\<forall>i \<in> set is. i * unat cs < length d" and "unat cs \<le> 65507" and "cs \<noteq> 0"
  shows "\<exists>cts. encrypt_loop cb env key d cs is = ok cts"
  using assms(3)
proof (induction "is")
  case (Cons i "is")
  then obtain cts where cts: "encrypt_loop cb env key d cs is = ok cts" by auto
  have len: "slice d (unat cs) i \<noteq> []" "length (slice d (unat cs) i) \<le> 65507"
    using Cons.prems assms(4,5) slice_length [of d "unat cs" i] by (auto simp: slice_def unat_gt_0)
  obtain ct where "aead_seal cb key (rgtp_build_nonce (word_of_nat i)) (slice d (unat cs) i) = AeadOk ct"
    using assms(2) unfolding backend_total_def by blast
  then have "rgtp_encrypt_chunk cb (Some key) (word_of_nat i) (Some (slice d (unat cs) i)) True = ok ct"
    using len by (simp add: encrypt_ok_iff)
  then show ?case using cts Cons.prems assms(1) by (simp add: plain_chunk_slice RGTP_AEAD_TAG_BYTES_def)
qed simp

text \<open>The surface of a fresh exposure, before its chunks are stored.\<close>

lemma alloc_exposer_fields:
  assumes "rgtp_surface_alloc_exposer env cfg n cs sz = Some s"
  shows "s_chunk_count s = n" "s_chunk_size s = cs" "s_total_size s = sz" "s_is_exposer s"
    "s_ratelimit s = rgtp_ratelimit_init" "s_flow s = rgtp_flow_init (initial_window cfg)"
    "s_window_base s = 0"
  using assms
  by (auto simp: rgtp_surface_alloc_exposer_def surface_alloc_def init_surface_def zero_surface_def Let_def split: if_splits)

lemma finish_expose_fields:
  assumes "s = finish_expose s0 cfg eid key cts rt proofs depth"
  shows "s_exposure_id s = eid" "s_key s = key" "s_chunks s = Some (map Some cts)" "s_chunk_sizes s = Some (map length cts)"
    "s_merkle_root s = rt" "s_merkle_proofs s = map_option (map Some) proofs" "s_proof_depth s = depth"
    "s_state s = RGTP_SURFACE_ACTIVE" "s_chunk_count s = s_chunk_count s0" "s_is_exposer s = s_is_exposer s0"
    "s_chunk_size s = s_chunk_size s0" "s_total_size s = s_total_size s0" "s_ratelimit s = s_ratelimit s0"
    "s_flow s = s_flow s0" "s_window_base s = s_window_base s0"
  by (simp_all add: assms finish_expose_def Let_def split: option.splits)

lemma expose_parts:
  assumes "rgtp_expose cb env True (Some d) cfg True = ok s"
  defines "cs \<equiv> expose_chunk_size cfg"
  defines "n \<equiv> expose_chunk_count (length d) cs"
  obtains s0 eid key cts rt proofs depth where
    "rgtp_surface_alloc_exposer env cfg n cs (word_of_nat (length d)) = Some s0"
    "rgtp_generate_exposure_id cb 0 True = ok eid" "rgtp_csprng_bytes cb 1 True RGTP_AEAD_KEY_BYTES = ok key"
    "encrypt_loop cb env key d cs [0..<unat n] = ok cts"
    "rgtp_merkle_build cb (shift_env (5 + unat n) env) (Some (map (plain_chunk d cs) [0..<unat n])) n True
      (case cfg of Some c \<Rightarrow> cfg_merkle_proofs c | None \<Rightarrow> False) = ok (rt, proofs, depth)"
    "s = finish_expose s0 cfg eid key cts rt proofs depth"
proof -
  have guards: "length d \<noteq> 0" "n \<noteq> 0"
    using assms(1) by (auto simp: rgtp_expose_def Let_def n_def cs_def split: if_splits)
  obtain s0 where s0: "rgtp_surface_alloc_exposer env cfg n cs (word_of_nat (length d)) = Some s0"
    using assms(1) guards by (cases "rgtp_surface_alloc_exposer env cfg n cs (word_of_nat (length d))")
      (simp_all add: rgtp_expose_def Let_def n_def cs_def)
  show thesis
    using assms(1) guards s0 that unfolding n_def cs_def
    by (auto simp: rgtp_expose_def Let_def cbind_ok_iff split: if_splits)
qed

definition wants_proofs :: "rgtp_config option \<Rightarrow> bool" where
  "wants_proofs cfg = (case cfg of Some c \<Rightarrow> cfg_merkle_proofs c | None \<Rightarrow> False)"

text \<open>The data cut into chunks, the last of which may be short.\<close>

definition chunks_of :: "bytes \<Rightarrow> rgtp_config option \<Rightarrow> bytes list" where
  "chunks_of d cfg = map (slice d (unat (expose_chunk_size cfg))) [0..<unat (expose_chunk_count (length d) (expose_chunk_size cfg))]"

text \<open>A successful exposure of at most \<open>2 ^ 26\<close> bytes.\<close>

lemma build_proofs_ok:
  assumes "rgtp_merkle_build cb env (Some (map (plain_chunk d cs) [0..<unat n])) n True want = ok (rt, proofs, depth)"
    and "0 < length d" and "length d \<le> 2 ^ 26" and "cs \<noteq> 0" and "n = expose_chunk_count (length d) cs"
    and "length pts = unat n" and "\<And>i. i < unat n \<Longrightarrow> pts ! i = slice d (unat cs) i"
    and "s_merkle_root s = rt" and "s_merkle_proofs s = map_option (map Some) proofs" and "s_proof_depth s = depth"
  shows "proofs_ok cb s pts"
  unfolding proofs_ok_def
proof (intro allI impI)
  fix ps assume "s_merkle_proofs s = Some ps"
  then obtain qs where qs: "proofs = Some qs" "ps = map Some qs" using assms(9) by auto
  note small = chunk_count_small [OF assms(2,3), of cs, folded assms(5), OF assms(4)]
  note shape = build_shape [OF assms(1) small(3)]
  have w: "want = True" using shape(3) qs(1) by simp
  have ver: "rgtp_merkle_verify cb (Some (pts ! i)) (Some (qs ! i)) depth (word_of_nat i) (Some rt) = ok ()" if "i < unat n" for i
    using build_proofs_verify [OF assms(1) [unfolded w qs(1)] small(3) that] assms(7) [OF that] that
      plain_chunk_slice [OF small(5) [OF that]] by simp
  show "length ps = length pts \<and> (\<forall>i < length pts. \<exists>p. ps ! i = Some p \<and> length p = unat (s_proof_depth s) * 32 \<and>
     rgtp_merkle_verify cb (Some (pts ! i)) (Some p) (s_proof_depth s) (word_of_nat i) (Some (s_merkle_root s)) = ok ())"
    using shape(4) [OF qs(1)] qs(2) assms(6,8,10) ver by simp
qed

lemma expose_exposed:
  assumes "rgtp_expose cb env True (Some d) cfg True = ok s" and "random_lawful cb" and "length d \<le> 2 ^ 26"
  defines "cs \<equiv> expose_chunk_size cfg"
  defines "pts \<equiv> chunks_of d cfg"
  obtains cts where "exposed cb s pts cts" "s_chunk_count s = expose_chunk_count (length d) cs"
    "s_is_exposer s" "s_state s = RGTP_SURFACE_ACTIVE" "s_chunk_size s = cs" "s_total_size s = word_of_nat (length d)"
    "s_ratelimit s = rgtp_ratelimit_init" "s_flow s = rgtp_flow_init (initial_window cfg)" "concat pts = d"
    "s_merkle_proofs s \<noteq> None \<longleftrightarrow> wants_proofs cfg" "s_window_base s = 0"
proof -
  define n where "n = expose_chunk_count (length d) cs"
  define want where "want = (case cfg of Some c \<Rightarrow> cfg_merkle_proofs c | None \<Rightarrow> False)"
  have d: "0 < length d" using assms(1) by (auto simp: rgtp_expose_def)
  note small = chunk_count_small [OF d assms(3), of cs, folded n_def]
  have cs: "cs \<noteq> 0" by (simp add: cs_def)
  obtain s0 eid key cts rt proofs depth where
    s0: "rgtp_surface_alloc_exposer env cfg n cs (word_of_nat (length d)) = Some s0"
    and eid: "rgtp_generate_exposure_id cb 0 True = ok eid"
    and key: "rgtp_csprng_bytes cb 1 True RGTP_AEAD_KEY_BYTES = ok key"
    and cts: "encrypt_loop cb env key d cs [0..<unat n] = ok cts"
    and mk: "rgtp_merkle_build cb (shift_env (5 + unat n) env) (Some (map (plain_chunk d cs) [0..<unat n])) n True want
        = ok (rt, proofs, depth)"
    and s_eq: "s = finish_expose s0 cfg eid key cts rt proofs depth"
    using expose_parts [OF assms(1)] unfolding n_def cs_def want_def by metis
  note s = finish_expose_fields [OF s_eq]
  note f = alloc_exposer_fields [OF s0]
  have pts: "length pts = unat n" "\<And>i. i < unat n \<Longrightarrow> pts ! i = slice d (unat cs) i"
    by (simp_all add: pts_def chunks_of_def cs_def n_def)
  have enc: "length cts = unat n" "\<And>i. i < unat n \<Longrightarrow> rgtp_encrypt_chunk cb (Some key) (word_of_nat i) (Some (pts ! i)) True = ok (cts ! i)"
    using encrypt_loop_ok [OF cts] small(5) [OF cs] pts(2) by auto
  have lens: "length eid = 16" "length key = RGTP_AEAD_KEY_BYTES"
    using eid key assms(2)
    by (auto simp: rgtp_generate_exposure_id_def rgtp_csprng_bytes_def random_lawful_def split: if_splits option.splits)
  note shape = build_shape [OF mk small(3) [OF cs]]
  have "proofs_ok cb s pts"
    by (rule build_proofs_ok [OF mk d assms(3) cs n_def pts s(5-7)])
  then have "exposed cb s pts cts"
    unfolding exposed_def using s f pts(1) enc lens shape(1,2) by simp
  moreover have "concat pts = d"
    unfolding pts_def chunks_of_def slices_concat cs_def [symmetric] n_def [symmetric] using small(4) [OF cs] by simp
  moreover have "s_merkle_proofs s \<noteq> None \<longleftrightarrow> wants_proofs cfg"
    using s(6) shape(3) by (simp add: want_def wants_proofs_def)
  ultimately show thesis using that s f n_def by simp
qed

text \<open>When nothing fails, data in chunks that the encryption takes can be exposed;
  proofs need at least two chunks.\<close>

lemma alloc_exposer_total:
  assumes "plenty env" and "case cfg of Some c \<Rightarrow> alloc_fn (cfg_allocator c) = None | None \<Rightarrow> True" and "n \<noteq> 0"
  shows "\<exists>s. rgtp_surface_alloc_exposer env cfg n cs sz = Some s"
proof -
  have "unat n * 8 mod 2 ^ 64 = unat n * 8" using unat_u32_bound [of n] by (intro mod_less) simp
  then show ?thesis
    using assms by (auto simp: rgtp_surface_alloc_exposer_def surface_alloc_def surface_calloc_def surface_malloc_def
        init_surface_def zero_surface_def SURFACE_BYTES_def SIZE_MAX_def unat_eq_zero Let_def split: option.splits)
qed

definition exposable :: "mem_env \<Rightarrow> rgtp_config option \<Rightarrow> bytes \<Rightarrow> bool" where
  "exposable env cfg d \<longleftrightarrow> plenty env \<and> (case cfg of Some c \<Rightarrow> alloc_fn (cfg_allocator c) = None | None \<Rightarrow> True) \<and>
     d \<noteq> [] \<and> length d \<le> 2 ^ 26 \<and> unat (expose_chunk_size cfg) \<le> 65507 \<and>
     (wants_proofs cfg \<longrightarrow> unat (expose_chunk_size cfg) < length d)"

lemma expose_total:
  assumes "backend_total cb" and "exposable env cfg d"
  shows "\<exists>s. rgtp_expose cb env True (Some d) cfg True = ok s"
proof -
  define cs where "cs = expose_chunk_size cfg"
  define n where "n = expose_chunk_count (length d) cs"
  note e = assms(2) [unfolded exposable_def, folded cs_def]
  have cs: "cs \<noteq> 0" by (simp add: cs_def)
  have d: "0 < length d" "length d \<le> 2 ^ 26" using e by auto
  note small = chunk_count_small [OF d cs, folded n_def]
  have n0: "n \<noteq> 0" using small(2) by auto
  obtain s0 where s0: "rgtp_surface_alloc_exposer env cfg n cs (word_of_nat (length d)) = Some s0"
    using alloc_exposer_total n0 e by blast
  obtain eid key where ids: "rgtp_generate_exposure_id cb 0 True = ok eid" "rgtp_csprng_bytes cb 1 True RGTP_AEAD_KEY_BYTES = ok key"
    using assms(1) unfolding backend_total_def rgtp_generate_exposure_id_def rgtp_csprng_bytes_def RGTP_AEAD_KEY_BYTES_def
    by (metis (no_types, lifting) option.simps(5) zero_neq_numeral)
  obtain cts where cts: "encrypt_loop cb env key d cs [0..<unat n] = ok cts"
    using encrypt_loop_total [of env cb "[0..<unat n]" cs d key] assms(1) e cs small(5) by auto
  define pts where "pts = map (slice d (unat cs)) [0..<unat n]"
  have pts: "map (plain_chunk d cs) [0..<unat n] = map Some pts" "length pts = unat n" "pts \<noteq> []"
    using small(2,5) by (auto simp: pts_def plain_chunk_slice)
  have two: "2 \<le> length pts" if "wants_proofs cfg"
  proof (rule ccontr)
    assume "\<not> 2 \<le> length pts"
    then have "unat n = 1" using small(2) pts(2) by simp
    then show False using small(4) e that by simp
  qed
  obtain rt proofs depth where "rgtp_merkle_build cb (shift_env (5 + unat n) env) (Some (map (plain_chunk d cs) [0..<unat n])) n True
      (wants_proofs cfg) = ok (rt, proofs, depth)"
    using build_total [of cb "shift_env (5 + unat n) env" pts "wants_proofs cfg"] assms(1) e pts two small(3)
    by (auto simp: backend_total_def)
  then show ?thesis
    using s0 ids cts n0 d e by (simp add: rgtp_expose_def Let_def cs_def [symmetric] n_def [symmetric] wants_proofs_def unat_eq_zero)
qed

subsection \<open>What a poll sends\<close>

text \<open>The packet of chunk \<open>i\<close> as the protocol has it.\<close>

definition packet_of :: "rgtp_surface \<Rightarrow> bool \<Rightarrow> nat \<Rightarrow> rgtp_packet" where
  "packet_of s want_proof i = the (the (chunk_packet s want_proof i))"

lemma chunk_packet_counters [simp]:
  "chunk_packet (s\<lparr>s_bytes_sent := a, s_chunks_sent := b\<rparr>) = chunk_packet s"
  "chunk_packet (s\<lparr>s_ratelimit := r, s_flow := f\<rparr>) = chunk_packet s"
  by (simp_all add: chunk_packet_def fun_eq_iff cong: option.case_cong Option.bind_cong if_cong)

definition fits :: "bytes list \<Rightarrow> bool" where
  "fits pts \<longleftrightarrow> (\<forall>p \<in> set pts. length p \<le> 64000)"

lemma exposed_packet:
  assumes "exposed cb s pts cts" and "aead_lawful cb" and "fits pts" and "i < unat (s_chunk_count s)"
  obtains ct where "ct = cts ! i" "length ct = length (pts ! i) + 16"
    "rgtp_decrypt_chunk cb (Some (s_key s)) (word_of_nat i) (Some ct) True = ok (pts ! i)"
    "chunk_packet s want i = Some (Some (packet_of s want i))"
    "packet_of s want i = ChunkData \<lparr>cd_exposure_id = s_exposure_id s, cd_chunk_index = word_of_nat i,
       cd_payload = Some ct, cd_payload_len = word_of_nat (length ct)\<rparr> \<or>
     (\<exists>p. packet_of s want i = ChunkWithProof \<lparr>cp_exposure_id = s_exposure_id s, cp_chunk_index = word_of_nat i,
       cp_proof_depth = ucast (s_proof_depth s), cp_proof = Some p, cp_payload = Some ct, cp_payload_len = word_of_nat (length ct)\<rparr> \<and>
       length p = unat (s_proof_depth s) * 32 \<and>
       rgtp_merkle_verify cb (Some (pts ! i)) (Some p) (s_proof_depth s) (word_of_nat i) (Some (s_merkle_root s)) = ok ())"
proof -
  note e = assms(1) [unfolded exposed_def]
  have enc: "rgtp_encrypt_chunk cb (Some (s_key s)) (word_of_nat i) (Some (pts ! i)) True = ok (cts ! i)"
    and key: "length (s_key s) = RGTP_AEAD_KEY_BYTES" using e assms(4) by auto
  have len: "length (cts ! i) = length (pts ! i) + 16"
    using encrypt_decrypt(1) [OF assms(2) key enc] by (simp add: RGTP_AEAD_TAG_BYTES_def)
  have pf: "\<exists>p. ps ! i = Some p \<and> length p = unat (s_proof_depth s) * 32 \<and>
       rgtp_merkle_verify cb (Some (pts ! i)) (Some p) (s_proof_depth s) (word_of_nat i) (Some (s_merkle_root s)) = ok ()"
      "i < length ps" if "s_merkle_proofs s = Some ps" for ps
    using e assms(4) that unfolding proofs_ok_def by auto
  show thesis
  proof (rule that [OF refl len encrypt_decrypt(2) [OF assms(2) key enc]])
    show "chunk_packet s want i = Some (Some (packet_of s want i))"
      using e assms(4) pf by (cases "s_merkle_proofs s") (auto simp: packet_of_def chunk_packet_def)
    show "packet_of s want i = ChunkData \<lparr>cd_exposure_id = s_exposure_id s, cd_chunk_index = word_of_nat i,
       cd_payload = Some (cts ! i), cd_payload_len = word_of_nat (length (cts ! i))\<rparr> \<or>
     (\<exists>p. packet_of s want i = ChunkWithProof \<lparr>cp_exposure_id = s_exposure_id s, cp_chunk_index = word_of_nat i,
       cp_proof_depth = ucast (s_proof_depth s), cp_proof = Some p, cp_payload = Some (cts ! i),
       cp_payload_len = word_of_nat (length (cts ! i))\<rparr> \<and> length p = unat (s_proof_depth s) * 32 \<and>
       rgtp_merkle_verify cb (Some (pts ! i)) (Some p) (s_proof_depth s) (word_of_nat i) (Some (s_merkle_root s)) = ok ())"
      using e assms(4) pf by (cases "s_merkle_proofs s") (auto simp: packet_of_def chunk_packet_def)
  qed
qed

lemma small_depth: "unat d \<le> 26 \<Longrightarrow> unat (ucast d :: u8) = unat d" for d :: u32
  by (simp add: unsigned_ucast_eq take_bit_nat_eq_self)

lemma packet_of_wf:
  assumes "exposed cb s pts cts" and "aead_lawful cb" and "fits pts" and "i < unat (s_chunk_count s)"
  shows "wf_packet (packet_of s want i)" and "acceptable (s_chunk_count s) (packet_of s want i)"
    and "length (packet_bytes (packet_of s want i)) \<le> 65500" and "host_view (packet_of s want i) = packet_of s want i"
proof -
  obtain ct where ct: "length ct = length (pts ! i) + 16"
    "packet_of s want i = ChunkData \<lparr>cd_exposure_id = s_exposure_id s, cd_chunk_index = word_of_nat i,
       cd_payload = Some ct, cd_payload_len = word_of_nat (length ct)\<rparr> \<or>
     (\<exists>p. packet_of s want i = ChunkWithProof \<lparr>cp_exposure_id = s_exposure_id s, cp_chunk_index = word_of_nat i,
       cp_proof_depth = ucast (s_proof_depth s), cp_proof = Some p, cp_payload = Some ct, cp_payload_len = word_of_nat (length ct)\<rparr> \<and>
       length p = unat (s_proof_depth s) * 32)"
    using exposed_packet [OF assms] by metis
  have "length (pts ! i) \<le> 64000" using assms(1,3,4) by (auto simp: fits_def exposed_def)
  then have len: "length ct \<le> 64016" using ct(1) by simp
  then have unat: "unat (word_of_nat (length ct) :: u16) = length ct" by (simp add: word_of_nat_unat_16)
  have idx: "(word_of_nat i :: u32) < s_chunk_count s"
    using assms(4) unat_u32_bound [of "s_chunk_count s"] by (simp add: word_less_nat_alt word_of_nat_unat_32)
  have e: "length (s_exposure_id s) = 16" "unat (s_proof_depth s) \<le> 26" using assms(1) by (auto simp: exposed_def)
  show wf: "wf_packet (packet_of s want i)" using ct(2) len unat e small_depth [OF e(2)] by auto
  show "acceptable (s_chunk_count s) (packet_of s want i)" "host_view (packet_of s want i) = packet_of s want i"
    using ct(2) idx by auto
  show "length (packet_bytes (packet_of s want i)) \<le> 65500"
    using wf_packet_lengths [OF wf] ct(2) len unat e small_depth [OF e(2)] by (auto simp: packet_bytes_def)
qed

lemma serve_loop_sends:
  assumes "\<forall>i \<in> set is. i < unat (s_chunk_count s) \<and> chunk_packet s want i = Some (Some (P i)) \<and>
      wf_packet (P i) \<and> length (packet_bytes (P i)) \<le> 65500" and "length buf = 65635"
  shows "\<exists>s'. serve_loop is want s buf = Some (s', map (\<lambda>i. packet_bytes (P i)) is) \<and>
    s_chunks_sent s' = s_chunks_sent s + word_of_nat (length is)"
  using assms
proof (induction "is" arbitrary: s buf)
  case (Cons i "is")
  let ?b = "packet_bytes (P i)" and ?s = "s\<lparr>s_bytes_sent := s_bytes_sent s + word_of_nat (length (packet_bytes (P i))),
    s_chunks_sent := s_chunks_sent s + 1\<rparr>"
  have P: "i < unat (s_chunk_count s)" "chunk_packet s want i = Some (Some (P i))" "wf_packet (P i)" "length ?b \<le> 65500"
    using Cons.prems(1) by auto
  have ser: "rgtp_serialize_packet (Some (P i)) (Some buf) True = ok (?b @ drop (length ?b) buf, length ?b)"
    using P Cons.prems(2) by (intro rgtp_serialize_packet_exact) simp_all
  obtain s' where "serve_loop is want ?s (?b @ drop (length ?b) buf) = Some (s', map (\<lambda>i. packet_bytes (P i)) is)"
      "s_chunks_sent s' = s_chunks_sent s + 1 + word_of_nat (length is)"
    using Cons.IH [of ?s "?b @ drop (length ?b) buf"] Cons.prems P(4) by auto
  with P ser show ?case by (simp add: add.assoc)
qed simp

lemma fresh_limiter_admits: "\<exists>rl. rgtp_ratelimit_check (Some rgtp_ratelimit_init) (Some eid) ip now = (None, Some rl)"
proof -
  let ?k = "unat ((hash_key eid ip + word_of_nat 0) AND 255)"
  have "?k < 256" using slot_at_bound [of "hash_key eid ip" 0] by (simp add: slot_at_def)
  then have "rgtp_ratelimit_init ! ?k = zero_entry"
    unfolding rgtp_ratelimit_init_def RGTP_RATELIMIT_BUCKET_COUNT_def by (rule nth_replicate)
  then have "probe rgtp_ratelimit_init eid ip (hash_key eid ip) [0..<RGTP_RATELIMIT_BUCKET_COUNT] None (- 1) = ProbeEmpty ?k"
    by (subst upt_conv_Cons) (simp_all add: RGTP_RATELIMIT_BUCKET_COUNT_def zero_entry_def Let_def)
  then show ?thesis by (simp add: rgtp_ratelimit_check_def)
qed

lemma manifest_facts:
  assumes "exposed cb s pts cts"
  shows "wf_packet (manifest_packet s)" "length (packet_bytes (manifest_packet s)) = 72" "host_view (manifest_packet s) = manifest_packet s"
proof -
  show wf: "wf_packet (manifest_packet s)" using assms by (simp add: manifest_packet_def exposed_def)
  show "length (packet_bytes (manifest_packet s)) = 72" "host_view (manifest_packet s) = manifest_packet s"
    using wf_packet_lengths [OF wf] by (simp_all add: packet_bytes_def manifest_packet_def)
qed

text \<open>How many chunks a request is answered with.\<close>

definition served_count :: "rgtp_surface \<Rightarrow> u32 \<Rightarrow> nat" where
  "served_count s w = min (unat (s_chunk_count s)) (max 1 (unat w))"

lemma clamp_window_served:
  assumes "s_chunk_count s \<noteq> 0"
  shows "unat (clamp_window s w) = served_count s w"
proof -
  have "1 \<le> unat (s_chunk_count s)" using assms by (simp add: Suc_le_eq unat_gt_0)
  moreover have "w \<noteq> 0 \<Longrightarrow> 1 \<le> unat w" by (simp add: Suc_le_eq unat_gt_0)
  ultimately show ?thesis
    by (auto simp: clamp_window_def served_count_def Let_def word_less_nat_alt unat_eq_zero min_def max_def not_less dest: Suc_leI)
qed

lemma answer_pull_sends:
  fixes req :: rgtp_pull_request
  assumes "exposed cb s pts cts" and "aead_lawful cb" and "fits pts" and "s_chunk_count s \<noteq> 0" and "length buf = 65635"
  defines "want \<equiv> pr_flags req AND RGTP_PULL_FLAG_WANT_PROOF \<noteq> 0"
  shows "\<exists>s'. answer_pull s req buf = Some (s', packet_bytes (manifest_packet s) #
      map (\<lambda>i. packet_bytes (packet_of s want i)) [0..<served_count s (pr_window_size req)]) \<and>
    s_chunks_sent s' = s_chunks_sent s + word_of_nat (served_count s (pr_window_size req))"
proof -
  let ?m = "packet_bytes (manifest_packet s)"
  note m = manifest_facts [OF assms(1)]
  have ser: "rgtp_serialize_packet (Some (manifest_packet s)) (Some buf) True = ok (?m @ drop 72 buf, 72)"
    using rgtp_serialize_packet_exact [OF m(1), of buf] m(2) assms(5) by simp
  define w where "w = clamp_window s (pr_window_size req)"
  have w: "unat w = served_count s (pr_window_size req)"
    unfolding w_def by (rule clamp_window_served [OF assms(4)])
  have "\<exists>s'. serve_loop [0..<unat w] want s (?m @ drop 72 buf) = Some (s', map (\<lambda>i. packet_bytes (packet_of s want i)) [0..<unat w]) \<and>
    s_chunks_sent s' = s_chunks_sent s + word_of_nat (length [0..<unat w])"
  proof (rule serve_loop_sends)
    show "\<forall>i \<in> set [0..<unat w]. i < unat (s_chunk_count s) \<and> chunk_packet s want i = Some (Some (packet_of s want i)) \<and>
      wf_packet (packet_of s want i) \<and> length (packet_bytes (packet_of s want i)) \<le> 65500"
      using packet_of_wf [OF assms(1-3)] exposed_packet [OF assms(1-3)] w by (auto simp: served_count_def)
    show "length (?m @ drop 72 buf) = 65635" using m(2) assms(5) by simp
  qed
  then show ?thesis
    using ser m(2) by (auto simp: answer_pull_def w_def [symmetric] want_def [symmetric] w Let_def)
qed

lemma poll_answers:
  fixes req :: rgtp_pull_request
  assumes "exposed cb s pts cts" and "aead_lawful cb" and "fits pts" and "s_chunk_count s \<noteq> 0" and "length buf = 65635"
    and "s_is_exposer s" and "s_state s = RGTP_SURFACE_ACTIVE" and "s_ratelimit s = rgtp_ratelimit_init"
    and "pr_exposure_id req = s_exposure_id s"
  defines "want \<equiv> pr_flags req AND RGTP_PULL_FLAG_WANT_PROOF \<noteq> 0"
  shows "\<exists>s'. rgtp_poll (Some s) (Some (packet_bytes (PullRequest req))) sender now1 now2 buf =
    Some (None, Some s', packet_bytes (manifest_packet s) #
      map (\<lambda>i. packet_bytes (packet_of s want i)) [0..<served_count s (pr_window_size req)]) \<and>
    s_chunks_sent s' = s_chunks_sent s + word_of_nat (served_count s (pr_window_size req))"
proof -
  have wf: "wf_packet (PullRequest req)" using assms(1,9) by (simp add: exposed_def)
  have len: "length (packet_bytes (PullRequest req)) = 36" using wf_packet_lengths [OF wf] by (simp add: packet_bytes_def)
  have parse: "rgtp_parse_packet (Some (packet_bytes (PullRequest req))) mcc True = ok (PullRequest req)" for mcc
    using parse_packet_bytes [OF wf, of mcc "[]"] len by simp
  obtain rl where rl: "rgtp_ratelimit_check (Some rgtp_ratelimit_init) (Some (s_exposure_id s))
      (case sender of Some ip \<Rightarrow> ip | None \<Rightarrow> 0) now1 = (None, Some rl)"
    using fresh_limiter_admits by blast
  let ?s = "s\<lparr>s_ratelimit := rl, s_flow := rgtp_flow_record_pull (s_flow s) now2\<rparr>"
  have same: "manifest_packet ?s = manifest_packet s" "packet_of ?s = packet_of s" "served_count ?s = served_count s"
    by (simp_all add: manifest_packet_def packet_of_def served_count_def fun_eq_iff)
  have "exposed cb ?s pts cts" using assms(1) by (simp add: exposed_def proofs_ok_def)
  from answer_pull_sends [OF this assms(2,3) _ assms(5), of req] same assms(4)
  obtain s' where "answer_pull ?s req buf = Some (s', packet_bytes (manifest_packet s) #
      map (\<lambda>i. packet_bytes (packet_of s want i)) [0..<served_count s (pr_window_size req)])"
    "s_chunks_sent s' = s_chunks_sent s + word_of_nat (served_count s (pr_window_size req))"
    unfolding want_def by auto
  then show ?thesis
    using assms(6-9) rl parse len by (cases "packet_bytes (PullRequest req)") (auto simp: rgtp_poll_def RGTP_MAX_UDP_PAYLOAD_def Let_def)
qed

subsection \<open>Invariant of an exposer without proofs\<close>

definition exposer_inv :: "rgtp_surface \<Rightarrow> bool" where
  "exposer_inv s \<longleftrightarrow> s_is_exposer s \<and> s_state s = RGTP_SURFACE_ACTIVE \<and> s_merkle_proofs s = None \<and>
     length (s_exposure_id s) = 16 \<and> length (s_key s) = RGTP_AEAD_KEY_BYTES \<and> length (s_merkle_root s) = 32 \<and>
     ratelimit_inv (s_ratelimit s) \<and> s_window_base s < s_chunk_count s \<and>
     (\<exists>chunks sizes. s_chunks s = Some chunks \<and> s_chunk_sizes s = Some sizes \<and>
       unat (s_chunk_count s) \<le> length chunks \<and> unat (s_chunk_count s) \<le> length sizes \<and>
       (\<forall>i < unat (s_chunk_count s). \<forall>ct. chunks ! i = Some ct \<longrightarrow> sizes ! i = length ct \<and> length ct < 65536))"

datatype exposer_op = PollOp "bytes option" "u32 option" u64 u64 bytes | AppendOp mem_env "bytes option" u32

fun exposer_step :: "crypto_backend \<Rightarrow> exposer_op \<Rightarrow> rgtp_surface \<Rightarrow> rgtp_surface option" where
  "exposer_step cb (PollOp dg sender now1 now2 buf) s =
    (case rgtp_poll (Some s) dg sender now1 now2 buf of Some (e, Some t, sent) \<Rightarrow> Some t | _ \<Rightarrow> None)"
| "exposer_step cb (AppendOp env data window) s =
    (case rgtp_expose_append_chunk cb env (Some s) data window of Some (e, Some t) \<Rightarrow> Some t | _ \<Rightarrow> None)"

fun exposer_op_ok :: "exposer_op \<Rightarrow> bool" where
  "exposer_op_ok (PollOp dg sender now1 now2 buf) \<longleftrightarrow> length buf = RGTP_MAX_UDP_PAYLOAD + 128"
| "exposer_op_ok (AppendOp env data window) \<longleftrightarrow> True"

lemma serialize_defined:
  assumes "wf_packet p"
  shows "rgtp_serialize_packet (Some p) (Some buf) True = err RGTP_ERR_INVALID_ARG \<or>
    (\<exists>b n. rgtp_serialize_packet (Some p) (Some buf) True = ok (b, n) \<and> length b = length buf)"
  using rgtp_serialize_packet_exact [OF assms, of buf] rgtp_serialize_packet_too_small [OF assms, of buf]
  by (cases "length (packet_bytes p) \<le> length buf \<and> length (packet_bytes p) \<le> 65535") auto

lemma exposer_inv_counters [simp]:
  "exposer_inv (s\<lparr>s_bytes_sent := a, s_chunks_sent := b\<rparr>) = exposer_inv s"
  "exposer_inv (s\<lparr>s_malformed_packets := c\<rparr>) = exposer_inv s"
  "exposer_inv (s\<lparr>s_flow := f\<rparr>) = exposer_inv s"
  by (simp_all add: exposer_inv_def)

lemma exposer_packet:
  assumes "exposer_inv s" and "i < unat (s_chunk_count s)"
  shows "\<exists>r. chunk_packet s want i = Some r \<and> (\<forall>p. r = Some p \<longrightarrow> wf_packet p)"
proof -
  obtain chunks sizes where c: "s_chunks s = Some chunks" "s_chunk_sizes s = Some sizes" "s_merkle_proofs s = None"
      "i < length chunks" "i < length sizes" "\<And>ct. chunks ! i = Some ct \<Longrightarrow> sizes ! i = length ct \<and> length ct < 65536"
    using assms by (auto simp: exposer_inv_def)
  show ?thesis
  proof (cases "chunks ! i")
    case (Some ct)
    then have "sizes ! i = length ct" "length ct < 65536" using c(6) by auto
    then show ?thesis
      using c(1-5) Some assms(1) by (simp add: chunk_packet_def exposer_inv_def word_of_nat_unat_16)
  qed (use c in \<open>simp add: chunk_packet_def\<close>)
qed

lemma serve_loop_inv: "exposer_inv s \<Longrightarrow> \<exists>t sent. serve_loop is want s buf = Some (t, sent) \<and> exposer_inv t"
proof (induction "is" arbitrary: s buf)
  case (Cons i "is")
  show ?case
  proof (cases "i < unat (s_chunk_count s)")
    case True
    obtain r where r: "chunk_packet s want i = Some r" "\<And>p. r = Some p \<Longrightarrow> wf_packet p"
      using exposer_packet [OF Cons.prems True] by blast
    have IH: "\<exists>t sent. serve_loop is want s' b = Some (t, sent) \<and> exposer_inv t" if "exposer_inv s'" for s' b
      using Cons.IH [OF that] .
    show ?thesis
    proof (cases r)
      case None
      then show ?thesis using True r(1) Cons.IH [OF Cons.prems] by simp
    next
      case (Some p)
      from serialize_defined [OF r(2) [OF Some], of buf] show ?thesis
      proof (elim disjE exE conjE)
        assume "rgtp_serialize_packet (Some p) (Some buf) True = err RGTP_ERR_INVALID_ARG"
        then show ?thesis using True r(1) Some Cons.IH [OF Cons.prems] by simp
      next
        fix b n assume b: "rgtp_serialize_packet (Some p) (Some buf) True = ok (b, n)"
        let ?s = "s\<lparr>s_bytes_sent := s_bytes_sent s + word_of_nat n, s_chunks_sent := s_chunks_sent s + 1\<rparr>"
        obtain t sent where "serve_loop is want ?s b = Some (t, sent)" "exposer_inv t" using IH [of ?s b] Cons.prems by auto
        then show ?thesis using True r(1) Some b by simp
      qed
    qed
  qed (use Cons.prems in simp)
qed simp

lemma answer_pull_inv:
  assumes "exposer_inv s"
  shows "\<exists>t sent. answer_pull s req buf = Some (t, sent) \<and> exposer_inv t"
proof -
  have "wf_packet (manifest_packet s)" using assms by (simp add: exposer_inv_def manifest_packet_def)
  from serialize_defined [OF this, of buf] obtain r where r: "rgtp_serialize_packet (Some (manifest_packet s)) (Some buf) True = Some r"
    by auto
  obtain b first where b: "(case r of Inl e \<Rightarrow> (buf, []) | Inr (b, n) \<Rightarrow> (b, [take n b])) = (b, first)"
    by (meson surj_pair)
  have serve: "\<exists>t sent. serve_loop is want s b = Some (t, sent) \<and> exposer_inv t" for "is" want
    by (rule serve_loop_inv [OF assms])
  obtain t sent where "serve_loop [0..<unat (clamp_window s (pr_window_size req))]
      (pr_flags req AND RGTP_PULL_FLAG_WANT_PROOF \<noteq> 0) s b = Some (t, sent)" "exposer_inv t"
    using serve by blast
  then show ?thesis
    by (simp add: answer_pull_def r b Let_def)
qed

lemma poll_inv:
  assumes "exposer_inv s"
  shows "\<exists>e t sent. rgtp_poll (Some s) dg sender now1 now2 buf = Some (e, Some t, sent) \<and> exposer_inv t"
proof (cases "\<exists>b. dg = Some b \<and> b \<noteq> []")
  case False
  then show ?thesis using assms by (auto simp: rgtp_poll_def exposer_inv_def split: option.splits)
next
  case True
  then obtain b where b: "dg = Some b" "b \<noteq> []" by blast
  have s: "s_is_exposer s" "s_state s = RGTP_SURFACE_ACTIVE" "ratelimit_inv (s_ratelimit s)"
    using assms by (simp_all add: exposer_inv_def)
  let ?parse = "rgtp_parse_packet (Some (take (RGTP_MAX_UDP_PAYLOAD + 4) b)) (s_chunk_count s) True"
  obtain x where x: "?parse = Some x"
    using rgtp_parse_packet_sound [of "s_chunk_count s" "Some (take (RGTP_MAX_UDP_PAYLOAD + 4) b)" True]
    by (cases ?parse) (simp_all add: sound_result_def)
  show ?thesis
  proof (cases "\<exists>req. x = Inr (PullRequest req) \<and> pr_exposure_id req = s_exposure_id s")
    case False
    then show ?thesis
      using assms s b x by (auto simp: rgtp_poll_def split: sum.splits rgtp_packet.splits)
  next
    case True
    then obtain req where req: "x = Inr (PullRequest req)" "pr_exposure_id req = s_exposure_id s" by blast
    obtain e rl where rl: "rgtp_ratelimit_check (Some (s_ratelimit s)) (Some (s_exposure_id s))
        (case sender of Some ip \<Rightarrow> ip | None \<Rightarrow> 0) now1 = (e, Some rl)" "ratelimit_inv rl"
      using check_inv [OF s(3)] by (metis prod.collapse)
    have inv: "exposer_inv (s\<lparr>s_ratelimit := rl\<rparr>)" using assms rl(2) by (simp add: exposer_inv_def)
    then have "exposer_inv (s\<lparr>s_ratelimit := rl, s_flow := rgtp_flow_record_pull (s_flow s) now2\<rparr>)" by simp
    from answer_pull_inv [OF this, of req buf] inv rl(1) show ?thesis
      using s b x req by (cases "e = Some RGTP_ERR_RATE_LIMITED") (auto simp: rgtp_poll_def Let_def)
  qed
qed

text \<open>Appending: the outcomes for a surface that is active.\<close>

lemma append_cases:
  assumes "s_is_exposer s" and "s_state s = RGTP_SURFACE_ACTIVE" and "s_chunks s = Some chunks" and "s_chunk_sizes s = Some sizes"
    and "unat (s_chunk_count s) \<le> length chunks" and "unat (s_chunk_count s) \<le> length sizes"
  defines "grow \<equiv> \<lambda>c z. s\<lparr>s_chunks := Some (take (unat (s_chunk_count s)) chunks @ [c]),
    s_chunk_sizes := Some (take (unat (s_chunk_count s)) sizes @ [z])\<rparr>"
  obtains e where "rgtp_expose_append_chunk cb env (Some s) data w = Some (Some e, Some s)"
  | e where "rgtp_expose_append_chunk cb env (Some s) data w = Some (Some e, Some (grow None 0))"
  | d ct t where "data = Some d" "s_chunk_count s + 1 \<noteq> 0"
      "rgtp_encrypt_chunk cb (Some (s_key s)) (s_chunk_count s) (Some d) True = ok ct"
      "t = (grow (Some ct) (length ct))\<lparr>s_chunk_count := s_chunk_count s + 1, s_total_size := s_total_size s + word_of_nat (length d)\<rparr>"
      "rgtp_expose_append_chunk cb env (Some s) data w =
        (if w > 0 \<and> s_chunk_count t > w then map_option (\<lambda>t. (None, Some t)) (evict_oldest t) else Some (None, Some t))"
proof (cases "\<exists>d. data = Some d \<and> d \<noteq> [] \<and> rgtp_malloc env 0 (unat (s_chunk_count s + 1) * 8) \<and>
    rgtp_malloc env 1 (unat (s_chunk_count s + 1) * 8)")
  case False
  have "rgtp_expose_append_chunk cb env (Some s) data w = Some (Some (case data of None \<Rightarrow> RGTP_ERR_INVALID_ARG
      | Some d \<Rightarrow> if d = [] then RGTP_ERR_INVALID_ARG else RGTP_ERR_NOMEM), Some s)"
    using False assms(1,2) by (cases data) (auto simp: rgtp_expose_append_chunk_def Let_def)
  then show ?thesis by (rule that(1))
next
  case True
  then obtain d where d: "data = Some d" "d \<noteq> []" "rgtp_malloc env 0 (unat (s_chunk_count s + 1) * 8)"
    "rgtp_malloc env 1 (unat (s_chunk_count s + 1) * 8)" by blast
  then have n: "s_chunk_count s + 1 \<noteq> 0" by (auto simp: rgtp_malloc_def)
  obtain r where r: "rgtp_encrypt_chunk cb (Some (s_key s)) (s_chunk_count s) (Some d) True = Some r"
    using encrypt_not_ub by blast
  note unf = rgtp_expose_append_chunk_def Let_def grow_def
  show ?thesis
  proof (cases "rgtp_malloc env 2 (length d + RGTP_AEAD_TAG_BYTES)")
    case False
    then show ?thesis using that(2) d assms by (simp add: unf not_less)
  next
    case True
    show ?thesis
    proof (cases r)
      case (Inl e)
      then show ?thesis using that(2) d assms True r by (simp add: unf not_less)
    next
      case (Inr ct)
      show ?thesis
        by (rule that(3) [OF d(1) n _ refl]) (use d assms(1-6) True r Inr in \<open>auto simp: unf not_less\<close>)
    qed
  qed
qed

lemma evict_inv:
  assumes "exposer_inv s" and "s_window_base s + 1 < s_chunk_count s"
  shows "\<exists>t. evict_oldest s = Some t \<and> exposer_inv t"
proof -
  obtain chunks sizes where c: "s_chunks s = Some chunks" "s_chunk_sizes s = Some sizes"
      "unat (s_chunk_count s) \<le> length chunks" "unat (s_chunk_count s) \<le> length sizes"
      "\<forall>i < unat (s_chunk_count s). \<forall>ct. chunks ! i = Some ct \<longrightarrow> sizes ! i = length ct \<and> length ct < 65536"
    using assms(1) by (auto simp: exposer_inv_def)
  let ?e = "unat (s_window_base s)"
  have "?e < unat (s_chunk_count s)" using assms(1) by (simp add: exposer_inv_def word_less_nat_alt)
  then have e: "?e < length chunks" using c(3) by simp
  have "\<forall>i < unat (s_chunk_count s). \<forall>ct. chunks[?e := None] ! i = Some ct \<longrightarrow> sizes ! i = length ct \<and> length ct < 65536"
    using c(3,5) e by (auto simp: nth_list_update split: if_splits)
  then show ?thesis using e assms c by (simp add: evict_oldest_def exposer_inv_def)
qed

lemma append_inv:
  assumes "exposer_inv s" and "aead_lawful cb"
  shows "\<exists>e t. rgtp_expose_append_chunk cb env (Some s) data w = Some (e, Some t) \<and> exposer_inv t"
proof -
  let ?n = "s_chunk_count s"
  obtain chunks sizes where c: "s_chunks s = Some chunks" "s_chunk_sizes s = Some sizes"
      "unat ?n \<le> length chunks" "unat ?n \<le> length sizes"
      "\<forall>i < unat ?n. \<forall>ct. chunks ! i = Some ct \<longrightarrow> sizes ! i = length ct \<and> length ct < 65536"
    using assms(1) by (auto simp: exposer_inv_def)
  have s: "s_is_exposer s" "s_state s = RGTP_SURFACE_ACTIVE" "length (s_key s) = RGTP_AEAD_KEY_BYTES" "s_window_base s < ?n"
    using assms(1) by (simp_all add: exposer_inv_def)
  have grow: "exposer_inv (s\<lparr>s_chunks := Some (take (unat ?n) chunks @ [x]), s_chunk_sizes := Some (take (unat ?n) sizes @ [z])\<rparr>)" for x z
    using assms(1) c by (simp add: exposer_inv_def nth_append)
  show ?thesis
  proof (rule append_cases [OF s(1,2) c(1-4), of cb env data w])
    fix d ct t
    assume n: "?n + 1 \<noteq> 0" and enc: "rgtp_encrypt_chunk cb (Some (s_key s)) ?n (Some d) True = ok ct"
      and t: "t = s\<lparr>s_chunks := Some (take (unat ?n) chunks @ [Some ct]), s_chunk_sizes := Some (take (unat ?n) sizes @ [length ct])\<rparr>
        \<lparr>s_chunk_count := ?n + 1, s_total_size := s_total_size s + word_of_nat (length d)\<rparr>"
      and res: "rgtp_expose_append_chunk cb env (Some s) data w =
        (if w > 0 \<and> s_chunk_count t > w then map_option (\<lambda>t. (None, Some t)) (evict_oldest t) else Some (None, Some t))"
    have un: "unat (?n + 1) = unat ?n + 1" using unatSuc [of ?n] n by (simp add: add.commute)
    have "length d \<le> 65507" using enc by (simp add: encrypt_ok_iff)
    then have ct: "length ct < 65536" using encrypt_decrypt(1) [OF assms(2) s(3) enc] by (simp add: RGTP_AEAD_TAG_BYTES_def)
    have wb: "s_window_base s < ?n + 1" "s_window_base s + 1 < ?n + 1"
      using s(4) un by unat_arith+
    have "exposer_inv t"
      using assms(1) c un ct wb(1) by (auto simp: t exposer_inv_def nth_append less_Suc_eq)
    moreover from evict_inv [OF this] wb(2) have "\<exists>u. evict_oldest t = Some u \<and> exposer_inv u" by (simp add: t)
    ultimately show ?thesis using res by auto
  qed (use assms(1) grow in auto)
qed

interpretation exposer: step_system "exposer_step cb" exposer_op_ok "\<lambda>s. exposer_inv s \<and> aead_lawful cb" for cb
proof
  fix s op assume s: "exposer_inv s \<and> aead_lawful cb" and "exposer_op_ok op"
  show "\<exists>t. exposer_step cb op s = Some t \<and> exposer_inv t \<and> aead_lawful cb"
  proof (cases op)
    case (PollOp dg sender now1 now2 buf)
    then show ?thesis using poll_inv [of s dg sender now1 now2 buf] s by auto
  next
    case (AppendOp env data w)
    then show ?thesis using append_inv [of s cb env data w] s by auto
  qed
qed

lemma exposed_inv:
  assumes "exposed cb s pts cts" and "aead_lawful cb" and "s_is_exposer s" and "s_state s = RGTP_SURFACE_ACTIVE"
    and "s_ratelimit s = rgtp_ratelimit_init" and "s_merkle_proofs s = None" and "s_window_base s = 0" and "s_chunk_count s \<noteq> 0"
  shows "exposer_inv s"
proof -
  note e = assms(1) [unfolded exposed_def]
  have "length (cts ! i) < 65536" if "i < unat (s_chunk_count s)" for i
  proof -
    have enc: "rgtp_encrypt_chunk cb (Some (s_key s)) (word_of_nat i) (Some (pts ! i)) True = ok (cts ! i)"
      and key: "length (s_key s) = RGTP_AEAD_KEY_BYTES" using e that by auto
    have "length (pts ! i) \<le> 65507" using enc by (simp add: encrypt_ok_iff)
    then show ?thesis using encrypt_decrypt(1) [OF assms(2) key enc] by (simp add: RGTP_AEAD_TAG_BYTES_def)
  qed
  then show ?thesis
    using e assms(3-) ratelimit_init_inv by (auto simp: exposer_inv_def word_neq_0_conv)
qed

subsection \<open>Appending to an exposure with proofs\<close>

lemma serve_loop_undefined:
  assumes "i \<in> set is" and "chunk_packet s want i = None" and "\<forall>j \<in> set is. j < unat (s_chunk_count s)"
  shows "serve_loop is want s buf = None"
  using assms
proof (induction "is" arbitrary: s buf)
  case (Cons j "is")
  show ?case
  proof (cases "chunk_packet s want j")
    case (Some p)
    then have "i \<in> set is" using Cons.prems(1,2) by auto
    then have rest: "serve_loop is want s' b = None"
      if "chunk_packet s' = chunk_packet s" "s_chunk_count s' = s_chunk_count s" for s' b
      using Cons.IH [of s' b] Cons.prems that by simp
    show ?thesis
    proof (cases p)
      case None
      then show ?thesis using Some rest Cons.prems(3) by simp
    next
      case pkt: (Some q)
      show ?thesis
      proof (cases "rgtp_serialize_packet (Some q) (Some buf) True")
        case ser: (Some r)
        then show ?thesis using Some pkt rest Cons.prems(3) by (cases r) (auto split: prod.splits)
      qed (use Some pkt Cons.prems(3) in simp)
    qed
  qed (use Cons.prems(3) in simp)
qed simp

text \<open>The appended chunk lies beyond the proofs, whose array is not extended.\<close>

lemma append_beyond_proofs:
  assumes "exposed cb s pts cts" and "s_merkle_proofs s = Some ps" and "s_is_exposer s" and "s_state s = RGTP_SURFACE_ACTIVE"
    and "s_window_base s = 0" and "s_chunk_count s \<noteq> 0"
    and "rgtp_expose_append_chunk cb env (Some s) (Some x) w = Some (None, Some t)"
  shows "chunk_packet t True (unat (s_chunk_count s)) = None" and "unat (s_chunk_count t) = Suc (unat (s_chunk_count s))"
    and "s_exposure_id t = s_exposure_id s" "s_merkle_root t = s_merkle_root s" "s_is_exposer t" "s_state t = RGTP_SURFACE_ACTIVE"
      "s_ratelimit t = s_ratelimit s"
proof -
  let ?k = "unat (s_chunk_count s)"
  have c: "s_chunks s = Some (map Some cts)" "s_chunk_sizes s = Some (map length cts)" "length cts = ?k" "length ps = ?k"
    using assms(1,2) by (auto simp: exposed_def proofs_ok_def)
  have k: "0 < ?k" using assms(6) by (simp add: unat_gt_0)
  define grown where "grown ct = s\<lparr>s_chunks := Some (map Some cts @ [Some ct]), s_chunk_sizes := Some (map length cts @ [length ct])\<rparr>
    \<lparr>s_chunk_count := s_chunk_count s + 1, s_total_size := s_total_size s + word_of_nat (length x)\<rparr>" for ct
  obtain ct where n: "s_chunk_count s + 1 \<noteq> 0" and t: "t = grown ct \<or> evict_oldest (grown ct) = Some t"
    by (rule append_cases [OF assms(3,4) c(1,2), of cb env "Some x" w])
      (use assms(7) c(3) in \<open>auto simp: grown_def split: if_splits\<close>)
  have un: "unat (s_chunk_count s + 1) = Suc ?k" using unatSuc [of "s_chunk_count s"] n by (simp add: add.commute)
  have e: "evict_oldest (grown ct) = Some ((grown ct)\<lparr>s_chunks := Some ((map Some cts @ [Some ct])[0 := None]), s_window_base := 1\<rparr>)"
    using assms(5) by (simp add: evict_oldest_def grown_def)
  have "((map Some cts @ [Some ct])[0 := None]) ! ?k = Some ct" "(map Some cts @ [Some ct]) ! ?k = Some ct"
    using k c(3) by (simp_all add: nth_append nth_list_update)
  then show "chunk_packet t True ?k = None"
    using t e c(3,4) assms(2) by (auto simp: chunk_packet_def grown_def)
  show "unat (s_chunk_count t) = Suc ?k" "s_exposure_id t = s_exposure_id s" "s_merkle_root t = s_merkle_root s" "s_is_exposer t"
      "s_state t = RGTP_SURFACE_ACTIVE" "s_ratelimit t = s_ratelimit s"
    using t e un assms(3,4) by (auto simp: grown_def)
qed

subsection \<open>Keys and nonces\<close>

text \<open>Every stored chunk was sealed under the key of the surface and the nonce of its index.\<close>

definition chunks_sealed :: "crypto_backend \<Rightarrow> rgtp_surface \<Rightarrow> bool" where
  "chunks_sealed cb s \<longleftrightarrow> s_is_exposer s \<and> s_state s = RGTP_SURFACE_ACTIVE \<and>
     (\<exists>chunks sizes. s_chunks s = Some chunks \<and> s_chunk_sizes s = Some sizes \<and>
       unat (s_chunk_count s) \<le> length chunks \<and> unat (s_chunk_count s) \<le> length sizes \<and>
       (\<forall>i < unat (s_chunk_count s). \<forall>ct. chunks ! i = Some ct \<longrightarrow>
         (\<exists>pt. aead_seal cb (s_key s) (rgtp_build_nonce (word_of_nat i)) pt = AeadOk ct)))"

text \<open>A later state has the same key and at least as many chunks, and an index that was
  given out is not filled again: its chunk is the same or was evicted.\<close>

definition chunks_kept :: "rgtp_surface \<Rightarrow> rgtp_surface \<Rightarrow> bool" where
  "chunks_kept s t \<longleftrightarrow> s_key t = s_key s \<and> unat (s_chunk_count s) \<le> unat (s_chunk_count t) \<and>
     (\<forall>i < unat (s_chunk_count s). the (s_chunks t) ! i \<in> {the (s_chunks s) ! i, None})"

lemma chunks_kept_refl: "chunks_kept s s"
  by (simp add: chunks_kept_def)

lemma chunks_kept_trans:
  assumes "chunks_kept s t" and "chunks_kept t u"
  shows "chunks_kept s u"
proof -
  have "the (s_chunks u) ! i \<in> {the (s_chunks s) ! i, None}" if "i < unat (s_chunk_count s)" for i
  proof -
    have "i < unat (s_chunk_count t)" using that assms(1) by (simp add: chunks_kept_def)
    then show ?thesis using that assms unfolding chunks_kept_def by fastforce
  qed
  then show ?thesis using assms by (simp add: chunks_kept_def)
qed

text \<open>The fields of the chunks, which a poll leaves alone.\<close>

definition chunk_state :: "rgtp_surface \<Rightarrow> bool \<times> rgtp_surface_state \<times> bytes option list option \<times> nat list option \<times> u32 \<times> bytes" where
  "chunk_state s = (s_is_exposer s, s_state s, s_chunks s, s_chunk_sizes s, s_chunk_count s, s_key s)"

lemma chunk_state_updates [simp]:
  "chunk_state (s\<lparr>s_bytes_sent := a, s_chunks_sent := b\<rparr>) = chunk_state s"
  "chunk_state (s\<lparr>s_malformed_packets := c\<rparr>) = chunk_state s"
  "chunk_state (s\<lparr>s_ratelimit := rl\<rparr>) = chunk_state s"
  "chunk_state (s\<lparr>s_ratelimit := rl, s_flow := fl\<rparr>) = chunk_state s"
  by (simp_all add: chunk_state_def)

lemma serve_loop_chunks: "serve_loop is want s buf = Some (t, sent) \<Longrightarrow> chunk_state t = chunk_state s"
proof (induction "is" arbitrary: s buf t sent)
  case (Cons idx "is")
  from Cons.prems show ?case
    by (auto split: if_splits bind_splits option.splits sum.splits prod.splits dest!: Cons.IH)
qed simp

lemma answer_pull_chunks: "answer_pull s req buf = Some (t, sent) \<Longrightarrow> chunk_state t = chunk_state s"
  by (auto simp: answer_pull_def Let_def split: bind_splits prod.splits dest!: serve_loop_chunks)

lemma poll_chunks:
  assumes "rgtp_poll (Some s) dg sender now1 now2 buf = Some (e, Some t, sent)"
  shows "chunk_state t = chunk_state s"
  using assms
  by (auto simp: rgtp_poll_def Let_def split: if_splits option.splits bind_splits sum.splits rgtp_packet.splits prod.splits
      dest!: answer_pull_chunks)

lemma chunks_sealed_state:
  assumes "chunk_state t = chunk_state s"
  shows "chunks_sealed cb t \<longleftrightarrow> chunks_sealed cb s" and "chunks_kept s t"
  using assms by (simp_all add: chunk_state_def chunks_sealed_def chunks_kept_def)

lemma evict_sealed:
  assumes "chunks_sealed cb s" and "evict_oldest s = Some t"
  shows "chunks_sealed cb t" and "chunks_kept s t"
proof -
  obtain chunks where c: "s_chunks s = Some chunks"
      "t = s\<lparr>s_chunks := Some (chunks[unat (s_window_base s) := None]), s_window_base := s_window_base s + 1\<rparr>"
    using assms(2) by (auto simp: evict_oldest_def Let_def split: bind_splits if_splits)
  have upd: "xs[k := None] ! i \<in> {xs ! i, None}" for xs :: "bytes option list" and k i
    by (cases "k < length xs") (auto simp: nth_list_update list_update_beyond not_less)
  have "chunks[unat (s_window_base s) := None] ! i = Some ct \<Longrightarrow> chunks ! i = Some ct" for i ct
    using upd [of chunks "unat (s_window_base s)" i] by auto
  then show "chunks_sealed cb t" using assms(1) c by (auto simp: chunks_sealed_def)
  show "chunks_kept s t" using c upd by (simp add: chunks_kept_def)
qed

lemma append_sealed:
  assumes "chunks_sealed cb s" and "rgtp_expose_append_chunk cb env (Some s) data w = Some (e, Some t)"
  shows "chunks_sealed cb t \<and> chunks_kept s t"
proof -
  let ?n = "s_chunk_count s"
  obtain chunks sizes where s: "s_is_exposer s" "s_state s = RGTP_SURFACE_ACTIVE" "s_chunks s = Some chunks" "s_chunk_sizes s = Some sizes"
      "unat ?n \<le> length chunks" "unat ?n \<le> length sizes"
      "\<forall>i < unat ?n. \<forall>ct. chunks ! i = Some ct \<longrightarrow> (\<exists>pt. aead_seal cb (s_key s) (rgtp_build_nonce (word_of_nat i)) pt = AeadOk ct)"
    using assms(1) by (auto simp: chunks_sealed_def)
  have grow: "chunks_sealed cb (s\<lparr>s_chunks := Some (take (unat ?n) chunks @ [x]), s_chunk_sizes := Some (take (unat ?n) sizes @ [z])\<rparr>) \<and>
      chunks_kept s (s\<lparr>s_chunks := Some (take (unat ?n) chunks @ [x]), s_chunk_sizes := Some (take (unat ?n) sizes @ [z])\<rparr>)" for x z
    using s by (simp add: chunks_sealed_def chunks_kept_def nth_append)
  show ?thesis
  proof (rule append_cases [OF s(1-6), of cb env data w])
    fix d ct u
    assume n: "?n + 1 \<noteq> 0" and enc: "rgtp_encrypt_chunk cb (Some (s_key s)) ?n (Some d) True = ok ct"
      and u: "u = s\<lparr>s_chunks := Some (take (unat ?n) chunks @ [Some ct]), s_chunk_sizes := Some (take (unat ?n) sizes @ [length ct])\<rparr>
        \<lparr>s_chunk_count := ?n + 1, s_total_size := s_total_size s + word_of_nat (length d)\<rparr>"
      and res: "rgtp_expose_append_chunk cb env (Some s) data w =
        (if w > 0 \<and> s_chunk_count u > w then map_option (\<lambda>t. (None, Some t)) (evict_oldest u) else Some (None, Some u))"
    have un: "unat (?n + 1) = Suc (unat ?n)" using unatSuc [of ?n] n by (simp add: add.commute)
    have "aead_seal cb (s_key s) (rgtp_build_nonce (word_of_nat (unat ?n))) d = AeadOk ct"
      using enc by (simp add: encrypt_ok_iff)
    then have "chunks_sealed cb u" "chunks_kept s u"
      using s un by (auto simp: u chunks_sealed_def chunks_kept_def nth_append less_Suc_eq)
    moreover have "t = u \<or> evict_oldest u = Some t" using res assms(2) by (cases "evict_oldest u") (auto split: if_splits)
    ultimately show ?thesis using evict_sealed [of cb u t] chunks_kept_trans by blast
  qed (use assms grow chunks_kept_refl in auto)
qed

lemma exposer_step_sealed:
  assumes "chunks_sealed cb s" and "exposer_step cb op s = Some t"
  shows "chunks_sealed cb t \<and> chunks_kept s t"
proof (cases op)
  case (PollOp dg sender now1 now2 buf)
  then obtain e sent where "rgtp_poll (Some s) dg sender now1 now2 buf = Some (e, Some t, sent)"
    using assms(2) by (auto split: option.splits)
  from chunks_sealed_state [OF poll_chunks [OF this]] assms(1) show ?thesis by blast
next
  case (AppendOp env data w)
  then obtain e where "rgtp_expose_append_chunk cb env (Some s) data w = Some (e, Some t)"
    using assms(2) by (auto split: option.splits)
  from append_sealed [OF assms(1) this] show ?thesis .
qed

lemma exposer_run_sealed:
  "run_steps (exposer_step cb) ops s = Some t \<Longrightarrow> chunks_sealed cb s \<Longrightarrow> chunks_sealed cb t \<and> chunks_kept s t"
proof (induction ops arbitrary: s)
  case Nil
  then show ?case using chunks_kept_refl by auto
next
  case (Cons op ops)
  then obtain s' where "exposer_step cb op s = Some s'" "run_steps (exposer_step cb) ops s' = Some t"
    by (auto split: bind_splits)
  with Cons exposer_step_sealed [of cb s op s'] chunks_kept_trans show ?case by blast
qed

lemma encrypt_loop_sealed:
  "encrypt_loop cb env key d cs is = ok cts \<Longrightarrow> length cts = length is \<and>
    (\<forall>j < length is. \<exists>pt. aead_seal cb key (rgtp_build_nonce (word_of_nat (is ! j))) pt = AeadOk (cts ! j))"
proof (induction "is" arbitrary: cts)
  case (Cons i "is")
  from Cons.prems obtain pt ct cts' where "cts = ct # cts'" "encrypt_loop cb env key d cs is = ok cts'"
      "rgtp_encrypt_chunk cb (Some key) (word_of_nat i) (Some pt) True = ok ct"
    by (auto simp: cbind_ok_iff split: if_splits bind_splits)
  with Cons.IH show ?case by (auto simp: nth_Cons encrypt_ok_iff split: nat.splits)
qed simp

lemma expose_sealed:
  assumes "rgtp_expose cb env True (Some d) cfg True = ok s"
  shows "chunks_sealed cb s"
proof -
  define n where "n = expose_chunk_count (length d) (expose_chunk_size cfg)"
  obtain s0 eid key cts rt proofs depth where
    s0: "rgtp_surface_alloc_exposer env cfg n (expose_chunk_size cfg) (word_of_nat (length d)) = Some s0"
    and cts: "encrypt_loop cb env key d (expose_chunk_size cfg) [0..<unat n] = ok cts"
    and s: "s = finish_expose s0 cfg eid key cts rt proofs depth"
    using expose_parts [OF assms] unfolding n_def by metis
  show ?thesis
    using finish_expose_fields [OF s] alloc_exposer_fields [OF s0] encrypt_loop_sealed [OF cts]
    by (auto simp: chunks_sealed_def)
qed

subsection \<open>A concrete setting\<close>

definition demo_env :: mem_env where
  "demo_env = \<lparr>g_alloc = \<lparr>alloc_fn = None, free_fn_set = False\<rparr>, memory_profile_embedded = False, sys_malloc = (\<lambda>c s. True)\<rparr>"

definition demo_config :: "bool \<Rightarrow> rgtp_config" where
  "demo_config proofs = zero_config\<lparr>cfg_chunk_size := 2, cfg_window_size := 8, cfg_merkle_proofs := proofs\<rparr>"

lemma demo_total: "backend_total demo_backend" "random_lawful demo_backend" "plenty demo_env"
  using demo_digest_total
  by (auto simp: backend_total_def random_lawful_def demo_backend_def plenty_def demo_env_def)

lemma demo_exposable: "exposable demo_env (Some (demo_config proofs)) [1, 2, 3, 4, 5]"
  using demo_total(3) by (simp add: exposable_def demo_config_def zero_config_def expose_chunk_size_def)

lemma demo_length: "length [1, 2, 3, 4, 5 :: u8] \<le> 2 ^ 26"
  by simp

lemma demo_chunks: "chunks_of [1, 2, 3, 4, 5] (Some (demo_config proofs)) = [[1, 2], [3, 4], [5]]"
proof -
  have "unat (expose_chunk_count 5 2) = 3" by (simp add: expose_chunk_count_def)
  moreover have "map (slice [1, 2, 3, 4, 5] 2) [0..<3] = [[1, 2], [3, 4], [5]]" by code_simp
  moreover have "expose_chunk_size (Some (demo_config proofs)) = 2" by (simp add: demo_config_def expose_chunk_size_def)
  moreover have "length [1, 2, 3, 4, 5 :: u8] = 5" by simp
  ultimately show ?thesis unfolding chunks_of_def by (simp del: list.size)
qed

subsection \<open>Properties\<close>

text \<open>C2: exposing data succeeds when nothing runs out, and the chunks that the surface
  holds decrypt, under its key and their indices, to the consecutive pieces of the data;
  with proofs switched on every piece verifies against the root with its stored
  proof.\<close>

theorem expose_correct:
  assumes "aead_lawful cb" and "random_lawful cb" and "backend_total cb" and "exposable env cfg d"
  shows "\<exists>s cts. rgtp_expose cb env True (Some d) cfg True = ok s \<and> s_chunks s = Some (map Some cts) \<and>
    length cts = length (chunks_of d cfg) \<and> concat (chunks_of d cfg) = d \<and>
    (\<forall>i < length cts. rgtp_decrypt_chunk cb (Some (s_key s)) (word_of_nat i) (Some (cts ! i)) True = ok (chunks_of d cfg ! i)) \<and>
    (wants_proofs cfg \<longrightarrow> (\<exists>ps. s_merkle_proofs s = Some ps \<and> (\<forall>i < length cts.
      rgtp_merkle_verify cb (Some (chunks_of d cfg ! i)) (ps ! i) (s_proof_depth s) (word_of_nat i) (Some (s_merkle_root s)) = ok ())))"
proof -
  obtain s where s: "rgtp_expose cb env True (Some d) cfg True = ok s" using expose_total [OF assms(3,4)] by blast
  have d: "length d \<le> 2 ^ 26" using assms(4) by (simp add: exposable_def)
  obtain cts where e: "exposed cb s (chunks_of d cfg) cts" "concat (chunks_of d cfg) = d"
      "s_merkle_proofs s \<noteq> None \<longleftrightarrow> wants_proofs cfg"
    by (rule expose_exposed [OF s assms(2) d])
  have "rgtp_decrypt_chunk cb (Some (s_key s)) (word_of_nat i) (Some (cts ! i)) True = ok (chunks_of d cfg ! i)"
    if "i < length cts" for i
    using e(1) encrypt_decrypt(2) [OF assms(1)] that by (simp add: exposed_def)
  moreover have "\<exists>ps. s_merkle_proofs s = Some ps \<and> (\<forall>i < length cts.
      rgtp_merkle_verify cb (Some (chunks_of d cfg ! i)) (ps ! i) (s_proof_depth s) (word_of_nat i) (Some (s_merkle_root s)) = ok ())"
    if "wants_proofs cfg"
    using e(1,3) that unfolding exposed_def proofs_ok_def by fastforce
  ultimately show ?thesis using s e(1,2) by (auto simp: exposed_def)
qed

theorem expose_correct_witness:
  "\<exists>s cts. rgtp_expose demo_backend demo_env True (Some [1, 2, 3, 4, 5]) (Some (demo_config True)) True = ok s \<and>
    s_chunks s = Some (map Some cts) \<and>
    rgtp_decrypt_chunk demo_backend (Some (s_key s)) (word_of_nat 2) (Some (cts ! 2)) True = ok [5]"
proof -
  from expose_correct [OF demo_backend_lawful demo_total(2,1) demo_exposable [of True]] obtain s cts where
    "rgtp_expose demo_backend demo_env True (Some [1, 2, 3, 4, 5]) (Some (demo_config True)) True = ok s"
    "s_chunks s = Some (map Some cts)" "length cts = 3"
    "\<forall>i < length cts. rgtp_decrypt_chunk demo_backend (Some (s_key s)) (word_of_nat i) (Some (cts ! i)) True = ok ([[1, 2], [3, 4], [5]] ! i)"
    unfolding demo_chunks by auto
  then show ?thesis by (intro exI [of _ s] exI [of _ cts]) (auto dest: spec [of _ 2])
qed

text \<open>C6: an exposer without proofs stays well formed: after any sequence of polls with
  arbitrary datagrams and of appended chunks, in which allocations may fail, no access was
  out of bounds, the chunk arrays cover the chunk count, every stored size is the length
  of its chunk and fits the 16-bit field, and the window starts below the count.\<close>

theorem exposer_well_formed:
  assumes "aead_lawful cb" and "random_lawful cb" and "length d \<le> 2 ^ 26" and "\<not> wants_proofs cfg"
    and "rgtp_expose cb env True (Some d) cfg True = ok s" and "list_all exposer_op_ok ops"
  shows "\<exists>t. run_steps (exposer_step cb) ops s = Some t \<and> exposer_inv t"
proof -
  obtain cts where e: "exposed cb s (chunks_of d cfg) cts" "s_is_exposer s" "s_state s = RGTP_SURFACE_ACTIVE"
      "s_ratelimit s = rgtp_ratelimit_init" "s_merkle_proofs s \<noteq> None \<longleftrightarrow> wants_proofs cfg" "s_window_base s = 0"
      "s_chunk_count s = expose_chunk_count (length d) (expose_chunk_size cfg)"
    by (rule expose_exposed [OF assms(5,2,3)])
  have "s_chunk_count s \<noteq> 0" using assms(5) e(7) by (auto simp: rgtp_expose_def Let_def split: if_splits)
  then have "exposer_inv s" using exposed_inv [OF e(1) assms(1) e(2-4)] e(5,6) assms(4) by simp
  then show ?thesis using exposer.run_inv [of s cb ops] assms(1,6) by blast
qed

theorem exposer_well_formed_witness:
  "\<exists>s t. rgtp_expose demo_backend demo_env True (Some [1, 2, 3, 4, 5]) (Some (demo_config False)) True = ok s \<and>
    run_steps (exposer_step demo_backend) [AppendOp demo_env (Some [6]) 3, PollOp (Some [1, 2, 3]) None 5 6 (replicate 65635 0)] s = Some t \<and>
    exposer_inv t"
proof -
  obtain s where s: "rgtp_expose demo_backend demo_env True (Some [1, 2, 3, 4, 5]) (Some (demo_config False)) True = ok s"
    using expose_total [OF demo_total(1) demo_exposable [of False]] by blast
  have np: "\<not> wants_proofs (Some (demo_config False))" by (simp add: wants_proofs_def demo_config_def)
  have "list_all exposer_op_ok [AppendOp demo_env (Some [6]) 3, PollOp (Some [1, 2, 3]) None 5 6 (replicate 65635 0)]"
    by (simp add: RGTP_MAX_UDP_PAYLOAD_def)
  from exposer_well_formed [OF demo_backend_lawful demo_total(2) _ np s this]
  obtain t where "run_steps (exposer_step demo_backend)
      [AppendOp demo_env (Some [6]) 3, PollOp (Some [1, 2, 3]) None 5 6 (replicate 65635 0)] s = Some t" "exposer_inv t"
    by (metis demo_length)
  then show ?thesis using s by blast
qed

text \<open>C19: whatever the primitives return, one exposure never uses a nonce twice under
  its key.  After any sequence of polls and appends, with any failures in between, the key is
  the one of the start; every chunk that is stored was sealed under this key and the nonce of
  its own index; the nonces of different indices differ; and as the surface lives on, an index
  that was given out is never filled with another chunk, so no other plaintext is sealed for
  it.\<close>

theorem chunk_nonces_unique:
  assumes "rgtp_expose cb env True (Some d) cfg True = ok s" and "run_steps (exposer_step cb) ops s = Some t"
    and "run_steps (exposer_step cb) ops' t = Some u"
  shows "\<exists>chunks later. s_chunks t = Some chunks \<and> unat (s_chunk_count t) \<le> length chunks \<and>
    s_chunks u = Some later \<and> unat (s_chunk_count t) \<le> unat (s_chunk_count u) \<and> s_key t = s_key s \<and> s_key u = s_key s \<and>
    (\<forall>i < unat (s_chunk_count t).
      (\<forall>ct. chunks ! i = Some ct \<longrightarrow> (\<exists>pt. aead_seal cb (s_key s) (rgtp_build_nonce (word_of_nat i)) pt = AeadOk ct)) \<and>
      (later ! i = chunks ! i \<or> later ! i = None) \<and>
      (\<forall>j < unat (s_chunk_count t). rgtp_build_nonce (word_of_nat i) = rgtp_build_nonce (word_of_nat j) \<longrightarrow> i = j))"
proof -
  have t: "chunks_sealed cb t" "chunks_kept s t"
    using exposer_run_sealed [OF assms(2) expose_sealed [OF assms(1)]] by simp_all
  have u: "chunks_sealed cb u" "chunks_kept t u" using exposer_run_sealed [OF assms(3) t(1)] by simp_all
  obtain chunks later where c: "s_chunks t = Some chunks" "s_chunks u = Some later"
    using t(1) u(1) by (auto simp: chunks_sealed_def)
  have same: "i = j" if "i < unat (s_chunk_count t)" "j < unat (s_chunk_count t)"
    "rgtp_build_nonce (word_of_nat i) = rgtp_build_nonce (word_of_nat j)" for i j
  proof -
    have "unat (word_of_nat i :: u32) = i" "unat (word_of_nat j :: u32) = j"
      using that(1,2) unat_u32_bound [of "s_chunk_count t"] by (simp_all add: word_of_nat_unat_32)
    then show ?thesis using rgtp_build_nonce_inj [OF that(3)] by metis
  qed
  have "unat (s_chunk_count t) \<le> length chunks"
    "\<forall>i < unat (s_chunk_count t). \<forall>ct. chunks ! i = Some ct \<longrightarrow>
      (\<exists>pt. aead_seal cb (s_key t) (rgtp_build_nonce (word_of_nat i)) pt = AeadOk ct)"
    using t(1) c(1) by (auto simp: chunks_sealed_def)
  moreover have "\<forall>i < unat (s_chunk_count t). later ! i = chunks ! i \<or> later ! i = None"
    "s_key u = s_key t" "s_key t = s_key s" "unat (s_chunk_count t) \<le> unat (s_chunk_count u)"
    using t(2) u(2) c by (auto simp: chunks_kept_def)
  ultimately show ?thesis using c same by (intro exI [of _ chunks] exI [of _ later]) auto
qed

theorem chunk_nonces_unique_witness:
  "\<exists>s t chunks pt ct. rgtp_expose demo_backend demo_env True (Some [1, 2, 3, 4, 5]) (Some (demo_config False)) True = ok s \<and>
    run_steps (exposer_step demo_backend) [AppendOp demo_env (Some [6]) 0] s = Some t \<and> s_chunks t = Some chunks \<and>
    chunks ! 3 = Some ct \<and> aead_seal demo_backend (s_key s) (rgtp_build_nonce 3) pt = AeadOk ct"
proof -
  let ?cfg = "Some (demo_config False)" and ?d = "[1, 2, 3, 4, 5] :: bytes"
  obtain s where s: "rgtp_expose demo_backend demo_env True (Some ?d) ?cfg True = ok s"
    using expose_total [OF demo_total(1) demo_exposable [of False]] by blast
  obtain cts where e: "exposed demo_backend s (chunks_of ?d ?cfg) cts" "s_is_exposer s" "s_state s = RGTP_SURFACE_ACTIVE"
      "s_chunk_count s = expose_chunk_count (length ?d) (expose_chunk_size ?cfg)"
    by (rule expose_exposed [OF s demo_total(2)]) simp_all
  have n: "s_chunk_count s = 3" using e(4) by (simp add: demo_config_def expose_chunk_size_def expose_chunk_count_def)
  have enc: "\<exists>ct. rgtp_encrypt_chunk demo_backend (Some (s_key s)) 3 (Some [6]) True = ok ct"
    by (simp add: encrypt_ok_iff demo_backend_def)
  have "\<exists>t ct. rgtp_expose_append_chunk demo_backend demo_env (Some s) (Some [6]) 0 = Some (None, Some t) \<and> s_chunk_count t = 4 \<and>
      s_chunks t = Some (map Some cts @ [Some ct])"
    using enc e n demo_total(3) by (auto simp: rgtp_expose_append_chunk_def exposed_def Let_def RGTP_AEAD_TAG_BYTES_def)
  then obtain t ct where t: "run_steps (exposer_step demo_backend) [AppendOp demo_env (Some [6]) 0] s = Some t" "s_chunk_count t = 4"
      "s_chunks t = Some (map Some cts @ [Some ct])" by auto
  have "(map Some cts @ [Some ct]) ! 3 = Some ct" using e(1) n by (simp add: exposed_def nth_append)
  moreover have "run_steps (exposer_step demo_backend) [] t = Some t" by simp
  from chunk_nonces_unique [OF s t(1) this] t(2,3)
  have "\<forall>i < 4. \<forall>c. (map Some cts @ [Some ct]) ! i = Some c \<longrightarrow>
      (\<exists>pt. aead_seal demo_backend (s_key s) (rgtp_build_nonce (word_of_nat i)) pt = AeadOk c)" by auto
  from this [rule_format, of 3 ct] calculation
  have "\<exists>pt. aead_seal demo_backend (s_key s) (rgtp_build_nonce 3) pt = AeadOk ct" by simp
  ultimately show ?thesis using s t by auto
qed

text \<open>C39: after a chunk was appended to an exposure with proofs, a pull request that asks
  for proofs and whose window reaches the new chunk makes the poll read the proof array
  beyond its end.\<close>

theorem append_overruns_proofs:
  assumes "random_lawful cb" and "length d \<le> 2 ^ 26" and "wants_proofs cfg"
    and "rgtp_expose cb env True (Some d) cfg True = ok s"
    and "rgtp_expose_append_chunk cb env' (Some s) (Some x) w = Some (None, Some t)"
    and "pr_exposure_id req = s_exposure_id s" and "pr_flags req = RGTP_PULL_FLAG_WANT_PROOF"
    and "s_chunk_count t \<le> pr_window_size req"
  shows "rgtp_poll (Some t) (Some (packet_bytes (PullRequest req))) sender now1 now2 buf = None"
proof -
  obtain cts where e: "exposed cb s (chunks_of d cfg) cts" "s_is_exposer s" "s_state s = RGTP_SURFACE_ACTIVE"
      "s_ratelimit s = rgtp_ratelimit_init" "s_merkle_proofs s \<noteq> None \<longleftrightarrow> wants_proofs cfg" "s_window_base s = 0"
      "s_chunk_count s = expose_chunk_count (length d) (expose_chunk_size cfg)"
    by (rule expose_exposed [OF assms(4,1,2)])
  have n0: "s_chunk_count s \<noteq> 0" using assms(4) e(7) by (auto simp: rgtp_expose_def Let_def split: if_splits)
  obtain ps where ps: "s_merkle_proofs s = Some ps" using e(5) assms(3) by auto
  note t = append_beyond_proofs [OF e(1) ps e(2,3,6) n0 assms(5)]
  have wf: "wf_packet (PullRequest req)" using e(1) assms(6) by (simp add: exposed_def)
  have len: "length (packet_bytes (PullRequest req)) = 36" using wf_packet_lengths [OF wf] by (simp add: packet_bytes_def)
  have parse: "rgtp_parse_packet (Some (packet_bytes (PullRequest req))) (s_chunk_count t) True = ok (PullRequest req)"
    using parse_packet_bytes [OF wf, of "s_chunk_count t" "[]"] len by simp
  obtain rl where rl: "rgtp_ratelimit_check (Some rgtp_ratelimit_init) (Some (s_exposure_id s))
      (case sender of Some ip \<Rightarrow> ip | None \<Rightarrow> 0) now1 = (None, Some rl)"
    using fresh_limiter_admits by blast
  let ?t = "t\<lparr>s_ratelimit := rl, s_flow := rgtp_flow_record_pull (s_flow t) now2\<rparr>"
  have "0 < s_chunk_count t" using t(2) by (simp add: word_less_nat_alt)
  then have "pr_window_size req \<noteq> 0" using assms(8) by auto
  then have win: "clamp_window ?t (pr_window_size req) = s_chunk_count t"
    using assms(8) by (auto simp: clamp_window_def Let_def)
  have "serve_loop [0..<unat (s_chunk_count t)] True ?t b = None" for b
    by (rule serve_loop_undefined [of "unat (s_chunk_count s)"]) (use t(1,2) in simp_all)
  then have "answer_pull ?t req buf = None"
    using win assms(7) by (auto simp: answer_pull_def Let_def RGTP_PULL_FLAG_WANT_PROOF_def simp del: upt_Suc
        split: prod.splits bind_splits)
  then show ?thesis
    using t(3,5-7) e(4) rl parse len assms(6)
    by (cases "packet_bytes (PullRequest req)") (auto simp: rgtp_poll_def RGTP_MAX_UDP_PAYLOAD_def Let_def)
qed

theorem append_overruns_proofs_witness:
  "\<exists>s t. rgtp_expose demo_backend demo_env True (Some [1, 2, 3, 4, 5]) (Some (demo_config True)) True = ok s \<and>
    rgtp_expose_append_chunk demo_backend demo_env (Some s) (Some [6]) 0 = Some (None, Some t) \<and>
    rgtp_poll (Some t) (Some (packet_bytes (PullRequest \<lparr>pr_exposure_id = s_exposure_id s, pr_window_size = 4,
      pr_loss_rate_q16 = 0, pr_flags = 1, pr_version_min = 1, pr_version_max = 1\<rparr>))) None 5 6 (replicate 65635 0) = None"
proof -
  let ?cfg = "Some (demo_config True)" and ?d = "[1, 2, 3, 4, 5] :: bytes"
  obtain s where s: "rgtp_expose demo_backend demo_env True (Some ?d) ?cfg True = ok s"
    using expose_total [OF demo_total(1) demo_exposable [of True]] by blast
  obtain cts where e: "exposed demo_backend s (chunks_of ?d ?cfg) cts" "s_is_exposer s" "s_state s = RGTP_SURFACE_ACTIVE"
      "s_chunk_count s = expose_chunk_count (length ?d) (expose_chunk_size ?cfg)"
    by (rule expose_exposed [OF s demo_total(2)]) simp_all
  have n: "s_chunk_count s = 3" using e(4) by (simp add: demo_config_def expose_chunk_size_def expose_chunk_count_def)
  have enc: "\<exists>ct. rgtp_encrypt_chunk demo_backend (Some (s_key s)) 3 (Some [6]) True = ok ct"
    by (simp add: encrypt_ok_iff demo_backend_def)
  have "\<exists>t. rgtp_expose_append_chunk demo_backend demo_env (Some s) (Some [6]) 0 = Some (None, Some t) \<and> s_chunk_count t = 4"
    using enc e n demo_total(3) by (auto simp: rgtp_expose_append_chunk_def exposed_def Let_def RGTP_AEAD_TAG_BYTES_def)
  then obtain t where t: "rgtp_expose_append_chunk demo_backend demo_env (Some s) (Some [6]) 0 = Some (None, Some t)" "s_chunk_count t = 4"
    by blast
  have "wants_proofs ?cfg" by (simp add: wants_proofs_def demo_config_def)
  from append_overruns_proofs [OF demo_total(2) _ this s t(1)] t(2) s t(1) show ?thesis
    by (intro exI [of _ s] exI [of _ t]) (simp add: RGTP_PULL_FLAG_WANT_PROOF_def)
qed

end
