(* ===== verification/Rgtp_Puller.thy ===== *)
theory Rgtp_Puller
  imports Rgtp_Exposer
begin

text \<open>
  The puller of \<^verbatim>\<open>src/transport/rgtp_puller.c\<close>: the request with
  its manifest, and the reception of one chunk, which checks the replay window, the
  authentication tag and the Merkle proof before it hands out data.  The last section
  joins it with the exposer: what the exposer sends is what the puller returns.
\<close>

subsection \<open>Receive bitmap\<close>

definition bitmap_set_bit :: "u8 list \<Rightarrow> u32 \<Rightarrow> u8 list option" where
  "bitmap_set_bit bm idx =
    (let k = unat (idx div 8) in
     if k < length bm then Some (bm[k := bm ! k OR push_bit (unat (idx mod 8)) 1]) else None)"

definition bitmap_test_bit :: "u8 list \<Rightarrow> u32 \<Rightarrow> bool option" where
  "bitmap_test_bit bm idx =
    (let k = unat (idx div 8) in
     if k < length bm then Some (drop_bit (unat (idx mod 8)) (bm ! k) AND 1 \<noteq> 0) else None)"

subsection \<open>Starting a pull\<close>

definition pull_request_packet :: "bytes \<Rightarrow> rgtp_config option \<Rightarrow> rgtp_packet" where
  "pull_request_packet eid cfg = PullRequest \<lparr>pr_exposure_id = eid, pr_window_size = initial_window cfg,
     pr_loss_rate_q16 = 0, pr_flags = RGTP_PULL_FLAG_WANT_PROOF,
     pr_version_min = ucast RGTP_PROTOCOL_VERSION, pr_version_max = ucast RGTP_PROTOCOL_VERSION\<rparr>"

text \<open>Handling of the datagram that should be the manifest; 256 bytes of it are
  read.\<close>

definition accept_manifest :: "mem_env \<Rightarrow> bytes \<Rightarrow> rgtp_config option \<Rightarrow> bytes \<Rightarrow> rgtp_surface cres" where
  "accept_manifest env eid cfg dg =
    cbind (rgtp_parse_packet (Some (take 256 dg)) (- 1) True) (\<lambda>pkt.
      case pkt of
        Manifest m \<Rightarrow>
          if mf_exposure_id m \<noteq> eid then err RGTP_ERR_INVALID_ARG
          else if mf_chunk_count m = 0 \<or> mf_chunk_size m = 0 then err RGTP_ERR_INVALID_ARG
          else (case rgtp_surface_alloc_puller env cfg (mf_chunk_count m) (mf_chunk_size m) (mf_total_size m) of
              None \<Rightarrow> err RGTP_ERR_NOMEM
            | Some s \<Rightarrow> ok (s\<lparr>s_exposure_id := eid, s_merkle_root := mf_merkle_root m,
                s_fec_enabled := (mf_fec_n m > 0 \<and> mf_fec_k m > 0), s_fec_n := mf_fec_n m, s_fec_k := mf_fec_k m,
                s_state := RGTP_SURFACE_ACTIVE\<rparr>))
      | _ \<Rightarrow> err RGTP_ERR_INVALID_ARG)"

text \<open>The result comes with the datagrams sent.\<close>

definition rgtp_pull_start ::
    "mem_env \<Rightarrow> bool \<Rightarrow> bool \<Rightarrow> bytes option \<Rightarrow> rgtp_config option \<Rightarrow> bool \<Rightarrow> bytes \<Rightarrow> bool \<Rightarrow> bytes option \<Rightarrow>
      rgtp_surface cres \<times> bytes list" where
  "rgtp_pull_start env sock server eid_ptr cfg out_surface send_buf send_ok datagram =
    (case eid_ptr of
       None \<Rightarrow> (err RGTP_ERR_INVALID_ARG, [])
     | Some eid \<Rightarrow>
         if \<not> sock \<or> \<not> server \<or> \<not> out_surface then (err RGTP_ERR_INVALID_ARG, [])
         else (case rgtp_serialize_packet (Some (pull_request_packet eid cfg)) (Some send_buf) True of
             None \<Rightarrow> (None, [])
           | Some (Inl e) \<Rightarrow> (err e, [])
           | Some (Inr (buf, n)) \<Rightarrow>
               if \<not> send_ok then (err RGTP_ERR_SOCKET, [take n buf])
               else (case datagram of
                   None \<Rightarrow> (err RGTP_ERR_TIMEOUT, [take n buf])
                 | Some dg \<Rightarrow> if dg = [] then (err RGTP_ERR_TIMEOUT, [take n buf]) else (accept_manifest env eid cfg dg, [take n buf]))))"

subsection \<open>Receiving a chunk\<close>

text \<open>What a chunk packet carries: identifier, index, payload and its length, and the
  proof with its depth.\<close>

fun chunk_fields :: "rgtp_packet \<Rightarrow> (bytes \<times> u32 \<times> bytes option \<times> u16 \<times> bytes option \<times> u8) option" where
  "chunk_fields (ChunkData c) = Some (cd_exposure_id c, cd_chunk_index c, cd_payload c, cd_payload_len c, None, 0)"
| "chunk_fields (ChunkWithProof c) =
    Some (cp_exposure_id c, cp_chunk_index c, cp_payload c, cp_payload_len c, cp_proof c, cp_proof_depth c)"
| "chunk_fields _ = None"

text \<open>Decryption and the proof, without effect on the surface; the ciphertext is the
  given number of bytes of the payload.\<close>

definition open_chunk ::
    "crypto_backend \<Rightarrow> mem_env \<Rightarrow> rgtp_surface \<Rightarrow> u32 \<Rightarrow> bytes option \<Rightarrow> u16 \<Rightarrow> bytes option \<Rightarrow> u8 \<Rightarrow> nat \<Rightarrow> bytes cres" where
  "open_chunk cb env s idx payload ct_len pf depth buf_size =
    (if unat ct_len < RGTP_AEAD_TAG_BYTES then err RGTP_ERR_TRUNCATED
     else if \<not> rgtp_malloc env 0 (unat ct_len) then err RGTP_ERR_NOMEM
     else do {
       ct \<leftarrow> (case payload of None \<Rightarrow> Some None | Some p \<Rightarrow> map_option Some (mem_get p 0 (unat ct_len)));
       r \<leftarrow> rgtp_decrypt_chunk cb (Some (s_key s)) idx ct True;
       case r of
         Inl e \<Rightarrow> err RGTP_ERR_AUTH_FAIL
       | Inr pt \<Rightarrow> do {
           v \<leftarrow> (if pf \<noteq> None \<and> depth > 0
             then rgtp_merkle_verify cb (Some pt) pf (ucast depth) idx (Some (s_merkle_root s)) else ok ());
           case v of
             Inl e \<Rightarrow> err RGTP_ERR_MERKLE_FAIL
           | Inr u \<Rightarrow> if length pt > buf_size then err RGTP_ERR_INVALID_ARG else ok pt}})"

text \<open>Bookkeeping after a chunk was handed out; \<open>t0\<close> is the clock before and
  \<open>t1\<close> after the reception.\<close>

definition mark_received :: "rgtp_surface \<Rightarrow> u32 \<Rightarrow> nat \<Rightarrow> rgtp_surface option" where
  "mark_received s idx n = do {
     bm \<leftarrow> s_recv_bitmap s;
     seen \<leftarrow> bitmap_test_bit bm idx;
     if seen then Some s
     else do {
       bm' \<leftarrow> bitmap_set_bit bm idx;
       Some (s\<lparr>s_recv_bitmap := Some bm', s_chunks_received := s_chunks_received s + 1,
               s_bytes_received := s_bytes_received s + word_of_nat n\<rparr>)}}"

definition record_rtt :: "rgtp_surface \<Rightarrow> u64 \<Rightarrow> u64 \<Rightarrow> rgtp_surface option" where
  "record_rtt s t0 t1 = do {
     let sample = t1 - t0;
     fl \<leftarrow> (if sample > 0 \<and> sample < 10000000 then rgtp_flow_update_rtt (s_flow s) (ucast sample) else Some (s_flow s));
     let k = unat (s_latency_head s mod 256);
     if k < length (s_latency_samples s)
     then Some (s\<lparr>s_flow := fl, s_latency_samples := (s_latency_samples s)[k := ucast sample],
       s_latency_head := s_latency_head s + 1,
       s_latency_count := (if s_latency_count s < 256 then s_latency_count s + 1 else s_latency_count s)\<rparr>)
     else None}"

definition rate_report :: "rgtp_surface \<Rightarrow> u64 \<Rightarrow> bytes \<Rightarrow> bytes list option" where
  "rate_report s t2 rr_buf =
    (if s_chunks_received s mod 16 = 0 then do {
       q \<leftarrow> flt_to_u32 (f_mul f32 (loss_rate (s_flow s)) (Fin 65536));
       r \<leftarrow> rgtp_serialize_packet (Some (RateReport \<lparr>rr_exposure_id = s_exposure_id s, rr_rtt_us = rtt_us (s_flow s),
         rr_loss_rate_q16 = q, rr_window_size = window_size (s_flow s), rr_reserved = 0, rr_timestamp_us = t2\<rparr>))
         (Some rr_buf) True;
       Some (case r of Inl e \<Rightarrow> [] | Inr (b, n) \<Rightarrow> [take n b])}
     else Some [])"

text \<open>A chunk whose packet was parsed: the replay window first, then decryption and
  proof, then the bookkeeping.\<close>

definition receive_chunk ::
    "crypto_backend \<Rightarrow> mem_env \<Rightarrow> rgtp_surface \<Rightarrow> u32 \<Rightarrow> bytes option \<Rightarrow> u16 \<Rightarrow> bytes option \<Rightarrow> u8 \<Rightarrow> nat \<Rightarrow> u64 \<times> u64 \<times> u64 \<Rightarrow>
      bytes \<Rightarrow> ((rgtp_error + bytes \<times> u32) \<times> rgtp_surface option \<times> bytes list) option" where
  "receive_chunk cb env s idx payload ct_len pf depth buf_size clock rr_buf = do {
     (rep, w) \<leftarrow> rgtp_replay_check_and_set (s_replay s) idx;
     let s = s\<lparr>s_replay := w\<rparr>;
     if rep \<noteq> RGTP_REPLAY_ACCEPT then Some (Inl RGTP_ERR_INVALID_ARG, Some s, [])
     else do {
       c \<leftarrow> open_chunk cb env s idx payload ct_len pf depth buf_size;
       case c of
         Inl e \<Rightarrow> Some (Inl e,
           Some (if e = RGTP_ERR_AUTH_FAIL then s\<lparr>s_auth_failures := s_auth_failures s + 1\<rparr> else s), [])
       | Inr pt \<Rightarrow> do {
           s1 \<leftarrow> mark_received s idx (length pt);
           s2 \<leftarrow> record_rtt s1 (fst clock) (fst (snd clock));
           sent \<leftarrow> rate_report s2 (snd (snd clock)) rr_buf;
           Some (Inr (pt, idx), Some s2, sent)}}}"

definition rgtp_pull_next ::
    "crypto_backend \<Rightarrow> mem_env \<Rightarrow> rgtp_surface option \<Rightarrow> bool \<Rightarrow> nat \<Rightarrow> bool \<Rightarrow> bytes option \<Rightarrow> u64 \<times> u64 \<times> u64 \<Rightarrow> bytes \<Rightarrow>
      ((rgtp_error + bytes \<times> u32) \<times> rgtp_surface option \<times> bytes list) option" where
  "rgtp_pull_next cb env surface buffer buf_size out_received datagram clock rr_buf =
    (case surface of
       None \<Rightarrow> Some (Inl RGTP_ERR_INVALID_ARG, surface, [])
     | Some s \<Rightarrow>
         if \<not> buffer \<or> \<not> out_received then Some (Inl RGTP_ERR_INVALID_ARG, surface, [])
         else if s_is_exposer s \<or> s_state s = RGTP_SURFACE_DESTROYED then Some (Inl RGTP_ERR_INVALID_ARG, surface, [])
         else (case datagram of
             None \<Rightarrow> Some (Inl RGTP_ERR_TIMEOUT, surface, [])
           | Some dg \<Rightarrow> if dg = [] then Some (Inl RGTP_ERR_TIMEOUT, surface, []) else do {
               r \<leftarrow> rgtp_parse_packet (Some (take (RGTP_MAX_UDP_PAYLOAD + 4) dg)) (s_chunk_count s) True;
               case r of
                 Inl e \<Rightarrow> Some (Inl e, Some (s\<lparr>s_malformed_packets := s_malformed_packets s + 1\<rparr>), [])
               | Inr pkt \<Rightarrow>
                   (case chunk_fields pkt of
                      None \<Rightarrow> Some (Inl RGTP_ERR_INVALID_ARG, surface, [])
                    | Some (eid, idx, payload, ct_len, pf, depth) \<Rightarrow>
                        if eid \<noteq> s_exposure_id s then Some (Inl RGTP_ERR_INVALID_ARG, surface, [])
                        else receive_chunk cb env s idx payload ct_len pf depth buf_size clock rr_buf)}))"

subsection \<open>Invariant of a puller\<close>

definition puller_inv :: "rgtp_surface \<Rightarrow> bool" where
  "puller_inv s \<longleftrightarrow> \<not> s_is_exposer s \<and> s_state s = RGTP_SURFACE_ACTIVE \<and> replay_inv (s_replay s) \<and> flow_inv (s_flow s) \<and>
     length (s_latency_samples s) = 256 \<and> length (s_exposure_id s) = 16 \<and> length (s_merkle_root s) = 32 \<and>
     (\<exists>bm. s_recv_bitmap s = Some bm \<and> unat (s_chunk_count s) \<le> 8 * length bm)"

text \<open>What a puller never changes.\<close>

definition same_identity :: "rgtp_surface \<Rightarrow> rgtp_surface \<Rightarrow> bool" where
  "same_identity s t \<longleftrightarrow> s_exposure_id t = s_exposure_id s \<and> s_key t = s_key s \<and> s_merkle_root t = s_merkle_root s \<and>
     s_chunk_count t = s_chunk_count s"

lemma same_identity_refl [simp]: "same_identity s s"
  by (simp add: same_identity_def)

lemma same_identity_trans: "same_identity s t \<Longrightarrow> same_identity t u \<Longrightarrow> same_identity s u"
  by (simp add: same_identity_def)

lemma bitmap_defined:
  assumes "unat idx < 8 * length bm"
  shows "\<exists>b. bitmap_test_bit bm idx = Some b" and "\<exists>bm'. bitmap_set_bit bm idx = Some bm' \<and> length bm' = length bm"
proof -
  have "unat (idx div 8) < length bm" using assms by (simp add: unat_div less_mult_imp_div_less mult.commute)
  then show "\<exists>b. bitmap_test_bit bm idx = Some b" "\<exists>bm'. bitmap_set_bit bm idx = Some bm' \<and> length bm' = length bm"
    by (simp_all add: bitmap_test_bit_def bitmap_set_bit_def Let_def)
qed

lemma mark_received_inv:
  assumes "puller_inv s" and "idx < s_chunk_count s"
  obtains t where "mark_received s idx n = Some t" "puller_inv t" "same_identity s t" "s_replay t = s_replay s"
proof -
  obtain bm where bm: "s_recv_bitmap s = Some bm" "unat (s_chunk_count s) \<le> 8 * length bm"
    using assms(1) by (auto simp: puller_inv_def)
  then have idx: "unat idx < 8 * length bm" using assms(2) by (simp add: word_less_nat_alt)
  obtain b bm' where b: "bitmap_test_bit bm idx = Some b" "bitmap_set_bit bm idx = Some bm'" "length bm' = length bm"
    using bitmap_defined [OF idx] by blast
  show thesis
    by (rule that [of "if b then s else s\<lparr>s_recv_bitmap := Some bm', s_chunks_received := s_chunks_received s + 1,
               s_bytes_received := s_bytes_received s + word_of_nat n\<rparr>"])
      (use assms(1) bm b in \<open>auto simp: mark_received_def puller_inv_def same_identity_def\<close>)
qed

lemma record_rtt_inv:
  assumes "puller_inv s"
  obtains t where "record_rtt s t0 t1 = Some t" "puller_inv t" "same_identity s t" "s_replay t = s_replay s"
proof -
  let ?sample = "t1 - t0"
  have "\<exists>fl. (if ?sample > 0 \<and> ?sample < 10000000 then rgtp_flow_update_rtt (s_flow s) (ucast ?sample) else Some (s_flow s)) = Some fl \<and> flow_inv fl"
  proof (cases "?sample > 0 \<and> ?sample < 10000000")
    case True
    then have "unat ?sample < 10000000" by (simp add: word_less_nat_alt)
    then have "unat (ucast ?sample :: u32) < 10000000"
      by (simp add: unsigned_ucast_eq) (metis order_le_less_trans take_bit_nat_less_eq_self)
    then have "(ucast ?sample :: u32) \<le> 2 ^ 31" by (simp add: word_le_nat_alt)
    then show ?thesis using True update_rtt_inv [of "s_flow s"] assms by (simp add: puller_inv_def)
  qed (use assms in \<open>auto simp: puller_inv_def\<close>)
  then obtain fl where fl: "(if ?sample > 0 \<and> ?sample < 10000000 then rgtp_flow_update_rtt (s_flow s) (ucast ?sample)
      else Some (s_flow s)) = Some fl" "flow_inv fl" by blast
  have k: "unat (s_latency_head s mod 256) < 256" by (simp add: unat_mod)
  let ?t = "s\<lparr>s_flow := fl, s_latency_samples := (s_latency_samples s)[unat (s_latency_head s mod 256) := ucast ?sample],
       s_latency_head := s_latency_head s + 1,
       s_latency_count := (if s_latency_count s < 256 then s_latency_count s + 1 else s_latency_count s)\<rparr>"
  have "record_rtt s t0 t1 = Some ?t"
    using assms k unfolding record_rtt_def Let_def fl(1) by (simp add: puller_inv_def)
  then show thesis
    by (rule that) (use assms fl(2) in \<open>simp_all add: puller_inv_def same_identity_def\<close>)
qed

lemma rate_report_defined:
  assumes "puller_inv s" and "length rr_buf = 64"
  shows "\<exists>sent. rate_report s t2 rr_buf = Some sent"
proof -
  obtain x where x: "loss_rate (s_flow s) = Fin x" "0 \<le> x" "x \<le> 1"
    using assms(1) by (auto simp: puller_inv_def flow_inv_def elim: in_rangeE)
  obtain y where y: "to_flt f32 (x * 65536) = Fin y" "0 \<le> y" "y \<le> 65536"
  proof (rule f32_between [of 0 65536 "x * 65536"])
    show "representable f32 0" using f32_int [of 0] by simp
    show "representable f32 65536" using f32_int [of 65536] by simp
  qed (use x that in auto)
  have "trunc y < 2 ^ 32" "0 \<le> trunc y"
    using y(2,3) by (auto simp: trunc_def floor_less_iff)
  then obtain q where q: "flt_to_u32 (f_mul f32 (loss_rate (s_flow s)) (Fin 65536)) = Some q"
    using x(1) y(1) by auto
  let ?p = "RateReport \<lparr>rr_exposure_id = s_exposure_id s, rr_rtt_us = rtt_us (s_flow s),
         rr_loss_rate_q16 = q, rr_window_size = window_size (s_flow s), rr_reserved = 0, rr_timestamp_us = t2\<rparr>"
  have wf: "wf_packet ?p" using assms(1) by (simp add: puller_inv_def)
  have "\<exists>r. rgtp_serialize_packet (Some ?p) (Some rr_buf) True = Some r"
    using rgtp_serialize_packet_exact [OF wf, of rr_buf] wf_packet_lengths [OF wf] assms(2) by (auto simp: packet_bytes_def)
  then show ?thesis using q by (auto simp: rate_report_def)
qed

lemma run_digest_defined: "run_digest cb m \<noteq> None"
  by (simp add: run_digest_def split: option.splits)

lemma verify_path_defined: "d * 32 \<le> length q \<Longrightarrow> verify_path cb q d idx h \<noteq> None"
proof (induction d arbitrary: q idx h)
  case (Suc d)
  then have IH: "verify_path cb (drop 32 q) d (idx div 2) c \<noteq> None" for c by simp
  show ?case
    using Suc.prems IH by (auto simp: cbind_def rgtp_internal_hash_def run_digest_def Let_def split: option.splits sum.splits)
qed simp

lemma merkle_verify_defined:
  assumes "unat depth * 32 \<le> length p" and "length rt = 32"
  shows "rgtp_merkle_verify cb (Some d) (Some p) depth idx (Some rt) \<noteq> None"
proof -
  obtain r where r: "run_digest cb (0 # d) = Some r"
    using run_digest_defined by blast
  have "\<exists>v. verify_path cb p (unat depth) idx h = Some v" for h
    using verify_path_defined [OF assms(1), of cb idx h] by simp
  then obtain v where v: "\<And>h. verify_path cb p (unat depth) idx h = Some (v h)" by metis
  show ?thesis
  proof (cases r)
    case (Inr h)
    then show ?thesis using r v assms(2)
      by (cases "v h") (auto simp: rgtp_merkle_verify_def rgtp_leaf_hash_def RGTP_MERKLE_HASH_BYTES_def)
  qed (use r in \<open>simp add: rgtp_merkle_verify_def rgtp_leaf_hash_def\<close>)
qed

text \<open>The fields of a chunk packet that the parser lets through.\<close>

definition wf_fields :: "bytes option \<Rightarrow> u16 \<Rightarrow> bytes option \<Rightarrow> u8 \<Rightarrow> bool" where
  "wf_fields payload ct_len pf depth \<longleftrightarrow> (\<exists>p. payload = Some p \<and> length p = unat ct_len) \<and>
     (\<forall>p. pf = Some p \<longrightarrow> length p = unat depth * 32)"

lemma open_chunk_result:
  assumes "wf_fields payload ct_len pf depth" and "length (s_merkle_root s) = 32"
  shows "\<exists>c. open_chunk cb env s idx payload ct_len pf depth n = Some c \<and>
    (\<forall>pt. c = Inr pt \<longrightarrow> length pt \<le> n \<and> rgtp_decrypt_chunk cb (Some (s_key s)) idx payload True = ok pt)"
proof -
  obtain p where p: "payload = Some p" "length p = unat ct_len" using assms(1) by (auto simp: wf_fields_def)
  have get: "mem_get p 0 (unat ct_len) = Some p" using p(2) by (simp add: mem_get_def)
  have ver: "rgtp_merkle_verify cb (Some pt) (Some q) (ucast depth) idx (Some (s_merkle_root s)) \<noteq> None" if "pf = Some q" for pt q
  proof (rule merkle_verify_defined)
    show "unat (ucast depth :: u32) * 32 \<le> length q"
      using assms(1) that unat_u8_bound [of depth] by (simp add: wf_fields_def unsigned_ucast_eq take_bit_nat_eq_self)
  qed (rule assms(2))
  obtain r where r: "rgtp_decrypt_chunk cb (Some (s_key s)) idx payload True = Some r"
    using decrypt_not_ub by blast
  show ?thesis
  proof (cases r)
    case (Inr pt)
    have "\<exists>v. (if pf \<noteq> None \<and> depth > 0 then rgtp_merkle_verify cb (Some pt) pf (ucast depth) idx (Some (s_merkle_root s))
        else ok ()) = Some v"
      using ver [of _ pt] by (cases pf; cases "depth > 0") auto
    then obtain v where "(if pf \<noteq> None \<and> depth > 0
        then rgtp_merkle_verify cb (Some pt) pf (ucast depth) idx (Some (s_merkle_root s)) else ok ()) = Some v" ..
    then show ?thesis using p get r Inr unfolding open_chunk_def by (cases v) simp_all
  qed (use p get r in \<open>simp add: open_chunk_def\<close>)
qed

subsection \<open>One reception\<close>

lemma open_chunk_replay [simp]: "open_chunk cb env (s\<lparr>s_replay := w\<rparr>) = open_chunk cb env s"
  by (simp add: open_chunk_def fun_eq_iff cong: if_cong Option.bind_cong sum.case_cong)

lemma puller_inv_updates [simp]:
  "puller_inv (s\<lparr>s_auth_failures := a\<rparr>) = puller_inv s" "puller_inv (s\<lparr>s_malformed_packets := b\<rparr>) = puller_inv s"
  "puller_inv (s\<lparr>s_key := k\<rparr>) = puller_inv s"
  by (simp_all add: puller_inv_def)

lemma receive_chunk_result:
  assumes "puller_inv s" and "idx < s_chunk_count s" and "wf_fields payload ct_len pf depth" and "length rr_buf = 64"
  obtains v c r t sent where "rgtp_replay_check_and_set (s_replay s) idx = Some (v, s_replay t)"
    "open_chunk cb env s idx payload ct_len pf depth n = Some c"
    "receive_chunk cb env s idx payload ct_len pf depth n clock rr_buf = Some (r, Some t, sent)"
    "puller_inv t" "same_identity s t"
    "r = (if v = RGTP_REPLAY_ACCEPT then map_sum id (\<lambda>pt. (pt, idx)) c else Inl RGTP_ERR_INVALID_ARG)"
proof -
  have "replay_inv (s_replay s)" "length (s_merkle_root s) = 32" using assms(1) by (simp_all add: puller_inv_def)
  then obtain v w c where v: "rgtp_replay_check_and_set (s_replay s) idx = Some (v, w)" "replay_inv w"
      and c: "open_chunk cb env s idx payload ct_len pf depth n = Some c"
    using replay_check_inv open_chunk_result [OF assms(3)] by metis
  let ?s = "s\<lparr>s_replay := w\<rparr>"
  have s: "puller_inv ?s" "same_identity s ?s" "idx < s_chunk_count ?s"
    using assms(1,2) v(2) by (simp_all add: puller_inv_def same_identity_def)
  show thesis
  proof (cases "v = RGTP_REPLAY_ACCEPT")
    case False
    show ?thesis by (rule that [of v ?s c]) (use False v c s in \<open>simp_all add: receive_chunk_def\<close>)
  next
    case acc: True
    show ?thesis
    proof (cases c)
      case (Inl e)
      show ?thesis
        by (rule that [of v "if e = RGTP_ERR_AUTH_FAIL then ?s\<lparr>s_auth_failures := s_auth_failures ?s + 1\<rparr> else ?s" c])
          (use acc Inl v c s in \<open>auto simp: receive_chunk_def same_identity_def\<close>)
    next
      case (Inr pt)
      obtain s1 where s1: "mark_received ?s idx (length pt) = Some s1" "puller_inv s1" "same_identity ?s s1" "s_replay s1 = s_replay ?s"
        by (rule mark_received_inv [OF s(1,3)])
      obtain s2 where s2: "record_rtt s1 (fst clock) (fst (snd clock)) = Some s2" "puller_inv s2" "same_identity s1 s2" "s_replay s2 = s_replay s1"
        by (rule record_rtt_inv [OF s1(2)])
      obtain sent where "rate_report s2 (snd (snd clock)) rr_buf = Some sent"
        using rate_report_defined [OF s2(2) assms(4)] by blast
      then show ?thesis
        by (intro that [of v s2 c]) (use acc Inr v c s s1 s2 in \<open>auto simp: receive_chunk_def same_identity_def\<close>)
    qed
  qed
qed

lemma chunk_fields_wf:
  assumes "wf_packet pkt" and "acceptable mcc pkt" and "chunk_fields pkt = Some (eid, idx, payload, ct_len, pf, depth)"
  shows "wf_fields payload ct_len pf depth" and "idx < mcc"
  using assms by (cases pkt; auto simp: wf_fields_def split: option.splits)+

text \<open>A call either ends before the replay window is asked, or it is the reception of a
  chunk with well-formed fields and an index below the chunk count.\<close>

lemma pull_next_cases:
  assumes "puller_inv s"
  obtains (early) e t where "rgtp_pull_next cb env (Some s) True n True dg clock rr_buf = Some (Inl e, Some t, [])"
      "puller_inv t" "same_identity s t" "s_replay t = s_replay s"
    | (chunk) idx payload ct_len pf depth where "rgtp_pull_next cb env (Some s) True n True dg clock rr_buf =
        receive_chunk cb env s idx payload ct_len pf depth n clock rr_buf"
      "wf_fields payload ct_len pf depth" "idx < s_chunk_count s"
proof (cases "\<exists>b. dg = Some b \<and> b \<noteq> []")
  case False
  then have "rgtp_pull_next cb env (Some s) True n True dg clock rr_buf = Some (Inl RGTP_ERR_TIMEOUT, Some s, [])"
    using assms by (auto simp: rgtp_pull_next_def puller_inv_def split: option.splits)
  then show thesis using early assms by simp
next
  case True
  then obtain b where b: "dg = Some b" "b \<noteq> []" by blast
  have s: "\<not> s_is_exposer s" "s_state s = RGTP_SURFACE_ACTIVE" using assms by (simp_all add: puller_inv_def)
  let ?parse = "rgtp_parse_packet (Some (take (RGTP_MAX_UDP_PAYLOAD + 4) b)) (s_chunk_count s) True"
  have sound: "sound_result (s_chunk_count s) ?parse" by (rule rgtp_parse_packet_sound)
  then obtain x where x: "?parse = Some x" by (cases ?parse) (simp_all add: sound_result_def)
  show thesis
  proof (cases x)
    case (Inl e)
    then show thesis
      using s b x assms by (intro early [of e "s\<lparr>s_malformed_packets := s_malformed_packets s + 1\<rparr>"])
        (simp_all add: rgtp_pull_next_def same_identity_def)
  next
    case (Inr pkt)
    have pkt: "wf_packet pkt" "acceptable (s_chunk_count s) pkt" using sound x Inr by (simp_all add: sound_result_def)
    show thesis
    proof (cases "\<exists>idx payload ct_len pf depth. chunk_fields pkt = Some (s_exposure_id s, idx, payload, ct_len, pf, depth)")
      case False
      then show thesis
        using s b x Inr assms by (intro early [of RGTP_ERR_INVALID_ARG s]) (auto simp: rgtp_pull_next_def split: option.splits)
    next
      case True
      then obtain idx payload ct_len pf depth where
        f: "chunk_fields pkt = Some (s_exposure_id s, idx, payload, ct_len, pf, depth)" by blast
      show thesis
        by (rule chunk [OF _ chunk_fields_wf [OF pkt f]]) (use s b x Inr f in \<open>simp add: rgtp_pull_next_def\<close>)
    qed
  qed
qed

text \<open>Whatever the datagram is, a call returns; either it fails and leaves the replay
  window as it was, or it went through the window with an index below the chunk count, and
  data that it hands out was decrypted under the key of the surface.\<close>

lemma pull_next_result:
  assumes "puller_inv s" and "length rr_buf = 64"
  obtains r t sent where
    "rgtp_pull_next cb env (Some s) True n True dg clock rr_buf = Some (r, Some t, sent)"
    "puller_inv t" "same_identity s t"
    "(\<exists>e. r = Inl e \<and> s_replay t = s_replay s) \<or>
     (\<exists>v idx payload c. idx < s_chunk_count s \<and> rgtp_replay_check_and_set (s_replay s) idx = Some (v, s_replay t) \<and>
       r = (if v = RGTP_REPLAY_ACCEPT then map_sum id (\<lambda>pt. (pt, idx)) c else Inl RGTP_ERR_INVALID_ARG) \<and>
       (\<forall>pt. c = Inr pt \<longrightarrow> length pt \<le> n \<and> rgtp_decrypt_chunk cb (Some (s_key s)) idx payload True = ok pt))"
proof (rule pull_next_cases [OF assms(1), where cb = cb and env = env and n = n and dg = dg and clock = clock and rr_buf = rr_buf])
  fix e t assume "rgtp_pull_next cb env (Some s) True n True dg clock rr_buf = Some (Inl e, Some t, [])"
    "puller_inv t" "same_identity s t" "s_replay t = s_replay s"
  then show thesis using that by blast
next
  fix idx payload ct_len pf depth
  assume chunk: "rgtp_pull_next cb env (Some s) True n True dg clock rr_buf =
      receive_chunk cb env s idx payload ct_len pf depth n clock rr_buf"
    "wf_fields payload ct_len pf depth" "idx < s_chunk_count s"
  have root: "length (s_merkle_root s) = 32" using assms(1) by (simp add: puller_inv_def)
  obtain v c r t sent where res: "rgtp_replay_check_and_set (s_replay s) idx = Some (v, s_replay t)"
      "open_chunk cb env s idx payload ct_len pf depth n = Some c"
      "receive_chunk cb env s idx payload ct_len pf depth n clock rr_buf = Some (r, Some t, sent)"
      "puller_inv t" "same_identity s t"
      "r = (if v = RGTP_REPLAY_ACCEPT then map_sum id (\<lambda>pt. (pt, idx)) c else Inl RGTP_ERR_INVALID_ARG)"
    by (rule receive_chunk_result [OF assms(1) chunk(3,2) assms(2)])
  have "\<forall>pt. c = Inr pt \<longrightarrow> length pt \<le> n \<and> rgtp_decrypt_chunk cb (Some (s_key s)) idx payload True = ok pt"
    using open_chunk_result [OF chunk(2) root, of cb env idx n] res(2) by auto
  then show thesis using that [OF res(3) [folded chunk(1)] res(4,5)] chunk(3) res(1,6) by blast
qed

subsection \<open>Sequences of datagrams\<close>

text \<open>One reception with the datagram, the clock and the contents of the report
  buffer.\<close>

definition puller_step ::
    "crypto_backend \<Rightarrow> mem_env \<Rightarrow> nat \<Rightarrow> bytes \<times> (u64 \<times> u64 \<times> u64) \<times> bytes \<Rightarrow> rgtp_surface \<Rightarrow>
      ((rgtp_error + bytes \<times> u32) \<times> rgtp_surface) option" where
  "puller_step cb env n op s =
    (case op of (dg, clock, rr_buf) \<Rightarrow>
       (case rgtp_pull_next cb env (Some s) True n True (Some dg) clock rr_buf of
          Some (r, Some t, sent) \<Rightarrow> Some (r, t) | _ \<Rightarrow> None))"

fun delivered :: "(rgtp_error + bytes \<times> u32) list \<Rightarrow> (bytes \<times> u32) list" where
  "delivered [] = []"
| "delivered (Inl e # rs) = delivered rs"
| "delivered (Inr x # rs) = x # delivered rs"

lemma delivered_set: "x \<in> set (delivered rs) \<longleftrightarrow> Inr x \<in> set rs"
  by (induction rs rule: delivered.induct) auto

text \<open>A puller whose replay window covers the whole exposure.\<close>

definition small_puller :: "rgtp_surface \<Rightarrow> bool" where
  "small_puller s \<longleftrightarrow> puller_inv s \<and> base (s_replay s) = 0 \<and> s_chunk_count s \<le> 256"

abbreviation seen :: "rgtp_surface \<Rightarrow> nat set" where
  "seen s \<equiv> window_abs (s_replay s)"

lemma puller_step_result:
  assumes "small_puller s" and "length rr_buf = 64"
  obtains r t where "puller_step cb env n (dg, clock, rr_buf) s = Some (r, t)" "small_puller t" "same_identity s t"
    "seen s \<subseteq> seen t" "\<And>pt idx. r = Inr (pt, idx) \<Longrightarrow> idx < s_chunk_count s \<and> unat idx \<notin> seen s \<and> unat idx \<in> seen t \<and>
      length pt \<le> n \<and> (\<exists>payload. rgtp_decrypt_chunk cb (Some (s_key s)) idx payload True = ok pt)"
proof -
  have s: "puller_inv s" "replay_inv (s_replay s)" "base (s_replay s) = 0" "s_chunk_count s \<le> 256"
    using assms(1) by (simp_all add: small_puller_def puller_inv_def)
  obtain r t sent where r: "rgtp_pull_next cb env (Some s) True n True (Some dg) clock rr_buf = Some (r, Some t, sent)"
      "puller_inv t" "same_identity s t"
    and cases: "(\<exists>e. r = Inl e \<and> s_replay t = s_replay s) \<or>
     (\<exists>v idx payload c. idx < s_chunk_count s \<and> rgtp_replay_check_and_set (s_replay s) idx = Some (v, s_replay t) \<and>
       r = (if v = RGTP_REPLAY_ACCEPT then map_sum id (\<lambda>pt. (pt, idx)) c else Inl RGTP_ERR_INVALID_ARG) \<and>
       (\<forall>pt. c = Inr pt \<longrightarrow> length pt \<le> n \<and> rgtp_decrypt_chunk cb (Some (s_key s)) idx payload True = ok pt))"
    by (rule pull_next_result [OF s(1) assms(2)])
  have step: "puller_step cb env n (dg, clock, rr_buf) s = Some (r, t)" using r(1) by (simp add: puller_step_def)
  have count: "s_chunk_count t \<le> 256" using r(3) s(4) by (simp add: same_identity_def)
  from cases show thesis
  proof (elim disjE exE conjE)
    fix e assume "r = Inl e" "s_replay t = s_replay s"
    then show thesis using that [OF step _ r(3)] r(2) s(3) count by (simp add: small_puller_def)
  next
    fix v idx payload c
    assume idx: "idx < s_chunk_count s" and v: "rgtp_replay_check_and_set (s_replay s) idx = Some (v, s_replay t)"
      and rr: "r = (if v = RGTP_REPLAY_ACCEPT then map_sum id (\<lambda>pt. (pt, idx)) c else Inl RGTP_ERR_INVALID_ARG)"
      and c: "\<forall>pt. c = Inr pt \<longrightarrow> length pt \<le> n \<and> rgtp_decrypt_chunk cb (Some (s_key s)) idx payload True = ok pt"
    have "idx < WINDOW_BITS" using idx s(4) by (simp add: WINDOW_BITS_def)
    then obtain w' where w': "rgtp_replay_check_and_set (s_replay s) idx =
        Some (if unat idx \<in> seen s then RGTP_REPLAY_DUPLICATE else RGTP_REPLAY_ACCEPT, w')"
      "base w' = 0" "window_abs w' = insert (unat idx) (seen s)"
      by (rule check_refines_set [OF s(2,3)])
    have t: "s_replay t = w'" "v = RGTP_REPLAY_ACCEPT \<longleftrightarrow> unat idx \<notin> seen s" using v w'(1) by (auto split: if_splits)
    show thesis
    proof (rule that [OF step _ r(3)])
      show "small_puller t" using r(2) w'(2) t(1) count by (simp add: small_puller_def)
      show "seen s \<subseteq> seen t" using w'(3) t(1) by auto
      fix pt i assume "r = Inr (pt, i)"
      then have "v = RGTP_REPLAY_ACCEPT" "i = idx" "c = Inr pt" using rr by (cases c; auto split: if_splits)+
      then show "i < s_chunk_count s \<and> unat i \<notin> seen s \<and> unat i \<in> seen t \<and> length pt \<le> n \<and>
          (\<exists>payload. rgtp_decrypt_chunk cb (Some (s_key s)) i payload True = ok pt)"
        using idx t w'(3) c by auto
    qed
  qed
qed

lemma puller_run_authentic:
  assumes "small_puller s" and "\<forall>(dg, clock, rr_buf) \<in> set ops. length rr_buf = 64"
  shows "\<exists>rs. run_outputs (puller_step cb env n) ops s = Some rs \<and> distinct (map snd (delivered rs)) \<and>
    (\<forall>(pt, idx) \<in> set (delivered rs). idx < s_chunk_count s \<and> unat idx \<notin> seen s \<and> length pt \<le> n \<and>
      (\<exists>payload. rgtp_decrypt_chunk cb (Some (s_key s)) idx payload True = ok pt))"
  using assms
proof (induction ops arbitrary: s)
  case (Cons op ops)
  obtain dg clock rr_buf where op: "op = (dg, clock, rr_buf)" by (cases op) auto
  then have len: "length rr_buf = 64" using Cons.prems(2) by simp
  obtain r t where step: "puller_step cb env n (dg, clock, rr_buf) s = Some (r, t)" "small_puller t" "same_identity s t"
      "seen s \<subseteq> seen t"
    and out: "\<And>pt idx. r = Inr (pt, idx) \<Longrightarrow> idx < s_chunk_count s \<and> unat idx \<notin> seen s \<and> unat idx \<in> seen t \<and>
      length pt \<le> n \<and> (\<exists>payload. rgtp_decrypt_chunk cb (Some (s_key s)) idx payload True = ok pt)"
    by (rule puller_step_result [OF Cons.prems(1) len, where cb = cb and env = env and n = n and dg = dg and clock = clock]) blast
  obtain rs where rs: "run_outputs (puller_step cb env n) ops t = Some rs" "distinct (map snd (delivered rs))"
      "\<forall>(pt, idx) \<in> set (delivered rs). idx < s_chunk_count t \<and> unat idx \<notin> seen t \<and> length pt \<le> n \<and>
        (\<exists>payload. rgtp_decrypt_chunk cb (Some (s_key t)) idx payload True = ok pt)"
    using Cons.IH [OF step(2)] Cons.prems(2) by auto
  have rest: "\<forall>(pt, idx) \<in> set (delivered rs). idx < s_chunk_count s \<and> unat idx \<notin> seen s \<and> length pt \<le> n \<and>
        (\<exists>payload. rgtp_decrypt_chunk cb (Some (s_key s)) idx payload True = ok pt)"
    using rs(3) step(3,4) by (auto simp: same_identity_def)
  have run: "run_outputs (puller_step cb env n) (op # ops) s = Some (r # rs)" using op step(1) rs(1) by simp
  show ?case
  proof (cases r)
    case (Inl e)
    then show ?thesis using run rs(2) rest by auto
  next
    case (Inr x)
    obtain pt idx where x: "x = (pt, idx)" by (cases x)
    have "idx \<notin> snd ` set (delivered rs)" using out [of pt idx] rs(3) Inr x by force
    then show ?thesis using run rs(2) rest out [of pt idx] Inr x by (intro exI [of _ "r # rs"]) auto
  qed
qed simp

subsection \<open>The start of a pull\<close>

lemma alloc_puller_fields:
  assumes "rgtp_surface_alloc_puller env cfg n cs sz = Some s" and "n \<le> 256"
  shows "s_chunk_count s = n" "\<not> s_is_exposer s" "s_replay s = rgtp_replay_window_init"
    "s_flow s = rgtp_flow_init (initial_window cfg)" "length (s_latency_samples s) = 256"
    "\<exists>bm. s_recv_bitmap s = Some bm \<and> unat n \<le> 8 * length bm"
proof -
  have "unat n \<le> 256" using assms(2) by (simp add: word_le_nat_alt)
  then have "unat (n + 7) = unat n + 7" by (intro trans [OF unat_word_ariths(1)]) simp
  then have "unat ((n + 7) div 8) = (unat n + 7) div 8" by (simp add: unat_div)
  then have "unat n \<le> 8 * unat ((n + 7) div 8)" by simp
  then show "s_chunk_count s = n" "\<not> s_is_exposer s" "s_replay s = rgtp_replay_window_init"
    "s_flow s = rgtp_flow_init (initial_window cfg)" "length (s_latency_samples s) = 256"
    "\<exists>bm. s_recv_bitmap s = Some bm \<and> unat n \<le> 8 * length bm"
    using assms(1)
    by (auto simp: rgtp_surface_alloc_puller_def surface_alloc_def init_surface_def zero_surface_def Let_def split: if_splits)
qed

lemma accept_manifest_parts:
  assumes "accept_manifest env eid cfg dg = ok s"
  obtains m s0 where "rgtp_parse_packet (Some (take 256 dg)) (- 1) True = ok (Manifest m)" "mf_chunk_count m \<noteq> 0"
    "rgtp_surface_alloc_puller env cfg (mf_chunk_count m) (mf_chunk_size m) (mf_total_size m) = Some s0"
    "s = s0\<lparr>s_exposure_id := eid, s_merkle_root := mf_merkle_root m,
       s_fec_enabled := (mf_fec_n m > 0 \<and> mf_fec_k m > 0), s_fec_n := mf_fec_n m, s_fec_k := mf_fec_k m,
       s_state := RGTP_SURFACE_ACTIVE\<rparr>"
proof -
  obtain pkt where pkt: "rgtp_parse_packet (Some (take 256 dg)) (- 1) True = ok pkt"
    using assms unfolding accept_manifest_def cbind_ok_iff by blast
  obtain m where m: "pkt = Manifest m" using assms pkt by (cases pkt) (simp_all add: accept_manifest_def)
  obtain s0 where "mf_chunk_count m \<noteq> 0"
      "rgtp_surface_alloc_puller env cfg (mf_chunk_count m) (mf_chunk_size m) (mf_total_size m) = Some s0"
      "s = s0\<lparr>s_exposure_id := eid, s_merkle_root := mf_merkle_root m,
         s_fec_enabled := (mf_fec_n m > 0 \<and> mf_fec_k m > 0), s_fec_n := mf_fec_n m, s_fec_k := mf_fec_k m,
         s_state := RGTP_SURFACE_ACTIVE\<rparr>"
    using assms pkt m by (auto simp: accept_manifest_def split: if_split_asm option.split_asm)
  then show thesis using that pkt m by blast
qed

lemma accept_manifest_puller:
  assumes "accept_manifest env eid cfg dg = ok s" and "length eid = 16" and "initial_window cfg \<le> 65536"
    and "s_chunk_count s \<le> 256"
  shows "small_puller s" and "seen s = {}"
proof -
  obtain m s0 where parse: "rgtp_parse_packet (Some (take 256 dg)) (- 1) True = ok (Manifest m)"
    and s0: "rgtp_surface_alloc_puller env cfg (mf_chunk_count m) (mf_chunk_size m) (mf_total_size m) = Some s0"
    and s: "s = s0\<lparr>s_exposure_id := eid, s_merkle_root := mf_merkle_root m,
                s_fec_enabled := (mf_fec_n m > 0 \<and> mf_fec_k m > 0), s_fec_n := mf_fec_n m, s_fec_k := mf_fec_k m,
                s_state := RGTP_SURFACE_ACTIVE\<rparr>"
    by (rule accept_manifest_parts [OF assms(1)]) blast
  have "length (mf_merkle_root m) = 32"
    using rgtp_parse_packet_sound [of "- 1" "Some (take 256 dg)" True] parse by (simp add: sound_result_def)
  moreover have n: "mf_chunk_count m \<le> 256"
  proof -
    have "s_chunk_count s0 = mf_chunk_count m"
      using s0 by (auto simp: rgtp_surface_alloc_puller_def surface_alloc_def init_surface_def Let_def split: if_splits)
    then show ?thesis using assms(4) s by simp
  qed
  note f = alloc_puller_fields [OF s0 n]
  show "small_puller s" "seen s = {}"
    using f s \<open>length (mf_merkle_root m) = 32\<close> assms(2,4) flow_init_inv [OF assms(3)] replay_init_inv window_abs_init
    by (auto simp: small_puller_def puller_inv_def rgtp_replay_window_init_def)
qed

subsection \<open>Transfer\<close>

text \<open>The specification: a chunk is handed out the first time that its datagram
  arrives, and later copies are refused.\<close>

definition spec_pull ::
    "bytes list \<Rightarrow> nat \<times> (u64 \<times> u64 \<times> u64) \<times> bytes \<Rightarrow> nat set \<Rightarrow> (rgtp_error + bytes \<times> u32) \<times> nat set" where
  "spec_pull pts op S =
    (case op of (i, _) \<Rightarrow>
       if i \<in> S then (Inl RGTP_ERR_INVALID_ARG, S) else (Inr (pts ! i, word_of_nat i), insert i S))"

text \<open>The reception of the datagram that the exposer sends for chunk \<open>i\<close>.\<close>

definition genuine_step ::
    "crypto_backend \<Rightarrow> mem_env \<Rightarrow> nat \<Rightarrow> rgtp_surface \<Rightarrow> bool \<Rightarrow> nat \<times> (u64 \<times> u64 \<times> u64) \<times> bytes \<Rightarrow> rgtp_surface \<Rightarrow>
      ((rgtp_error + bytes \<times> u32) \<times> rgtp_surface) option" where
  "genuine_step cb env n s want op p =
    (case op of (i, clock, rr_buf) \<Rightarrow> puller_step cb env n (packet_bytes (packet_of s want i), clock, rr_buf) p)"

definition pull_ready ::
    "crypto_backend \<Rightarrow> mem_env \<Rightarrow> nat \<Rightarrow> rgtp_surface \<Rightarrow> bytes list \<Rightarrow> bytes list \<Rightarrow> rgtp_surface \<Rightarrow> bool" where
  "pull_ready cb env n s pts cts p \<longleftrightarrow> small_puller p \<and> exposed cb s pts cts \<and> aead_lawful cb \<and> fits pts \<and> plenty env \<and>
     (\<forall>x \<in> set pts. length x \<le> n) \<and> same_identity s p"

lemma open_genuine:
  assumes "pull_ready cb env n s pts cts p" and "i < unat (s_chunk_count s)"
  obtains payload ct_len pf depth where
    "chunk_fields (packet_of s want i) = Some (s_exposure_id s, word_of_nat i, payload, ct_len, pf, depth)"
    "open_chunk cb env p (word_of_nat i) payload ct_len pf depth n = ok (pts ! i)"
proof -
  note r = assms(1) [unfolded pull_ready_def same_identity_def]
  have ex: "exposed cb s pts cts" "aead_lawful cb" "fits pts" using r by auto
  have i: "pts ! i \<in> set pts" using ex(1) assms(2) by (simp add: exposed_def)
  obtain ct where ct: "length ct = length (pts ! i) + 16"
    "rgtp_decrypt_chunk cb (Some (s_key s)) (word_of_nat i) (Some ct) True = ok (pts ! i)"
    "packet_of s want i = ChunkData \<lparr>cd_exposure_id = s_exposure_id s, cd_chunk_index = word_of_nat i,
       cd_payload = Some ct, cd_payload_len = word_of_nat (length ct)\<rparr> \<or>
     (\<exists>p. packet_of s want i = ChunkWithProof \<lparr>cp_exposure_id = s_exposure_id s, cp_chunk_index = word_of_nat i,
       cp_proof_depth = ucast (s_proof_depth s), cp_proof = Some p, cp_payload = Some ct, cp_payload_len = word_of_nat (length ct)\<rparr> \<and>
       length p = unat (s_proof_depth s) * 32 \<and>
       rgtp_merkle_verify cb (Some (pts ! i)) (Some p) (s_proof_depth s) (word_of_nat i) (Some (s_merkle_root s)) = ok ())"
    using exposed_packet [OF ex assms(2), of want] by metis
  have "length (pts ! i) \<le> 64000" using i ex(3) by (auto simp: fits_def)
  then have len: "unat (word_of_nat (length ct) :: u16) = length ct" using ct(1) by (intro word_of_nat_unat_16) simp
  have get: "mem_get ct 0 (length ct) = Some ct" by (simp add: mem_get_def)
  have depth: "ucast (ucast (s_proof_depth s) :: u8) = s_proof_depth s"
    using small_depth [of "s_proof_depth s"] ex(1)
    by (intro word_unat_eq_iff [THEN iffD2]) (simp add: exposed_def unsigned_ucast_eq unsigned_take_bit_eq take_bit_nat_eq_self)
  have n: "length (pts ! i) \<le> n" using i r by auto
  have opened: "open_chunk cb env p (word_of_nat i) (Some ct) (word_of_nat (length ct)) pf d n = ok (pts ! i)"
    if "pf \<noteq> None \<and> d > 0 \<Longrightarrow> rgtp_merkle_verify cb (Some (pts ! i)) pf (ucast d) (word_of_nat i) (Some (s_merkle_root s)) = ok ()"
    for pf d
    using that r ct(1,2) get n len by (auto simp: open_chunk_def RGTP_AEAD_TAG_BYTES_def)
  from ct(3) show thesis
  proof (elim disjE exE conjE)
    assume "packet_of s want i = ChunkData \<lparr>cd_exposure_id = s_exposure_id s, cd_chunk_index = word_of_nat i,
       cd_payload = Some ct, cd_payload_len = word_of_nat (length ct)\<rparr>"
    then show thesis using that opened [of None 0] by simp
  next
    fix q assume "packet_of s want i = ChunkWithProof \<lparr>cp_exposure_id = s_exposure_id s, cp_chunk_index = word_of_nat i,
       cp_proof_depth = ucast (s_proof_depth s), cp_proof = Some q, cp_payload = Some ct, cp_payload_len = word_of_nat (length ct)\<rparr>"
      and "rgtp_merkle_verify cb (Some (pts ! i)) (Some q) (s_proof_depth s) (word_of_nat i) (Some (s_merkle_root s)) = ok ()"
    then show thesis using that opened [of "Some q" "ucast (s_proof_depth s)"] depth by simp
  qed
qed

lemma genuine_refines:
  assumes "pull_ready cb env n s pts cts p" and "i < unat (s_chunk_count s)" and "length rr_buf = 64"
  shows "\<exists>r t. genuine_step cb env n s want (i, clock, rr_buf) p = Some (r, t) \<and> pull_ready cb env n s pts cts t \<and>
    spec_pull pts (i, clock, rr_buf) (seen p) = (r, seen t)"
proof -
  note rd = assms(1) [unfolded pull_ready_def]
  have p: "puller_inv p" "replay_inv (s_replay p)" "base (s_replay p) = 0" "s_chunk_count p \<le> 256"
      "\<not> s_is_exposer p" "s_state p = RGTP_SURFACE_ACTIVE" "s_exposure_id p = s_exposure_id s" "s_chunk_count p = s_chunk_count s"
    using rd unfolding small_puller_def puller_inv_def same_identity_def by blast+
  let ?pkt = "packet_of s want i"
  have ex: "exposed cb s pts cts" "aead_lawful cb" "fits pts" using rd by auto
  note wf = packet_of_wf [OF ex assms(2), of want]
  obtain payload ct_len pf depth where f: "chunk_fields ?pkt = Some (s_exposure_id s, word_of_nat i, payload, ct_len, pf, depth)"
      "open_chunk cb env p (word_of_nat i) payload ct_len pf depth n = ok (pts ! i)"
    by (rule open_genuine [OF assms(1,2)])
  note wff = chunk_fields_wf [OF wf(1) wf(2) f(1), folded p(8)]
  have "rgtp_parse_packet (Some (packet_bytes ?pkt)) (s_chunk_count p) True = ok ?pkt"
    using parse_packet_bytes [OF wf(1), of "s_chunk_count p" "[]"] wf(2-4) p(8) by simp
  moreover have "packet_bytes ?pkt \<noteq> []" by (simp add: packet_bytes_def header_bytes_def)
  ultimately have eq: "rgtp_pull_next cb env (Some p) True n True (Some (packet_bytes ?pkt)) clock rr_buf =
      receive_chunk cb env p (word_of_nat i) payload ct_len pf depth n clock rr_buf"
    using p(5-7) f(1) wf(3) by (simp add: rgtp_pull_next_def RGTP_MAX_UDP_PAYLOAD_def)
  obtain v c r t sent where res: "rgtp_replay_check_and_set (s_replay p) (word_of_nat i) = Some (v, s_replay t)"
      "open_chunk cb env p (word_of_nat i) payload ct_len pf depth n = Some c"
      "receive_chunk cb env p (word_of_nat i) payload ct_len pf depth n clock rr_buf = Some (r, Some t, sent)"
      "puller_inv t" "same_identity p t"
      "r = (if v = RGTP_REPLAY_ACCEPT then map_sum id (\<lambda>pt. (pt, word_of_nat i)) c else Inl RGTP_ERR_INVALID_ARG)"
    by (rule receive_chunk_result [OF p(1) wff(2,1) assms(3)])
  have i: "unat (word_of_nat i :: u32) = i"
    using assms(2) unat_u32_bound [of "s_chunk_count s"] by (intro word_of_nat_unat_32) simp
  have "(word_of_nat i :: u32) < WINDOW_BITS" using wff(2) p(4) by (simp add: WINDOW_BITS_def)
  then obtain w' where w': "rgtp_replay_check_and_set (s_replay p) (word_of_nat i) =
      Some (if i \<in> seen p then RGTP_REPLAY_DUPLICATE else RGTP_REPLAY_ACCEPT, w')"
    "base w' = 0" "window_abs w' = insert i (seen p)"
    using check_refines_set [OF p(2,3), of "word_of_nat i"] unfolding i by metis
  have "pull_ready cb env n s pts cts t"
    using rd res(1,4,5) w' p(4) by (auto simp: pull_ready_def small_puller_def same_identity_def split: if_splits)
  then show ?thesis
    using res w' f(2) eq by (auto simp: genuine_step_def puller_step_def spec_pull_def insert_absorb split: if_splits)
qed

interpretation transfer: refinement "genuine_step cb env n s want" "spec_pull pts" seen "pull_ready cb env n s pts cts"
  "\<lambda>(i, clock, rr_buf). i < unat (s_chunk_count s) \<and> length rr_buf = 64"
  for cb env n s want pts cts
proof
  fix p and op :: "nat \<times> (u64 \<times> u64 \<times> u64) \<times> bytes"
  assume "pull_ready cb env n s pts cts p" "case op of (i, clock, rr_buf) \<Rightarrow> i < unat (s_chunk_count s) \<and> length rr_buf = 64"
  then show "\<exists>r t. genuine_step cb env n s want op p = Some (r, t) \<and> pull_ready cb env n s pts cts t \<and>
      spec_pull pts op (seen p) = (r, seen t)"
    using genuine_refines by (cases op) blast
qed

lemma run_outputs_map: "run_outputs f (map g xs) c = run_outputs (\<lambda>x. f (g x)) xs c"
  by (induction xs arbitrary: c) (auto cong: Option.bind_cong)

lemma alloc_puller_total:
  assumes "plenty env" and "case cfg of Some c \<Rightarrow> alloc_fn (cfg_allocator c) = None | None \<Rightarrow> True" and "n \<noteq> 0" and "n \<le> 256"
  shows "\<exists>s. rgtp_surface_alloc_puller env cfg n cs sz = Some s"
proof -
  have n: "0 < unat n" "unat n \<le> 256" using assms(3,4) by (simp_all add: unat_gt_0 word_le_nat_alt)
  then have "unat (n + 7) = unat n + 7" by (intro trans [OF unat_word_ariths(1)]) simp
  then have "unat ((n + 7) div 8) = (unat n + 7) div 8" by (simp add: unat_div)
  then have b: "0 < unat ((n + 7) div 8)" "unat ((n + 7) div 8) \<le> 256" using n by simp_all
  have "unat n * 8 mod 2 ^ 64 = unat n * 8" "unat ((n + 7) div 8) mod 2 ^ 64 = unat ((n + 7) div 8)"
    using n b by (intro mod_less; simp)+
  then show ?thesis
    using assms(1,2) n b
    by (auto simp: rgtp_surface_alloc_puller_def surface_alloc_def surface_calloc_def surface_malloc_def
        init_surface_def zero_surface_def SURFACE_BYTES_def SIZE_MAX_def Let_def split: option.splits)
qed

text \<open>A configuration with which a pull can start.\<close>

definition pullable :: "rgtp_config option \<Rightarrow> bool" where
  "pullable cfg \<longleftrightarrow> (case cfg of Some c \<Rightarrow> alloc_fn (cfg_allocator c) = None | None \<Rightarrow> True) \<and> initial_window cfg \<le> 65536"

lemma pull_start_exposed:
  assumes "exposed cb s pts cts" and "s_chunk_count s \<noteq> 0" and "s_chunk_count s \<le> 256" and "s_chunk_size s \<noteq> 0"
    and "plenty env" and "pullable cfg" and "length buf = 64"
  obtains p where "rgtp_pull_start env True True (Some (s_exposure_id s)) cfg True buf True (Some (packet_bytes (manifest_packet s))) =
      (ok p, [packet_bytes (pull_request_packet (s_exposure_id s) cfg)])"
    "small_puller p" "seen p = {}" "same_identity (s\<lparr>s_key := s_key p\<rparr>) p"
proof -
  let ?req = "pull_request_packet (s_exposure_id s) cfg"
  have id: "length (s_exposure_id s) = 16" using assms(1) by (simp add: exposed_def)
  then have wf: "wf_packet ?req" by (simp add: pull_request_packet_def)
  have len: "length (packet_bytes ?req) = 36" using wf_packet_lengths [OF wf] by (simp add: packet_bytes_def pull_request_packet_def)
  have ser: "rgtp_serialize_packet (Some ?req) (Some buf) True = ok (packet_bytes ?req @ drop 36 buf, 36)"
    using rgtp_serialize_packet_exact [OF wf, of buf] len assms(7) by simp
  note m = manifest_facts [OF assms(1)]
  have parse: "rgtp_parse_packet (Some (packet_bytes (manifest_packet s))) (- 1) True = ok (manifest_packet s)"
    using parse_packet_bytes [OF m(1), of "- 1" "[]"] m(2,3) assms(2,4) by (simp add: manifest_packet_def)
  obtain s0 where s0: "rgtp_surface_alloc_puller env cfg (s_chunk_count s) (s_chunk_size s) (s_total_size s) = Some s0"
    using alloc_puller_total [OF assms(5) _ assms(2,3)] assms(6) unfolding pullable_def by blast
  define p where "p = s0\<lparr>s_exposure_id := s_exposure_id s, s_merkle_root := s_merkle_root s,
      s_fec_enabled := (s_fec_n s > 0 \<and> s_fec_k s > 0), s_fec_n := s_fec_n s, s_fec_k := s_fec_k s, s_state := RGTP_SURFACE_ACTIVE\<rparr>"
  have acc: "accept_manifest env (s_exposure_id s) cfg (packet_bytes (manifest_packet s)) = ok p"
    using parse m(2) s0 assms(2,4) by (simp add: accept_manifest_def manifest_packet_def p_def)
  have count: "s_chunk_count p = s_chunk_count s" using alloc_puller_fields(1) [OF s0 assms(3)] by (simp add: p_def)
  show thesis
  proof (rule that)
    show "rgtp_pull_start env True True (Some (s_exposure_id s)) cfg True buf True (Some (packet_bytes (manifest_packet s))) =
      (ok p, [packet_bytes ?req])"
      using ser len m(2) acc by (auto simp: rgtp_pull_start_def)
    show "small_puller p" "seen p = {}"
      using accept_manifest_puller [OF acc id] assms(3,6) count by (simp_all add: pullable_def)
    show "same_identity (s\<lparr>s_key := s_key p\<rparr>) p" using count by (simp add: same_identity_def p_def)
  qed
qed

lemma small_puller_key [simp]: "small_puller (p\<lparr>s_key := k\<rparr>) = small_puller p"
  by (simp add: small_puller_def)

text \<open>Data of at most 256 chunks in packets that fit a datagram.\<close>

definition transferable :: "rgtp_config option \<Rightarrow> bytes \<Rightarrow> bool" where
  "transferable cfg d \<longleftrightarrow> unat (expose_chunk_size cfg) \<le> 64000 \<and> length d \<le> 256 * unat (expose_chunk_size cfg)"

lemma chunk_count_256:
  assumes "exposable env cfg d" and "transferable cfg d"
  shows "expose_chunk_count (length d) (expose_chunk_size cfg) \<le> 256"
proof -
  let ?c = "unat (expose_chunk_size cfg)"
  have c: "0 < ?c" by (simp add: unat_gt_0)
  have d: "0 < length d" "length d \<le> 2 ^ 26" using assms(1) by (auto simp: exposable_def)
  have "unat (expose_chunk_count (length d) (expose_chunk_size cfg)) = (length d + ?c - 1) div ?c"
    by (rule chunk_count_small(1) [OF d expose_chunk_size_nonzero])
  also have "\<dots> < 257"
  proof (rule less_mult_imp_div_less)
    show "length d + ?c - 1 < 257 * ?c" using assms(2) c unfolding transferable_def by linarith
  qed
  finally show ?thesis by (simp add: word_le_nat_alt)
qed

lemma expose_transferable:
  assumes "random_lawful cb" and "backend_total cb" and "exposable env cfg d" and "transferable cfg d"
  obtains s cts where "rgtp_expose cb env True (Some d) cfg True = ok s" "exposed cb s (chunks_of d cfg) cts"
    "concat (chunks_of d cfg) = d" "fits (chunks_of d cfg)" "s_chunk_count s \<le> 256" "s_chunk_count s \<noteq> 0" "s_chunk_size s \<noteq> 0"
    "s_is_exposer s" "s_state s = RGTP_SURFACE_ACTIVE" "s_ratelimit s = rgtp_ratelimit_init"
    "\<forall>x \<in> set (chunks_of d cfg). length x \<le> unat (expose_chunk_size cfg)"
proof -
  obtain s where s: "rgtp_expose cb env True (Some d) cfg True = ok s" using expose_total [OF assms(2,3)] by blast
  have d: "length d \<le> 2 ^ 26" using assms(3) by (simp add: exposable_def)
  obtain cts where e: "exposed cb s (chunks_of d cfg) cts" "s_chunk_count s = expose_chunk_count (length d) (expose_chunk_size cfg)"
      "s_chunk_size s = expose_chunk_size cfg" "concat (chunks_of d cfg) = d"
      "s_is_exposer s" "s_state s = RGTP_SURFACE_ACTIVE" "s_ratelimit s = rgtp_ratelimit_init"
    by (rule expose_exposed [OF s assms(1) d]) blast
  have lens: "\<forall>x \<in> set (chunks_of d cfg). length x \<le> unat (expose_chunk_size cfg)"
    using slice_length by (auto simp: chunks_of_def)
  then have "fits (chunks_of d cfg)" using assms(4) by (auto simp: fits_def transferable_def intro: order_trans)
  moreover have "s_chunk_count s \<noteq> 0" using s e(2) by (auto simp: rgtp_expose_def Let_def split: if_splits)
  ultimately show thesis using that [OF s e(1,4)] chunk_count_256 [OF assms(3,4)] e(2,3,5-7) lens by simp
qed

subsection \<open>Forged packets\<close>

definition forged_packet :: "rgtp_surface \<Rightarrow> u32 \<Rightarrow> bytes \<Rightarrow> rgtp_packet" where
  "forged_packet p idx junk = ChunkData \<lparr>cd_exposure_id = s_exposure_id p, cd_chunk_index = idx, cd_payload = Some junk,
     cd_payload_len = word_of_nat (length junk)\<rparr>"

lemma pull_next_chunk:
  assumes "small_puller p" and "wf_packet pkt" and "acceptable (s_chunk_count p) pkt" and "length (packet_bytes pkt) \<le> 65500"
    and "chunk_fields pkt = Some (s_exposure_id p, idx, payload, ct_len, pf, depth)"
  shows "rgtp_pull_next cb env (Some p) True n True (Some (packet_bytes pkt)) clock rr_buf =
    receive_chunk cb env p idx payload ct_len pf depth n clock rr_buf"
proof -
  have hv: "host_view pkt = pkt" using assms(5) by (cases pkt) simp_all
  have "rgtp_parse_packet (Some (packet_bytes pkt)) (s_chunk_count p) True = ok pkt"
    using parse_packet_bytes [OF assms(2,3), of "[]"] assms(4) hv by simp
  moreover have "packet_bytes pkt \<noteq> []" by (simp add: packet_bytes_def header_bytes_def)
  ultimately show ?thesis
    using assms(1,4,5) by (simp add: rgtp_pull_next_def small_puller_def puller_inv_def RGTP_MAX_UDP_PAYLOAD_def)
qed

subsection \<open>A concrete pull\<close>

lemma demo_pull:
  obtains s cts p where
    "rgtp_expose demo_backend demo_env True (Some [1, 2, 3, 4, 5]) (Some (demo_config True)) True = ok s"
    "rgtp_pull_start demo_env True True (Some (s_exposure_id s)) None True (replicate 64 0) True
      (Some (packet_bytes (manifest_packet s))) = (ok p, [packet_bytes (pull_request_packet (s_exposure_id s) None)])"
    "pull_ready demo_backend demo_env 2 s [[1, 2], [3, 4], [5]] cts (p\<lparr>s_key := s_key s\<rparr>)" "seen p = {}"
    "s_chunk_count s = 3" "s_chunk_count p = 3" "length (s_exposure_id s) = 16"
proof -
  let ?cfg = "Some (demo_config True)" and ?d = "[1, 2, 3, 4, 5] :: bytes"
  obtain s where s: "rgtp_expose demo_backend demo_env True (Some ?d) ?cfg True = ok s"
    using expose_total [OF demo_total(1) demo_exposable [of True]] by blast
  obtain cts where e: "exposed demo_backend s (chunks_of ?d ?cfg) cts" "s_chunk_size s = expose_chunk_size ?cfg"
      "s_chunk_count s = expose_chunk_count (length ?d) (expose_chunk_size ?cfg)"
    by (rule expose_exposed [OF s demo_total(2)]) simp_all
  have n: "s_chunk_count s = 3" using e(3) by (simp add: demo_config_def expose_chunk_size_def expose_chunk_count_def)
  obtain p where p: "rgtp_pull_start demo_env True True (Some (s_exposure_id s)) None True (replicate 64 0) True
      (Some (packet_bytes (manifest_packet s))) = (ok p, [packet_bytes (pull_request_packet (s_exposure_id s) None)])"
      "small_puller p" "seen p = {}" "same_identity (s\<lparr>s_key := s_key p\<rparr>) p"
    by (rule pull_start_exposed [OF e(1), where env = demo_env and cfg = None and buf = "replicate 64 0"])
      (use n e(2) demo_total(3) in \<open>simp_all add: pullable_def initial_window_def\<close>)
  show thesis
  proof (rule that [OF s p(1) _ p(3) n])
    show "pull_ready demo_backend demo_env 2 s [[1, 2], [3, 4], [5]] cts (p\<lparr>s_key := s_key s\<rparr>)"
      using e(1) p(2,4) demo_backend_lawful demo_total(3)
      by (simp add: pull_ready_def demo_chunks fits_def same_identity_def)
    show "s_chunk_count p = 3" using p(4) n by (simp add: same_identity_def)
    show "length (s_exposure_id s) = 16" using e(1) by (simp add: exposed_def)
  qed
qed

subsection \<open>Properties\<close>

text \<open>C1: transfer from end to end.  The data is exposed; the request of a puller is
  answered with the manifest and the first chunks of its window; the puller starts from
  that manifest; and, given the exposer's key, it hands out chunk \<open>i\<close> the first
  time that datagram \<open>i\<close> arrives and refuses every later copy, for any order of
  arrival, with losses and duplicates.  The chunks joined are the data.\<close>

theorem transfer_correct:
  assumes "aead_lawful cb" and "random_lawful cb" and "backend_total cb"
    and "exposable env cfg d" and "transferable cfg d" and "pullable pcfg" and "plenty penv"
    and "length sbuf = RGTP_MAX_UDP_PAYLOAD + 128" and "length rbuf = 64" and "unat (expose_chunk_size cfg) \<le> n"
    and "list_all (\<lambda>(i, clock, rr_buf). i < length (chunks_of d cfg) \<and> i < max 1 (unat (initial_window pcfg)) \<and> length rr_buf = 64) ops"
  shows "\<exists>s s' req man pkts p. rgtp_expose cb env True (Some d) cfg True = ok s \<and>
    rgtp_pull_start penv True True (Some (s_exposure_id s)) pcfg True rbuf True (Some man) = (ok p, [req]) \<and>
    rgtp_poll (Some s) (Some req) sender now1 now2 sbuf = Some (None, Some s', man # pkts) \<and>
    run_outputs (puller_step cb penv n) (map (\<lambda>(i, clock, rr_buf). (pkts ! i, clock, rr_buf)) ops) (p\<lparr>s_key := s_key s\<rparr>) =
      Some (spec_outputs (spec_pull (chunks_of d cfg)) ops {}) \<and>
    concat (chunks_of d cfg) = d"
proof -
  let ?cs = "expose_chunk_size cfg" and ?pts = "chunks_of d cfg"
  obtain s cts where s: "rgtp_expose cb env True (Some d) cfg True = ok s"
    and e: "exposed cb s ?pts cts" "concat ?pts = d" "fits ?pts" "s_chunk_count s \<le> 256" "s_chunk_count s \<noteq> 0" "s_chunk_size s \<noteq> 0"
      "s_is_exposer s" "s_state s = RGTP_SURFACE_ACTIVE" "s_ratelimit s = rgtp_ratelimit_init"
    and lens: "\<forall>x \<in> set ?pts. length x \<le> unat ?cs"
    by (rule expose_transferable [OF assms(2-5)])
  obtain p where p: "rgtp_pull_start penv True True (Some (s_exposure_id s)) pcfg True rbuf True (Some (packet_bytes (manifest_packet s))) =
      (ok p, [packet_bytes (pull_request_packet (s_exposure_id s) pcfg)])"
    "small_puller p" "seen p = {}" "same_identity (s\<lparr>s_key := s_key p\<rparr>) p"
    by (rule pull_start_exposed [OF e(1,5,4,6) assms(7,6,9)])
  obtain req where req: "pull_request_packet (s_exposure_id s) pcfg = PullRequest req" "pr_exposure_id req = s_exposure_id s"
      "pr_window_size req = initial_window pcfg" "pr_flags req AND RGTP_PULL_FLAG_WANT_PROOF \<noteq> 0"
    by (simp add: pull_request_packet_def RGTP_PULL_FLAG_WANT_PROOF_def)
  let ?pkts = "map (\<lambda>i. packet_bytes (packet_of s True i)) [0..<served_count s (initial_window pcfg)]"
  obtain s' where poll: "rgtp_poll (Some s) (Some (packet_bytes (PullRequest req))) sender now1 now2 sbuf =
      Some (None, Some s', packet_bytes (manifest_packet s) # ?pkts)"
    using poll_answers [OF e(1) assms(1) e(3,5) _ e(7-9) req(2), of sbuf sender now1 now2] assms(8) req(3,4)
    by (auto simp: RGTP_MAX_UDP_PAYLOAD_def)
  have len: "length ?pts = unat (s_chunk_count s)" using e(1) by (simp add: exposed_def)
  have ready: "pull_ready cb penv n s ?pts cts (p\<lparr>s_key := s_key s\<rparr>)"
    using e(1) assms(1,7,10) e(3) lens p(2,4) by (auto simp: pull_ready_def same_identity_def intro: order_trans)
  have ops: "list_all (\<lambda>(i, clock, rr_buf). i < unat (s_chunk_count s) \<and> length rr_buf = 64) ops"
    using assms(11) len by (auto simp: list_all_iff)
  have same: "run_outputs (puller_step cb penv n) (map (\<lambda>(i, clock, rr_buf). (?pkts ! i, clock, rr_buf)) ops) c =
      run_outputs (genuine_step cb penv n s True) ops c" for c
  proof -
    have eq: "map (\<lambda>(i, clock, rr_buf). (?pkts ! i, clock, rr_buf)) ops =
        map (\<lambda>(i, clock, rr_buf). (packet_bytes (packet_of s True i), clock, rr_buf)) ops"
      using assms(11) len by (intro map_cong) (auto simp: list_all_iff served_count_def)
    show ?thesis unfolding eq run_outputs_map by (simp add: genuine_step_def [abs_def] case_prod_unfold)
  qed
  have "run_outputs (genuine_step cb penv n s True) ops (p\<lparr>s_key := s_key s\<rparr>) = Some (spec_outputs (spec_pull ?pts) ops {})"
    using transfer.outputs_refine [OF ready ops, of True] p(3) by simp
  then show ?thesis using s p(1) poll req(1) same e(2) by metis
qed

theorem transfer_correct_witness:
  "\<exists>s s' req man pkts p.
    rgtp_expose demo_backend demo_env True (Some [1, 2, 3, 4, 5]) (Some (demo_config True)) True = ok s \<and>
    rgtp_pull_start demo_env True True (Some (s_exposure_id s)) (Some (demo_config True)) True (replicate 64 0) True (Some man) = (ok p, [req]) \<and>
    rgtp_poll (Some s) (Some req) None 5 6 (replicate 65635 0) = Some (None, Some s', man # pkts) \<and>
    run_outputs (puller_step demo_backend demo_env 2)
      [(pkts ! 2, (0, 5, 6), replicate 64 0), (pkts ! 0, (7, 8, 9), replicate 64 0), (pkts ! 2, (7, 8, 9), replicate 64 0)]
      (p\<lparr>s_key := s_key s\<rparr>) = Some [Inr ([5], 2), Inr ([1, 2], 0), Inl RGTP_ERR_INVALID_ARG]"
proof -
  let ?cfg = "Some (demo_config True)" and ?d = "[1, 2, 3, 4, 5] :: bytes"
  let ?ops = "[(2, (0, 5, 6), replicate 64 0), (0, (7, 8, 9), replicate 64 0), (2, (7, 8, 9), replicate 64 0)]
    :: (nat \<times> (u64 \<times> u64 \<times> u64) \<times> bytes) list"
  have cfg: "expose_chunk_size ?cfg = 2" "initial_window ?cfg = 8" "pullable ?cfg" "transferable ?cfg ?d"
    by (simp_all add: demo_config_def zero_config_def expose_chunk_size_def initial_window_def pullable_def transferable_def)
  have "spec_outputs (spec_pull [[1, 2], [3, 4], [5]]) ?ops {} = [Inr ([5], 2), Inr ([1, 2], 0), Inl RGTP_ERR_INVALID_ARG]"
    by (simp add: spec_pull_def)
  moreover have "list_all (\<lambda>(i, clock, rr_buf). i < length [[1, 2], [3, 4], [5 :: u8]] \<and> i < max 1 (unat (8 :: u32)) \<and> length rr_buf = 64) ?ops"
    by simp
  ultimately show ?thesis
    using transfer_correct [OF demo_backend_lawful demo_total(2,1) demo_exposable [of True] cfg(4,3) demo_total(3),
        of "replicate 65635 0" "replicate 64 0" 2 ?ops None 5 6]
    by (simp add: demo_chunks cfg(1,2) RGTP_MAX_UDP_PAYLOAD_def del: run_outputs.simps spec_outputs.simps)
qed

text \<open>C3: authenticity against arbitrary senders.  A puller that started from any
  manifest of at most 256 chunks, whatever key it is given, survives every sequence of
  datagrams; the chunks that it hands out have distinct indices below the chunk count, fit
  the caller's buffer, and each is the decryption of a ciphertext under that key with the
  nonce of its index.\<close>

theorem pull_authentic:
  assumes "rgtp_pull_start env sock server (Some eid) cfg out rbuf sent_ok dg = (ok p, reqs)"
    and "length eid = 16" and "initial_window cfg \<le> 65536" and "s_chunk_count p \<le> 256"
    and "\<forall>(dgram, clock, rr_buf) \<in> set ops. length rr_buf = 64"
  shows "\<exists>rs. run_outputs (puller_step cb env' n) ops (p\<lparr>s_key := key\<rparr>) = Some rs \<and> distinct (map snd (delivered rs)) \<and>
    (\<forall>(pt, idx) \<in> set (delivered rs). idx < s_chunk_count p \<and> length pt \<le> n \<and>
      (\<exists>ct. rgtp_decrypt_chunk cb (Some key) idx (Some ct) True = ok pt))"
proof -
  obtain b where "accept_manifest env eid cfg b = ok p"
    using assms(1) by (auto simp: rgtp_pull_start_def split: if_splits option.splits sum.splits)
  then have "small_puller (p\<lparr>s_key := key\<rparr>)" using accept_manifest_puller(1) assms(2-4) by simp
  from puller_run_authentic [OF this assms(5), of cb env' n] obtain rs where
    rs: "run_outputs (puller_step cb env' n) ops (p\<lparr>s_key := key\<rparr>) = Some rs" "distinct (map snd (delivered rs))"
    and each: "\<forall>(pt, idx) \<in> set (delivered rs). idx < s_chunk_count (p\<lparr>s_key := key\<rparr>) \<and> unat idx \<notin> seen (p\<lparr>s_key := key\<rparr>) \<and>
      length pt \<le> n \<and> (\<exists>payload. rgtp_decrypt_chunk cb (Some (s_key (p\<lparr>s_key := key\<rparr>))) idx payload True = ok pt)"
    by blast
  have dec: "\<exists>ct. rgtp_decrypt_chunk cb (Some key) idx (Some ct) True = ok pt"
    if "rgtp_decrypt_chunk cb (Some key) idx payload True = ok pt" for payload pt idx
  proof (cases payload)
    case (Some ct)
    then show ?thesis using that by blast
  qed (use that in \<open>simp add: rgtp_decrypt_chunk_def\<close>)
  have "\<forall>(pt, idx) \<in> set (delivered rs). idx < s_chunk_count p \<and> length pt \<le> n \<and>
      (\<exists>ct. rgtp_decrypt_chunk cb (Some key) idx (Some ct) True = ok pt)"
  proof (intro ballI, clarify)
    fix pt idx assume "(pt, idx) \<in> set (delivered rs)"
    with each have "idx < s_chunk_count p" "length pt \<le> n" "\<exists>payload. rgtp_decrypt_chunk cb (Some key) idx payload True = ok pt"
      by auto
    then show "idx < s_chunk_count p \<and> length pt \<le> n \<and> (\<exists>ct. rgtp_decrypt_chunk cb (Some key) idx (Some ct) True = ok pt)"
      using dec by blast
  qed
  then show ?thesis using rs by blast
qed

theorem pull_authentic_witness:
  "\<exists>s p reqs rs. rgtp_pull_start demo_env True True (Some (s_exposure_id s)) None True (replicate 64 0) True
      (Some (packet_bytes (manifest_packet s))) = (ok p, reqs) \<and>
    run_outputs (puller_step demo_backend demo_env 2)
      [([7, 7], (0, 1, 2), replicate 64 0), (packet_bytes (packet_of s True 1), (0, 1, 2), replicate 64 0)] (p\<lparr>s_key := s_key s\<rparr>) = Some rs \<and>
    distinct (map snd (delivered rs))"
proof -
  let ?ops = "\<lambda>s. [([7, 7], (0, 1, 2), replicate 64 0), (packet_bytes (packet_of s True 1), (0, 1, 2), replicate 64 0)]"
  obtain s cts p where d: "rgtp_pull_start demo_env True True (Some (s_exposure_id s)) None True (replicate 64 0) True
      (Some (packet_bytes (manifest_packet s))) = (ok p, [packet_bytes (pull_request_packet (s_exposure_id s) None)])"
      "s_chunk_count p = 3" "length (s_exposure_id s) = 16"
    by (rule demo_pull) blast
  have "\<forall>(dgram, clock, rr_buf) \<in> set (?ops s). length rr_buf = 64" by simp
  from pull_authentic [OF d(1,3) _ _ this, of demo_backend demo_env 2 "s_key s"] d(2)
  obtain rs where "run_outputs (puller_step demo_backend demo_env 2) (?ops s) (p\<lparr>s_key := s_key s\<rparr>) = Some rs"
      "distinct (map snd (delivered rs))"
    by (auto simp: initial_window_def simp del: run_outputs.simps)
  with d(1) show ?thesis by blast
qed

text \<open>C38: the replay window is marked before the tag is checked.  A packet for a chunk that
  has not arrived, with the right identifier and a payload that fails authentication, is
  rejected, and the genuine packet of that chunk is refused afterwards.\<close>

theorem forged_packet_blocks_chunk:
  assumes "small_puller p" and "idx < s_chunk_count p" and "unat idx \<notin> seen p" and "plenty env"
    and "16 \<le> length junk" and "length junk \<le> 64000"
    and "rgtp_decrypt_chunk cb (Some (s_key p)) idx (Some junk) True = err e"
    and "wf_packet pkt" and "acceptable (s_chunk_count p) pkt" and "length (packet_bytes pkt) \<le> 65500"
    and "chunk_fields pkt = Some (s_exposure_id p, idx, payload, ct_len, pf, depth)"
    and "length rr1 = 64" and "length rr2 = 64"
  shows "run_outputs (puller_step cb env n) [(packet_bytes (forged_packet p idx junk), clock1, rr1), (packet_bytes pkt, clock2, rr2)] p =
    Some [Inl RGTP_ERR_AUTH_FAIL, Inl RGTP_ERR_INVALID_ARG]"
proof -
  let ?f = "forged_packet p idx junk"
  have inv: "puller_inv p" "replay_inv (s_replay p)" "base (s_replay p) = 0" "s_chunk_count p \<le> 256" "length (s_exposure_id p) = 16"
    using assms(1) by (auto simp: small_puller_def puller_inv_def)
  have len: "unat (word_of_nat (length junk) :: u16) = length junk" using assms(6) by (intro word_of_nat_unat_16) simp
  have wf: "wf_packet ?f" "acceptable (s_chunk_count p) ?f" using inv(5) len assms(2) by (simp_all add: forged_packet_def)
  have "length (packet_bytes ?f) \<le> 65500"
    using wf_packet_lengths [OF wf(1)] len assms(6) by (simp add: packet_bytes_def forged_packet_def)
  note first = pull_next_chunk [OF assms(1) wf this]
  have small: "idx < WINDOW_BITS" using assms(2) inv(4) by (simp add: WINDOW_BITS_def)
  obtain w where w: "rgtp_replay_check_and_set (s_replay p) idx = Some (RGTP_REPLAY_ACCEPT, w)" "replay_inv w" "base w = 0"
      "window_abs w = insert (unat idx) (seen p)"
    using check_refines_set [OF inv(2,3) small] assms(3) by metis
  obtain w' where w': "rgtp_replay_check_and_set w idx = Some (RGTP_REPLAY_DUPLICATE, w')"
    using check_refines_set [OF w(2,3) small] w(4) by (metis insertI1)
  have get: "mem_get junk 0 (length junk) = Some junk" by (simp add: mem_get_def)
  let ?p = "p\<lparr>s_replay := w, s_auth_failures := s_auth_failures p + 1\<rparr>"
  have "open_chunk cb env p idx (Some junk) (word_of_nat (length junk)) None 0 n = err RGTP_ERR_AUTH_FAIL"
    using assms(4,5,7) len get by (auto simp: open_chunk_def RGTP_AEAD_TAG_BYTES_def)
  then have r1: "receive_chunk cb env p idx (Some junk) (word_of_nat (length junk)) None 0 n clock1 rr1 =
      Some (Inl RGTP_ERR_AUTH_FAIL, Some ?p, [])"
    using w(1) by (simp add: receive_chunk_def Let_def)
  have "small_puller ?p" using assms(1) w(2,3) by (simp add: small_puller_def puller_inv_def)
  then have "rgtp_pull_next cb env (Some ?p) True n True (Some (packet_bytes pkt)) clock2 rr2 =
      receive_chunk cb env ?p idx payload ct_len pf depth n clock2 rr2"
    by (rule pull_next_chunk) (use assms(8-11) in simp_all)
  also have "\<dots> = Some (Inl RGTP_ERR_INVALID_ARG, Some (?p\<lparr>s_replay := w'\<rparr>), [])"
    using w' by (simp add: receive_chunk_def)
  finally show ?thesis
    using first [of idx "Some junk" "word_of_nat (length junk)" None 0] r1 by (simp add: puller_step_def forged_packet_def)
qed

theorem forged_packet_blocks_chunk_witness:
  "\<exists>s p. rgtp_expose demo_backend demo_env True (Some [1, 2, 3, 4, 5]) (Some (demo_config True)) True = ok s \<and> s_key p = s_key s \<and>
    run_outputs (puller_step demo_backend demo_env 2)
      [(packet_bytes (forged_packet p 0 [0, 1, 2, 3, 4, 5, 6, 7, 8, 9, 10, 11, 12, 13, 14, 15, 16]), (0, 1, 2), replicate 64 0),
       (packet_bytes (packet_of s True 0), (3, 4, 5), replicate 64 0)] p =
    Some [Inl RGTP_ERR_AUTH_FAIL, Inl RGTP_ERR_INVALID_ARG]"
proof -
  let ?junk = "[0, 1, 2, 3, 4, 5, 6, 7, 8, 9, 10, 11, 12, 13, 14, 15, 16] :: bytes"
  obtain s cts p where d: "rgtp_expose demo_backend demo_env True (Some [1, 2, 3, 4, 5]) (Some (demo_config True)) True = ok s"
      "pull_ready demo_backend demo_env 2 s [[1, 2], [3, 4], [5]] cts (p\<lparr>s_key := s_key s\<rparr>)" "seen p = {}"
      "s_chunk_count s = 3" "s_chunk_count p = 3"
    by (rule demo_pull) blast
  let ?p = "p\<lparr>s_key := s_key s\<rparr>"
  have ex: "exposed demo_backend s [[1, 2], [3, 4], [5]] cts" "aead_lawful demo_backend" "fits [[1, 2], [3, 4], [5]]" "small_puller ?p"
      "s_exposure_id p = s_exposure_id s"
    using d(2) by (simp_all add: pull_ready_def same_identity_def)
  have i: "0 < unat (s_chunk_count s)" using d(4) by simp
  note wf = packet_of_wf [OF ex(1-3) i, of True]
  obtain payload ct_len pf depth where
    f: "chunk_fields (packet_of s True 0) = Some (s_exposure_id ?p, 0, payload, ct_len, pf, depth)"
    by (rule open_genuine [OF d(2) i, of True]) (use ex(5) in simp)
  have junk: "rgtp_decrypt_chunk demo_backend (Some (s_key ?p)) 0 (Some ?junk) True = err RGTP_ERR_AUTH_FAIL"
    by (simp add: rgtp_decrypt_chunk_def demo_backend_def demo_tag_def RGTP_AEAD_TAG_BYTES_def numeral_eq_Suc)
  have "run_outputs (puller_step demo_backend demo_env 2)
      [(packet_bytes (forged_packet ?p 0 ?junk), (0, 1, 2), replicate 64 0),
       (packet_bytes (packet_of s True 0), (3, 4, 5), replicate 64 0)] ?p = Some [Inl RGTP_ERR_AUTH_FAIL, Inl RGTP_ERR_INVALID_ARG]"
    by (rule forged_packet_blocks_chunk [OF ex(4) _ _ demo_total(3) _ _ junk wf(1) _ wf(3) f])
      (use d(3-5) wf(2) in simp_all)
  with d(1) show ?thesis by (intro exI [of _ s] exI [of _ ?p]) simp
qed

end
