(* ===== verification/Rgtp_Progress.thy ===== *)
theory Rgtp_Progress
  imports Rgtp_Puller
begin

text \<open>
  What \<^verbatim>\<open>rgtp_progress\<close> of \<^verbatim>\<open>src/transport/rgtp_surface.c\<close>
  reports about a pull: the receive bitmap and the counter kept by
  \<^verbatim>\<open>rgtp_pull_next\<close> agree with the chunks handed out, and the
  quotient computed in single precision reaches 1 with the last chunk and not before.
\<close>

subsection \<open>The bitmap as a set\<close>

definition received :: "rgtp_surface \<Rightarrow> nat set" where
  "received s = {i. i < unat (s_chunk_count s) \<and> (\<exists>bm. s_recv_bitmap s = Some bm \<and> bit (bm ! (i div 8)) (i mod 8))}"

lemma finite_received [simp]: "finite (received s)"
  by (rule finite_subset [of _ "{..<unat (s_chunk_count s)}"]) (auto simp: received_def)

lemma bitmap_test_bit_eq:
  assumes "unat idx < 8 * length bm"
  shows "bitmap_test_bit bm idx = Some (bit (bm ! (unat idx div 8)) (unat idx mod 8))"
proof -
  have "unat (idx div 8) < length bm" using assms by (simp add: unat_div less_mult_imp_div_less mult.commute)
  then show ?thesis
    by (simp add: bitmap_test_bit_def Let_def unat_div unat_mod and_one_eq odd_iff_mod_2_eq_one [symmetric] bit_iff_odd_drop_bit)
qed

lemma bitmap_set_bit_bits:
  assumes "bitmap_set_bit bm idx = Some bm'" and "i < 8 * length bm"
  shows "bit (bm' ! (i div 8)) (i mod 8) \<longleftrightarrow> i = unat idx \<or> bit (bm ! (i div 8)) (i mod 8)"
proof -
  have i: "i div 8 < length bm" using assms(2) by (simp add: less_mult_imp_div_less mult.commute)
  have k: "unat idx div 8 < length bm" and bm': "bm' = bm[unat idx div 8 := bm ! (unat idx div 8) OR push_bit (unat idx mod 8) 1]"
    using assms(1) by (simp_all add: bitmap_set_bit_def Let_def unat_div unat_mod split: if_splits)
  have "i = unat idx \<longleftrightarrow> i div 8 = unat idx div 8 \<and> i mod 8 = unat idx mod 8"
    by (metis div_mod_decomp)
  moreover have "bit (push_bit (unat idx mod 8) 1 :: u8) (i mod 8) \<longleftrightarrow> i mod 8 = unat idx mod 8"
    by (auto simp: bit_push_bit_iff bit_1_iff simp del: push_bit_of_1)
  ultimately show ?thesis
    using i k by (cases "i div 8 = unat idx div 8") (auto simp: bm' bit_or_iff simp del: push_bit_of_1)
qed

text \<open>A reception leaves bitmap and counter alone when it fails, and otherwise marks
  the index that it returns.\<close>

lemma record_rtt_keeps:
  "record_rtt s t0 t1 = Some t \<Longrightarrow> s_recv_bitmap t = s_recv_bitmap s \<and> s_chunks_received t = s_chunks_received s"
  by (auto simp: record_rtt_def Let_def split: if_splits Option.bind_splits)

lemma receive_chunk_marks:
  assumes "receive_chunk cb env s idx payload ct_len pf depth n clock rr_buf = Some (r, Some t, sent)"
  shows "(\<exists>e. r = Inl e) \<and> s_recv_bitmap t = s_recv_bitmap s \<and> s_chunks_received t = s_chunks_received s \<or>
    (\<exists>w pt u. r = Inr (pt, idx) \<and> mark_received (s\<lparr>s_replay := w\<rparr>) idx (length pt) = Some u \<and>
      s_recv_bitmap t = s_recv_bitmap u \<and> s_chunks_received t = s_chunks_received u)"
  using assms unfolding receive_chunk_def
  by (fastforce simp: Let_def split: Option.bind_splits if_splits sum.splits prod.splits dest: record_rtt_keeps)

lemma pull_next_marks:
  assumes "rgtp_pull_next cb env (Some s) True n True dg clock rr_buf = Some (r, Some t, sent)"
  shows "(\<exists>e. r = Inl e) \<and> s_recv_bitmap t = s_recv_bitmap s \<and> s_chunks_received t = s_chunks_received s \<or>
    (\<exists>w pt idx u. r = Inr (pt, idx) \<and> mark_received (s\<lparr>s_replay := w\<rparr>) idx (length pt) = Some u \<and>
      s_recv_bitmap t = s_recv_bitmap u \<and> s_chunks_received t = s_chunks_received u)"
proof -
  have "(\<exists>e. r = Inl e) \<and> s_recv_bitmap t = s_recv_bitmap s \<and> s_chunks_received t = s_chunks_received s \<or>
    (\<exists>idx payload ct_len pf depth. receive_chunk cb env s idx payload ct_len pf depth n clock rr_buf = Some (r, Some t, sent))"
    using assms unfolding rgtp_pull_next_def
    by (auto split: Option.bind_splits if_splits option.splits sum.splits prod.splits)
  then show ?thesis
  proof (elim disjE exE)
    fix idx payload ct_len pf depth
    assume "receive_chunk cb env s idx payload ct_len pf depth n clock rr_buf = Some (r, Some t, sent)"
    from receive_chunk_marks [OF this] show ?thesis by blast
  qed simp
qed

subsection \<open>Counting\<close>

definition counted :: "rgtp_surface \<Rightarrow> bool" where
  "counted s \<longleftrightarrow> small_puller s \<and> received s \<subseteq> seen s \<and> unat (s_chunks_received s) = card (received s)"

text \<open>One reception, whatever the datagram.\<close>

lemma puller_step_counts:
  assumes "counted s" and "length rr_buf = 64"
  obtains r t where "puller_step cb env n (dg, clock, rr_buf) s = Some (r, t)" "counted t" "s_chunk_count t = s_chunk_count s"
    "received t = received s \<union> (\<lambda>(pt, idx). unat idx) ` set (delivered [r])"
    "card (received t) = card (received s) + length (delivered [r])"
proof -
  have s: "small_puller s" "received s \<subseteq> seen s" "unat (s_chunks_received s) = card (received s)"
    using assms(1) by (auto simp: counted_def)
  obtain r t where step: "puller_step cb env n (dg, clock, rr_buf) s = Some (r, t)" "small_puller t" "same_identity s t"
    "seen s \<subseteq> seen t" and out: "\<And>pt idx. r = Inr (pt, idx) \<Longrightarrow> idx < s_chunk_count s \<and> unat idx \<notin> seen s \<and> unat idx \<in> seen t \<and>
      length pt \<le> n \<and> (\<exists>payload. rgtp_decrypt_chunk cb (Some (s_key s)) idx payload True = ok pt)"
    by (rule puller_step_result [OF s(1) assms(2), where cb = cb and env = env and n = n and dg = dg and clock = clock]) blast
  have count: "s_chunk_count t = s_chunk_count s" using step(3) by (simp add: same_identity_def)
  obtain sent where "rgtp_pull_next cb env (Some s) True n True (Some dg) clock rr_buf = Some (r, Some t, sent)"
    using step(1) by (auto simp: puller_step_def split: option.splits)
  from pull_next_marks [OF this] show thesis
  proof (elim disjE exE conjE)
    fix e assume r: "r = Inl e" and same: "s_recv_bitmap t = s_recv_bitmap s" "s_chunks_received t = s_chunks_received s"
    then have "received t = received s" using count by (simp add: received_def)
    then show thesis using that [OF step(1) _ count] r same s step(2,4) by (auto simp: counted_def)
  next
    fix w pt idx u
    assume r: "r = Inr (pt, idx)" and u: "mark_received (s\<lparr>s_replay := w\<rparr>) idx (length pt) = Some u"
      "s_recv_bitmap t = s_recv_bitmap u" "s_chunks_received t = s_chunks_received u"
    obtain bm where bm: "s_recv_bitmap s = Some bm" "unat (s_chunk_count s) \<le> 8 * length bm"
      using s(1) by (auto simp: small_puller_def puller_inv_def)
    have idx: "unat idx < unat (s_chunk_count s)" "unat idx \<notin> received s" "unat idx \<in> seen t"
      using out [OF r] s(2) by (auto simp: word_less_nat_alt)
    then have "bitmap_test_bit bm idx = Some False"
      using bitmap_test_bit_eq [of idx bm] bm by (auto simp: received_def)
    then obtain bm' where bm': "bitmap_set_bit bm idx = Some bm'" "s_recv_bitmap t = Some bm'"
        "s_chunks_received t = s_chunks_received s + 1"
      using u bm(1) by (auto simp: mark_received_def split: Option.bind_splits)
    have rec: "received t = insert (unat idx) (received s)"
      using bitmap_set_bit_bits [OF bm'(1)] bm idx(1) bm'(2) count by (auto simp: received_def)
    have "card (received s) \<le> card {..<unat (s_chunk_count s)}" by (rule card_mono) (auto simp: received_def)
    moreover have "unat (s_chunk_count s) \<le> 256" using s(1) by (simp add: small_puller_def word_le_nat_alt)
    ultimately have "unat (s_chunks_received s + 1) = card (received s) + 1"
      using s(3) by (simp add: unat_word_ariths)
    then have "counted t" using step(2,4) s(2) rec idx bm'(3) by (auto simp: counted_def)
    then show thesis using that [OF step(1) _ count] rec r idx(2) by simp
  qed
qed

lemma delivered_append [simp]: "delivered (xs @ ys) = delivered xs @ delivered ys"
  by (induction xs rule: delivered.induct) auto

text \<open>A run with its final state.\<close>

primrec pull_run ::
    "crypto_backend \<Rightarrow> mem_env \<Rightarrow> nat \<Rightarrow> (bytes \<times> (u64 \<times> u64 \<times> u64) \<times> bytes) list \<Rightarrow> rgtp_surface \<Rightarrow>
      ((rgtp_error + bytes \<times> u32) list \<times> rgtp_surface) option" where
  "pull_run cb env n [] s = Some ([], s)"
| "pull_run cb env n (op # ops) s = do {
     (r, t) \<leftarrow> puller_step cb env n op s;
     (rs, u) \<leftarrow> pull_run cb env n ops t;
     Some (r # rs, u)}"

lemma pull_run_outputs: "run_outputs (puller_step cb env n) ops s = map_option fst (pull_run cb env n ops s)"
  by (induction ops arbitrary: s) (auto simp: map_option_bind case_prod_unfold comp_def Option.bind_map_option cong: Option.bind_cong split: Option.bind_splits)

lemma pull_run_counts:
  assumes "counted s" and "\<forall>(dg, clock, rr_buf) \<in> set ops. length rr_buf = 64"
  shows "\<exists>rs t. pull_run cb env n ops s = Some (rs, t) \<and> counted t \<and> s_chunk_count t = s_chunk_count s \<and>
    received t = received s \<union> (\<lambda>(pt, idx). unat idx) ` set (delivered rs) \<and>
    card (received t) = card (received s) + length (delivered rs)"
  using assms
proof (induction ops arbitrary: s)
  case (Cons op ops)
  obtain dg clock rr_buf where op: "op = (dg, clock, rr_buf)" by (cases op) auto
  then have len: "length rr_buf = 64" using Cons.prems(2) by simp
  obtain r t where t: "puller_step cb env n (dg, clock, rr_buf) s = Some (r, t)" "counted t" "s_chunk_count t = s_chunk_count s"
    "received t = received s \<union> (\<lambda>(pt, idx). unat idx) ` set (delivered [r])"
    "card (received t) = card (received s) + length (delivered [r])"
    by (rule puller_step_counts [OF Cons.prems(1) len])
  obtain rs u where u: "pull_run cb env n ops t = Some (rs, u)" "counted u" "s_chunk_count u = s_chunk_count t"
    "received u = received t \<union> (\<lambda>(pt, idx). unat idx) ` set (delivered rs)"
    "card (received u) = card (received t) + length (delivered rs)"
    using Cons.IH [OF t(2)] Cons.prems(2) by auto
  have d: "delivered (r # rs) = delivered [r] @ delivered rs" using delivered_append [of "[r]" rs] by simp
  have "pull_run cb env n (op # ops) s = Some (r # rs, u)" using op t(1) u(1) by simp
  then show ?case using t(3-5) u(2-5) by (intro exI [of _ "r # rs"] exI [of _ u]) (simp add: d image_Un Un_assoc)
qed simp

subsection \<open>The quotient\<close>

lemma flt_of_u32_small:
  assumes "unat w \<le> 256"
  shows "flt_of_u32 w = Fin (of_nat (unat w))"
proof -
  have "representable f32 (of_int (int (unat w)))" by (rule f32_int) (use assms in linarith)
  then have "representable f32 (of_nat (unat w))" by (simp only: of_int_of_nat_eq)
  moreover have "\<bar>of_nat (unat w)\<bar> \<le> (1000000000000 :: rat)"
    using of_nat_mono [OF assms, where ?'a = rat] of_nat_0_le_iff [of "unat w", where ?'a = rat] by linarith
  ultimately show ?thesis
    unfolding flt_of_u32_def flt_of_nat_def by (rule f32_exact)
qed

lemma progress_quotient:
  assumes "k \<le> m" and "0 < m" and "m \<le> 256"
  shows "f_lt (to_flt f32 (of_nat k / of_nat m)) (Fin 1) \<longleftrightarrow> k < m"
proof (cases "k = m")
  case True
  have "to_flt f32 1 = Fin 1" using f32_int [of 1] by (intro f32_exact) simp_all
  then show ?thesis using True assms(2) by simp
next
  case False
  then have "k + 1 \<le> m" using assms(1) by simp
  then have "of_nat k + 1 \<le> (of_nat m :: rat)" by (metis of_nat_1 of_nat_add of_nat_le_iff)
  moreover have "(0 :: rat) < of_nat m" "of_nat m \<le> (256 :: rat)"
    using assms(2,3) by (simp, metis of_nat_le_iff of_nat_numeral)
  ultimately have "of_nat k / of_nat m \<le> (255 / 256 :: rat)" by (simp add: field_simps)
  moreover have "representable f32 (255 / 256)" by (rule f32_rep [of _ 255 "-8"]) (simp_all add: power_int_def power_divide)
  moreover have "representable f32 0" using f32_int [of 0] by simp
  ultimately obtain y where "to_flt f32 (of_nat k / of_nat m) = Fin y" "y \<le> 255 / 256"
    by (elim f32_between [of 0 "255 / 256" "of_nat k / of_nat m"]) simp_all
  then show ?thesis using False assms(1) by simp
qed

lemma progress_counted:
  assumes "counted s" and "s_chunk_count s \<noteq> 0"
  shows "rgtp_progress (Some s) = to_flt f32 (of_nat (card (received s)) / of_nat (unat (s_chunk_count s)))"
    and "f_lt (rgtp_progress (Some s)) (Fin 1) \<longleftrightarrow> card (received s) < unat (s_chunk_count s)"
proof -
  have "card (received s) \<le> card {..<unat (s_chunk_count s)}" by (rule card_mono) (auto simp: received_def)
  then have k: "card (received s) \<le> unat (s_chunk_count s)" by simp
  have m: "unat (s_chunk_count s) \<le> 256" "0 < unat (s_chunk_count s)" "\<not> s_is_exposer s" "unat (s_chunks_received s) = card (received s)"
    using assms by (simp_all add: counted_def small_puller_def puller_inv_def word_le_nat_alt unat_gt_0)
  then show eq: "rgtp_progress (Some s) = to_flt f32 (of_nat (card (received s)) / of_nat (unat (s_chunk_count s)))"
    using assms(2) k of_nat_eq_0_iff [of "unat (s_chunk_count s)", where ?'a = rat] flt_of_u32_small [of "s_chunks_received s"] flt_of_u32_small [of "s_chunk_count s"]
    by (simp add: rgtp_progress_def)
  show "f_lt (rgtp_progress (Some s)) (Fin 1) \<longleftrightarrow> card (received s) < unat (s_chunk_count s)"
    unfolding eq by (rule progress_quotient [OF k m(2,1)])
qed

lemma accept_manifest_counted:
  assumes "accept_manifest env eid cfg dg = ok s" and "length eid = 16" and "initial_window cfg \<le> 65536"
    and "s_chunk_count s \<le> 256"
  shows "counted (s\<lparr>s_key := k\<rparr>)" and "received (s\<lparr>s_key := k\<rparr>) = {}" and "s_chunk_count s \<noteq> 0"
proof -
  obtain m s0 where "rgtp_parse_packet (Some (take 256 dg)) (- 1) True = ok (Manifest m)" and a: "mf_chunk_count m \<noteq> 0"
      "rgtp_surface_alloc_puller env cfg (mf_chunk_count m) (mf_chunk_size m) (mf_total_size m) = Some s0"
    and s: "s = s0\<lparr>s_exposure_id := eid, s_merkle_root := mf_merkle_root m,
       s_fec_enabled := (mf_fec_n m > 0 \<and> mf_fec_k m > 0), s_fec_n := mf_fec_n m, s_fec_k := mf_fec_k m,
       s_state := RGTP_SURFACE_ACTIVE\<rparr>"
    by (rule accept_manifest_parts [OF assms(1)])
  have m: "s_recv_bitmap s = s_recv_bitmap s0" "s_chunks_received s = s_chunks_received s0" "s_chunk_count s = s_chunk_count s0"
    using s by simp_all
  have s0: "s_chunks_received s0 = 0" "s_recv_bitmap s0 = Some (replicate (unat ((mf_chunk_count m + 7) div 8)) 0)"
      "s_chunk_count s0 = mf_chunk_count m"
    using a(2) by (auto simp: rgtp_surface_alloc_puller_def surface_alloc_def init_surface_def zero_surface_def Let_def split: if_splits)
  show "s_chunk_count s \<noteq> 0" using a(1) m(3) s0(3) by simp
  note small = accept_manifest_puller [OF assms]
  obtain bm where bm: "s_recv_bitmap s = Some bm" "unat (s_chunk_count s) \<le> 8 * length bm"
    using small(1) by (auto simp: small_puller_def puller_inv_def)
  have "\<not> bit (bm ! (i div 8)) (i mod 8)" if "i < unat (s_chunk_count s)" for i
  proof -
    have "i div 8 < length bm" using that bm(2) by (simp add: less_mult_imp_div_less mult.commute)
    then show ?thesis using bm(1) s0(2) m(1) by (metis bit_0_eq bot_apply bot_bool_def length_replicate nth_replicate option.inject)
  qed
  then show empty: "received (s\<lparr>s_key := k\<rparr>) = {}" using bm(1) by (auto simp: received_def)
  show "counted (s\<lparr>s_key := k\<rparr>)" unfolding counted_def empty using small(1) s0(1) m(2) by simp
qed

subsection \<open>Properties\<close>

text \<open>C4: progress of a pull.  A puller that started from any manifest of at most 256
  chunks, whatever key it is given and whatever datagrams arrive, has counted exactly the
  chunks that it handed out: its progress is their number divided by the chunk count,
  rounded to single precision, and it is below 1 exactly as long as some index has not
  been handed out.\<close>

theorem progress_counts:
  assumes "rgtp_pull_start env sock server (Some eid) cfg out rbuf sent_ok dg = (ok p, reqs)"
    and "length eid = 16" and "initial_window cfg \<le> 65536" and "s_chunk_count p \<le> 256"
    and "\<forall>(dgram, clock, rr_buf) \<in> set ops. length rr_buf = 64"
  shows "\<exists>rs t. pull_run cb env' n ops (p\<lparr>s_key := key\<rparr>) = Some (rs, t) \<and>
    unat (s_chunks_received t) = length (delivered rs) \<and>
    rgtp_progress (Some t) = to_flt f32 (of_nat (length (delivered rs)) / of_nat (unat (s_chunk_count p))) \<and>
    (f_lt (rgtp_progress (Some t)) (Fin 1) \<longleftrightarrow> (\<exists>i < unat (s_chunk_count p). \<forall>(pt, idx) \<in> set (delivered rs). unat idx \<noteq> i))"
proof -
  obtain b where "accept_manifest env eid cfg b = ok p"
    using assms(1) by (auto simp: rgtp_pull_start_def split: if_splits option.splits sum.splits)
  note start = accept_manifest_counted [OF this assms(2-4)]
  obtain rs t where t: "pull_run cb env' n ops (p\<lparr>s_key := key\<rparr>) = Some (rs, t)" "counted t" "s_chunk_count t = s_chunk_count p"
      "received t = (\<lambda>(pt, idx). unat idx) ` set (delivered rs)" "card (received t) = length (delivered rs)"
    using pull_run_counts [OF start(1) [of key] assms(5), of cb env' n] start(2) [of key] by auto
  have n: "s_chunk_count t \<noteq> 0" using t(3) start(3) by simp
  have sub: "received t \<subseteq> {..<unat (s_chunk_count p)}" using t(3) by (auto simp: received_def)
  then have "card (received t) < unat (s_chunk_count p) \<longleftrightarrow> received t \<noteq> {..<unat (s_chunk_count p)}"
    by (metis card_lessThan card_subset_eq finite_lessThan le_neq_implies_less less_irrefl card_mono)
  also have "\<dots> \<longleftrightarrow> (\<exists>i < unat (s_chunk_count p). i \<notin> received t)" using sub by auto
  also have "\<dots> \<longleftrightarrow> (\<exists>i < unat (s_chunk_count p). \<forall>(pt, idx) \<in> set (delivered rs). unat idx \<noteq> i)"
    unfolding t(4) by force
  finally show ?thesis using t progress_counted [OF t(2) n] by (auto simp: counted_def)
qed

theorem progress_counts_witness:
  "\<exists>s p reqs rs t. rgtp_pull_start demo_env True True (Some (s_exposure_id s)) None True (replicate 64 0) True
      (Some (packet_bytes (manifest_packet s))) = (ok p, reqs) \<and> s_chunk_count p = 3 \<and>
    pull_run demo_backend demo_env 2
      [([7, 7], (0, 1, 2), replicate 64 0), (packet_bytes (packet_of s True 1), (0, 1, 2), replicate 64 0)] (p\<lparr>s_key := s_key s\<rparr>) = Some (rs, t) \<and>
    unat (s_chunks_received t) = length (delivered rs)"
proof -
  let ?ops = "\<lambda>s. [([7, 7], (0, 1, 2), replicate 64 0), (packet_bytes (packet_of s True 1), (0, 1, 2), replicate 64 0)]"
  obtain s cts p where d: "rgtp_pull_start demo_env True True (Some (s_exposure_id s)) None True (replicate 64 0) True
      (Some (packet_bytes (manifest_packet s))) = (ok p, [packet_bytes (pull_request_packet (s_exposure_id s) None)])"
      "s_chunk_count p = 3" "length (s_exposure_id s) = 16"
    by (rule demo_pull) blast
  have "\<forall>(dgram, clock, rr_buf) \<in> set (?ops s). length rr_buf = 64" by simp
  from progress_counts [OF d(1,3) _ _ this, of demo_backend demo_env 2 "s_key s"] d(2)
  obtain rs t where "pull_run demo_backend demo_env 2 (?ops s) (p\<lparr>s_key := s_key s\<rparr>) = Some (rs, t)"
      "unat (s_chunks_received t) = length (delivered rs)"
    by (auto simp: initial_window_def simp del: pull_run.simps)
  with d(1,2) show ?thesis by blast
qed

end
