(* ===== verification/Rgtp_Adapter.thy ===== *)
theory Rgtp_Adapter
  imports Rgtp_Progress
begin

text \<open>
  What the three adapters under \<^verbatim>\<open>src/middleware/\<close> share: the
  loop that pulls until the progress is 1, joins the chunks and stops on a timeout.  With
  the key of the exposure it returns the chunks in the order of their arrival; with the
  key that the adapters have, 32 zeros, whatever it returns was opened under the zeros, and a
  first chunk that does not open under them ends it with an error.
\<close>

subsection \<open>The loop\<close>

text \<open>Each reception has its memory, the datagram, the clock and the contents of the
  report buffer; after the last one the socket times out.\<close>

type_synonym reception = "mem_env \<times> bytes option \<times> (u64 \<times> u64 \<times> u64) \<times> bytes"

fun pull_all :: "crypto_backend \<Rightarrow> nat \<Rightarrow> reception list \<Rightarrow> rgtp_surface \<Rightarrow> bytes \<Rightarrow> ((rgtp_error + bytes) \<times> rgtp_surface) option" where
  "pull_all cb cap [] s full_buf = Some (Inr full_buf, s)"
| "pull_all cb cap ((env, dg, clock, rr_buf) # ops) s full_buf =
    (if \<not> f_lt (rgtp_progress (Some s)) (Fin 1) then Some (Inr full_buf, s)
     else (case rgtp_pull_next cb env (Some s) True 65536 True dg clock rr_buf of
         Some (Inl e, Some t, sent) \<Rightarrow> if e = RGTP_ERR_TIMEOUT then Some (Inr full_buf, t) else Some (Inl e, t)
       | Some (Inr (chunk, idx), Some t, sent) \<Rightarrow>
           if length full_buf + length chunk > cap then Some (Inl RGTP_ERR_INVALID_ARG, t)
           else pull_all cb cap ops t (full_buf @ chunk)
       | _ \<Rightarrow> None))"

subsection \<open>Arrival order\<close>

text \<open>A puller that has handed out exactly what its replay window has seen.\<close>

definition clean_puller :: "rgtp_surface \<Rightarrow> bool" where
  "clean_puller p \<longleftrightarrow> counted p \<and> received p = seen p"

lemma pull_all_step:
  assumes "pull_ready cb env 65536 s pts cts p" and "clean_puller p" and "i < unat (s_chunk_count s)" and "i \<notin> seen p"
    and "length rr_buf = 64"
  obtains t where "pull_ready cb env 65536 s pts cts t" "clean_puller t" "seen t = insert i (seen p)"
    "\<forall>cap ops acc. length acc + length (pts ! i) \<le> cap \<longrightarrow>
      pull_all cb cap ((env, Some (packet_bytes (packet_of s want i)), clock, rr_buf) # ops) p acc = pull_all cb cap ops t (acc @ pts ! i)"
proof -
  let ?dg = "packet_bytes (packet_of s want i)"
  obtain r t where t: "genuine_step cb env 65536 s want (i, clock, rr_buf) p = Some (r, t)" "pull_ready cb env 65536 s pts cts t"
      "spec_pull pts (i, clock, rr_buf) (seen p) = (r, seen t)"
    using genuine_refines [OF assms(1,3,5)] by blast
  have r: "r = Inr (pts ! i, word_of_nat i)" "seen t = insert i (seen p)"
    using t(3) assms(4) by (simp_all add: spec_pull_def)
  have p: "counted p" "received p = seen p" using assms(2) by (simp_all add: clean_puller_def)
  have step: "puller_step cb env 65536 (?dg, clock, rr_buf) p = Some (r, t)" using t(1) by (simp add: genuine_step_def)
  have i: "unat (word_of_nat i :: u32) = i"
    using assms(3) unat_u32_bound [of "s_chunk_count s"] by (intro word_of_nat_unat_32) simp
  obtain r' t' where st: "puller_step cb env 65536 (?dg, clock, rr_buf) p = Some (r', t')" "counted t'"
      "received t' = received p \<union> (\<lambda>(pt, idx). unat idx) ` set (delivered [r'])"
    by (rule puller_step_counts [OF p(1) assms(5)])
  moreover have "r' = Inr (pts ! i, word_of_nat i)" "t' = t" using st step r(1) by simp_all
  ultimately have c: "counted t" "received t = insert i (received p)" 
    by (simp_all only: delivered.simps list.set image_insert image_empty prod.case i Un_insert_right Un_empty_right)
  have count: "s_chunk_count p = s_chunk_count s" using assms(1) by (simp add: pull_ready_def same_identity_def)
  have "received p \<subset> {..<unat (s_chunk_count s)}" using assms(3,4) p(2) count by (auto simp: received_def)
  then have "card (received p) < card {..<unat (s_chunk_count s)}" by (rule psubset_card_mono [OF finite_lessThan])
  then have "card (received p) < unat (s_chunk_count p)" using count by simp
  moreover have "s_chunk_count p \<noteq> 0" using assms(3) count by auto
  ultimately have pr: "f_lt (rgtp_progress (Some p)) (Fin 1)" using progress_counted(2) [OF p(1)] by simp
  obtain sent where "rgtp_pull_next cb env (Some p) True 65536 True (Some ?dg) clock rr_buf = Some (r, Some t, sent)"
    using step by (auto simp: puller_step_def split: option.splits)
  then have "\<forall>cap ops acc. length acc + length (pts ! i) \<le> cap \<longrightarrow>
      pull_all cb cap ((env, Some ?dg, clock, rr_buf) # ops) p acc = pull_all cb cap ops t (acc @ pts ! i)"
    using pr unfolding r(1) by (simp only: pull_all.simps) simp
  moreover have "clean_puller t" using c p(2) r(2) by (simp add: clean_puller_def)
  ultimately show thesis using that t(2) r(2) by blast
qed

lemma pull_all_arrival:
  assumes "pull_ready cb env 65536 s pts cts p" and "clean_puller p"
    and "\<forall>(i, clock, rr_buf) \<in> set ops. i < unat (s_chunk_count s) \<and> i \<notin> seen p \<and> length rr_buf = 64"
    and "distinct (map fst ops)" and "length acc + length (concat (map (\<lambda>op. pts ! fst op) ops)) \<le> cap"
  obtains t where "pull_ready cb env 65536 s pts cts t" "clean_puller t" "seen t = fst ` set ops \<union> seen p"
    "\<forall>rest. pull_all cb cap (map (\<lambda>(i, clock, rr_buf). (env, Some (packet_bytes (packet_of s want i)), clock, rr_buf)) ops @ rest) p acc =
      pull_all cb cap rest t (acc @ concat (map (\<lambda>op. pts ! fst op) ops))"
  using assms
proof (induction ops arbitrary: p acc thesis)
  case (Cons op ops)
  obtain i clock rr_buf where op: "op = (i, clock, rr_buf)" by (cases op) auto
  have i: "i < unat (s_chunk_count s)" "i \<notin> seen p" "length rr_buf = 64" using Cons.prems(4) op by simp_all
  obtain t where t: "pull_ready cb env 65536 s pts cts t" "clean_puller t" "seen t = insert i (seen p)"
    and step: "\<forall>cap ops acc. length acc + length (pts ! i) \<le> cap \<longrightarrow>
      pull_all cb cap ((env, Some (packet_bytes (packet_of s want i)), clock, rr_buf) # ops) p acc = pull_all cb cap ops t (acc @ pts ! i)"
    by (rule pull_all_step [OF Cons.prems(2,3) i, where want = want and clock = clock])
  have fresh: "\<forall>(i, clock, rr_buf) \<in> set ops. i < unat (s_chunk_count s) \<and> i \<notin> seen t \<and> length rr_buf = 64"
    using Cons.prems(4,5) op t(3) by (auto simp: image_iff case_prod_unfold)
  obtain u where u: "pull_ready cb env 65536 s pts cts u" "clean_puller u" "seen u = fst ` set ops \<union> seen t"
    "\<forall>rest. pull_all cb cap (map (\<lambda>(i, clock, rr_buf). (env, Some (packet_bytes (packet_of s want i)), clock, rr_buf)) ops @ rest) t (acc @ pts ! i) =
      pull_all cb cap rest u ((acc @ pts ! i) @ concat (map (\<lambda>op. pts ! fst op) ops))"
    by (rule Cons.IH [OF _ t(1,2) fresh, of "acc @ pts ! i"]) (use Cons.prems(5,6) op in \<open>simp_all del: pull_all.simps\<close>)
  show ?case
  proof (rule Cons.prems(1) [OF u(1,2)])
    show "seen u = fst ` set (op # ops) \<union> seen p" using u(3) t(3) op by auto
    have "length acc + length (pts ! i) \<le> cap" using Cons.prems(6) op by simp
    then show "\<forall>rest. pull_all cb cap (map (\<lambda>(i, clock, rr_buf). (env, Some (packet_bytes (packet_of s want i)), clock, rr_buf)) (op # ops) @ rest) p acc =
        pull_all cb cap rest u (acc @ concat (map (\<lambda>op. pts ! fst op) (op # ops)))"
      using step u(4) op by (simp del: pull_all.simps)
  qed
qed simp

lemma clean_complete:
  assumes "clean_puller t" and "seen t = {..<unat (s_chunk_count t)}" and "s_chunk_count t \<noteq> 0"
  shows "pull_all cb cap rest t acc = Some (Inr acc, t)"
proof -
  have "\<not> f_lt (rgtp_progress (Some t)) (Fin 1)"
    using progress_counted(2) [of t] assms by (simp add: clean_puller_def)
  then show ?thesis by (cases "(cb, cap, rest, t, acc)" rule: pull_all.cases) auto
qed

lemma pull_start_accepts:
  assumes "fst (rgtp_pull_start env sock server (Some eid) cfg out buf send_ok manifest) = ok p"
  obtains b where "accept_manifest env eid cfg b = ok p"
  using assms by (auto simp: rgtp_pull_start_def split: if_splits option.splits sum.splits)

lemma pull_start_clean:
  assumes "exposed cb s pts cts" and "s_chunk_count s \<noteq> 0" and "s_chunk_count s \<le> 256" and "s_chunk_size s \<noteq> 0"
    and "plenty env" and "pullable cfg" and "length buf = 64" and "aead_lawful cb" and "fits pts" and "plenty cenv"
  obtains p reqs where "rgtp_pull_start env True True (Some (s_exposure_id s)) cfg True buf True (Some (packet_bytes (manifest_packet s))) = (ok p, reqs)"
    "clean_puller (p\<lparr>s_key := s_key s\<rparr>)" "seen (p\<lparr>s_key := s_key s\<rparr>) = {}" "pull_ready cb cenv 65536 s pts cts (p\<lparr>s_key := s_key s\<rparr>)"
proof -
  obtain p where p: "rgtp_pull_start env True True (Some (s_exposure_id s)) cfg True buf True (Some (packet_bytes (manifest_packet s))) =
      (ok p, [packet_bytes (pull_request_packet (s_exposure_id s) cfg)])"
      "small_puller p" "seen p = {}" "same_identity (s\<lparr>s_key := s_key p\<rparr>) p"
    by (rule pull_start_exposed [OF assms(1-7)])
  obtain b where acc: "accept_manifest env (s_exposure_id s) cfg b = ok p"
    using pull_start_accepts p(1) by (metis fst_conv)
  have facts: "length (s_exposure_id s) = 16" "initial_window cfg \<le> 65536" "s_chunk_count p \<le> 256"
    using assms(1,3,6) p(4) by (simp_all add: exposed_def pullable_def same_identity_def)
  show thesis
  proof (rule that [OF p(1)])
    show "clean_puller (p\<lparr>s_key := s_key s\<rparr>)"
      using accept_manifest_counted(1,2) [OF acc facts, where k = "s_key s"] p(3) by (simp add: clean_puller_def)
    show "pull_ready cb cenv 65536 s pts cts (p\<lparr>s_key := s_key s\<rparr>)"
      using assms(1,8-10) p(2,4) by (force simp: pull_ready_def same_identity_def fits_def)
  qed (use p(3) in simp)
qed

lemma length_concat_mset: "mset xs = mset ys \<Longrightarrow> length (concat xs) = length (concat ys)"
  by (metis length_concat mset_map sum_mset_sum_list)

lemma map_nth_mset: "image_mset ((!) xs) (mset_set {0..<length xs}) = mset xs"
  by (metis map_nth mset_map mset_upt)

subsection \<open>The wrong key\<close>

lemma destroy_defined: "arrays_ok s \<Longrightarrow> \<exists>acts. rgtp_destroy_surface env (Some s) = Some acts"
  by (auto simp: rgtp_destroy_surface_def arrays_ok_def release_array_def Let_def split: option.splits)

text \<open>A puller starts with a key of zeros and arrays of its chunk count.\<close>

lemma accept_manifest_key:
  assumes "accept_manifest env eid cfg dg = ok s"
  shows "s_key s = replicate 32 0" and "arrays_ok s"
proof -
  obtain m s0 where "rgtp_parse_packet (Some (take 256 dg)) (- 1) True = ok (Manifest m)" "mf_chunk_count m \<noteq> 0"
    and s0: "rgtp_surface_alloc_puller env cfg (mf_chunk_count m) (mf_chunk_size m) (mf_total_size m) = Some s0"
    and s: "s = s0\<lparr>s_exposure_id := eid, s_merkle_root := mf_merkle_root m,
       s_fec_enabled := (mf_fec_n m > 0 \<and> mf_fec_k m > 0), s_fec_n := mf_fec_n m, s_fec_k := mf_fec_k m,
       s_state := RGTP_SURFACE_ACTIVE\<rparr>"
    by (rule accept_manifest_parts [OF assms])
  show "s_key s = replicate 32 0" "arrays_ok s"
    using s0 unfolding s
    by (auto simp: rgtp_surface_alloc_puller_def surface_alloc_def init_surface_def zero_surface_def arrays_ok_def Let_def split: if_splits)
qed

text \<open>Whether a stored chunk opens under a key.\<close>

definition chunk_opens :: "crypto_backend \<Rightarrow> bytes \<Rightarrow> rgtp_surface \<Rightarrow> nat \<Rightarrow> bool" where
  "chunk_opens cb key s i =
    (case s_chunks s of
       None \<Rightarrow> False
     | Some chunks \<Rightarrow>
         (case chunks ! i of
            None \<Rightarrow> False
          | Some ct \<Rightarrow>
              (case aead_open cb key (rgtp_build_nonce (word_of_nat i)) ct of AeadOk pt \<Rightarrow> True | _ \<Rightarrow> False)))"

lemma chunk_opens_exposed:
  assumes "exposed cb s pts cts" and "i < unat (s_chunk_count s)"
  shows "chunk_opens cb key s i \<longleftrightarrow> (\<exists>pt. aead_open cb key (rgtp_build_nonce (word_of_nat i)) (cts ! i) = AeadOk pt)"
  using assms by (simp add: chunk_opens_def exposed_def split: aead_result.splits)

lemma chunk_opens_own_key:
  assumes "exposed cb s pts cts" and "i < unat (s_chunk_count s)" and "aead_lawful cb"
  shows "chunk_opens cb (s_key s) s i"
proof -
  have "length (s_key s) = RGTP_AEAD_KEY_BYTES"
    "rgtp_encrypt_chunk cb (Some (s_key s)) (word_of_nat i) (Some (pts ! i)) True = ok (cts ! i)"
    using assms(1,2) by (simp_all add: exposed_def)
  then have "rgtp_decrypt_chunk cb (Some (s_key s)) (word_of_nat i) (Some (cts ! i)) True = ok (pts ! i)"
    using encrypt_decrypt(2) [OF assms(3)] by blast
  then show ?thesis
    unfolding chunk_opens_exposed [OF assms(1,2)] by (auto simp: rgtp_decrypt_chunk_def split: if_splits aead_result.splits)
qed

lemma decrypt_fails:
  assumes "\<nexists>pt. aead_open cb k (rgtp_build_nonce idx) c = AeadOk pt"
  shows "\<exists>e. rgtp_decrypt_chunk cb (Some k) idx (Some c) True = err e"
  using assms by (auto simp: rgtp_decrypt_chunk_def split: aead_result.splits)

lemma open_wrong_key:
  assumes "exposed cb s pts cts" and "aead_lawful cb" and "fits pts" and "i < unat (s_chunk_count s)" and "plenty env"
    and "\<not> chunk_opens cb (s_key p) s i"
  obtains payload ct_len pf depth where
    "chunk_fields (packet_of s want i) = Some (s_exposure_id s, word_of_nat i, payload, ct_len, pf, depth)"
    "open_chunk cb env p (word_of_nat i) payload ct_len pf depth n = err RGTP_ERR_AUTH_FAIL"
proof -
  obtain ct where ct: "ct = cts ! i" "length ct = length (pts ! i) + 16"
    and pkt: "packet_of s want i = ChunkData \<lparr>cd_exposure_id = s_exposure_id s, cd_chunk_index = word_of_nat i,
       cd_payload = Some ct, cd_payload_len = word_of_nat (length ct)\<rparr> \<or>
     (\<exists>q. packet_of s want i = ChunkWithProof \<lparr>cp_exposure_id = s_exposure_id s, cp_chunk_index = word_of_nat i,
       cp_proof_depth = ucast (s_proof_depth s), cp_proof = Some q, cp_payload = Some ct, cp_payload_len = word_of_nat (length ct)\<rparr>)"
    using exposed_packet [OF assms(1-4), of want] by metis
  have i: "pts ! i \<in> set pts" "rgtp_encrypt_chunk cb (Some (s_key s)) (word_of_nat i) (Some (pts ! i)) True = ok ct"
    using assms(1,4) ct(1) by (auto simp: exposed_def)
  then have "length (pts ! i) \<le> 64000" using assms(3) by (auto simp: fits_def)
  then have len: "unat (word_of_nat (length ct) :: u16) = length ct" using ct(2) by (intro word_of_nat_unat_16) simp
  obtain e where e: "rgtp_decrypt_chunk cb (Some (s_key p)) (word_of_nat i) (Some ct) True = err e"
    using decrypt_fails assms(6) unfolding chunk_opens_exposed [OF assms(1,4)] ct(1) by blast
  have get: "mem_get ct 0 (length ct) = Some ct" by (simp add: mem_get_def)
  have opened: "open_chunk cb env p (word_of_nat i) (Some ct) (word_of_nat (length ct)) pf d n = err RGTP_ERR_AUTH_FAIL" for pf d
    using assms(5) e len get ct(2) by (auto simp: open_chunk_def RGTP_AEAD_TAG_BYTES_def)
  from pkt show thesis by (elim disjE exE) (auto intro: that opened)
qed

text \<open>A chunk that does not open under this key ends the loop when it is the first to
  arrive.\<close>

lemma pull_all_wrong_key:
  assumes "exposed cb s pts cts" and "aead_lawful cb" and "fits pts" and "s_chunk_count s \<le> 256" and "s_chunk_size s \<noteq> 0"
    and "i < unat (s_chunk_count s)" and "plenty penv" and "plenty env" and "pullable pcfg" and "length rbuf = 64"
    and "\<not> chunk_opens cb (replicate 32 0) s i"
  obtains p reqs t acts where
    "rgtp_pull_start penv True True (Some (s_exposure_id s)) pcfg True rbuf True (Some (packet_bytes (manifest_packet s))) = (ok p, reqs)"
    "\<forall>cap. pull_all cb cap ((env, Some (packet_bytes (packet_of s want i)), clock, rr_buf) # ops) p [] = Some (Inl RGTP_ERR_AUTH_FAIL, t)"
    "rgtp_destroy_surface penv (Some t) = Some acts"
proof -
  let ?pkt = "packet_of s want i"
  have n0: "s_chunk_count s \<noteq> 0" using assms(6) by auto
  obtain p where start: "rgtp_pull_start penv True True (Some (s_exposure_id s)) pcfg True rbuf True (Some (packet_bytes (manifest_packet s))) =
      (ok p, [packet_bytes (pull_request_packet (s_exposure_id s) pcfg)])"
    and p: "small_puller p" "seen p = {}" "same_identity (s\<lparr>s_key := s_key p\<rparr>) p"
    by (rule pull_start_exposed [OF assms(1) n0 assms(4,5,7,9,10)])
  have id: "s_exposure_id p = s_exposure_id s" "s_chunk_count p = s_chunk_count s" using p(3) by (simp_all add: same_identity_def)
  obtain b where acc: "accept_manifest penv (s_exposure_id s) pcfg b = ok p"
    using pull_start_accepts start by (metis fst_conv)
  note key = accept_manifest_key [OF acc]
  have "length (s_exposure_id s) = 16" "initial_window pcfg \<le> 65536"
    using assms(1,9) by (simp_all add: exposed_def pullable_def)
  then have counted: "counted (p\<lparr>s_key := s_key p\<rparr>)" "received (p\<lparr>s_key := s_key p\<rparr>) = {}"
    using accept_manifest_counted(1,2) [OF acc, where k = "s_key p"] assms(4) id(2) by simp_all
  have pr: "f_lt (rgtp_progress (Some p)) (Fin 1)"
    using progress_counted(2) [of p] counted n0 id by (simp add: unat_gt_0)
  obtain payload ct_len pf depth where f: "chunk_fields ?pkt = Some (s_exposure_id s, word_of_nat i, payload, ct_len, pf, depth)"
      "open_chunk cb env p (word_of_nat i) payload ct_len pf depth 65536 = err RGTP_ERR_AUTH_FAIL"
    by (rule open_wrong_key [OF assms(1-3,6,8), of p]) (use assms(11) key(1) in simp)
  note wf = packet_of_wf [OF assms(1-3,6), of want]
  have pull: "rgtp_pull_next cb env (Some p) True 65536 True (Some (packet_bytes ?pkt)) clock rr_buf =
      receive_chunk cb env p (word_of_nat i) payload ct_len pf depth 65536 clock rr_buf"
    using pull_next_chunk [OF p(1) wf(1) _ wf(3)] wf(2) f(1) id by simp
  have inv: "replay_inv (s_replay p)" "base (s_replay p) = 0" using p(1) by (simp_all add: small_puller_def puller_inv_def)
  have "(word_of_nat i :: u32) < WINDOW_BITS"
    using chunk_fields_wf(2) [OF wf(1,2) f(1)] assms(4) by (simp add: WINDOW_BITS_def)
  then obtain w where w: "rgtp_replay_check_and_set (s_replay p) (word_of_nat i) = Some (RGTP_REPLAY_ACCEPT, w)"
    using check_refines_set [OF inv] p(2) by (metis empty_iff)
  let ?t = "p\<lparr>s_replay := w, s_auth_failures := s_auth_failures p + 1\<rparr>"
  have "pull_all cb cap ((env, Some (packet_bytes ?pkt), clock, rr_buf) # ops) p [] = Some (Inl RGTP_ERR_AUTH_FAIL, ?t)" for cap
    using pr pull w f(2) by (simp add: receive_chunk_def Let_def)
  moreover have "arrays_ok ?t" using key(2) by (simp add: arrays_ok_def parity_count_def cong: if_cong)
  then obtain acts where "rgtp_destroy_surface penv (Some ?t) = Some acts" using destroy_defined by blast
  ultimately show thesis using that [OF start] by blast
qed

subsection \<open>Whatever is received was opened under the key of the puller\<close>

lemma open_chunk_opened:
  assumes "open_chunk cb env s idx payload ct_len pf depth n = ok pt"
  obtains ct where "aead_open cb (s_key s) (rgtp_build_nonce idx) ct = AeadOk pt"
  using assms
  by (auto simp: open_chunk_def rgtp_decrypt_chunk_def split: if_splits bind_splits sum.splits option.splits aead_result.splits)

lemma bookkeeping_key:
  shows "mark_received s idx n = Some t \<Longrightarrow> s_key t = s_key s"
    and "record_rtt s t0 t1 = Some t \<Longrightarrow> s_key t = s_key s"
  by (auto simp: mark_received_def record_rtt_def Let_def split: if_splits bind_splits)

lemma pull_next_opened:
  assumes "rgtp_pull_next cb env (Some s) buffer n out dg clock rr_buf = Some (Inr (pt, idx), Some t, sent)"
  shows "s_key t = s_key s" and "\<exists>ct. aead_open cb (s_key s) (rgtp_build_nonce idx) ct = AeadOk pt"
proof -
  obtain j payload ct_len pf depth where "receive_chunk cb env s j payload ct_len pf depth n clock rr_buf = Some (Inr (pt, idx), Some t, sent)"
    using assms by (auto simp: rgtp_pull_next_def split: if_splits option.splits bind_splits sum.splits prod.splits)
  then obtain w s1 where o: "open_chunk cb env (s\<lparr>s_replay := w\<rparr>) idx payload ct_len pf depth n = ok pt"
      "mark_received (s\<lparr>s_replay := w\<rparr>) idx (length pt) = Some s1" "record_rtt s1 (fst clock) (fst (snd clock)) = Some t"
    by (auto simp: receive_chunk_def Let_def split: if_splits bind_splits sum.splits prod.splits)
  show "s_key t = s_key s" using bookkeeping_key(1) [OF o(2)] bookkeeping_key(2) [OF o(3)] by simp
  show "\<exists>ct. aead_open cb (s_key s) (rgtp_build_nonce idx) ct = AeadOk pt" using open_chunk_opened [OF o(1)] by auto
qed

definition opened_under :: "crypto_backend \<Rightarrow> bytes \<Rightarrow> bytes \<Rightarrow> bool" where
  "opened_under cb key d \<longleftrightarrow> (\<exists>pts. d = concat pts \<and>
     (\<forall>pt \<in> set pts. \<exists>j ct. aead_open cb key (rgtp_build_nonce j) ct = AeadOk pt))"

lemma opened_under_append:
  assumes "opened_under cb key d" and "aead_open cb key (rgtp_build_nonce j) ct = AeadOk pt"
  shows "opened_under cb key (d @ pt)"
proof -
  obtain pts where "d = concat pts" "\<forall>pt \<in> set pts. \<exists>j ct. aead_open cb key (rgtp_build_nonce j) ct = AeadOk pt"
    using assms(1) by (auto simp: opened_under_def)
  then show ?thesis unfolding opened_under_def using assms(2) by (intro exI [of _ "pts @ [pt]"]) auto
qed

lemma pull_all_opened:
  assumes "pull_all cb cap ops s acc = Some (Inr d, t)" and "opened_under cb (s_key s) acc"
  shows "opened_under cb (s_key s) d"
  using assms
proof (induction ops arbitrary: s acc)
  case (Cons op ops)
  obtain env dg clock rr_buf where op: "op = (env, dg, clock, rr_buf)" by (cases op) auto
  let ?next = "rgtp_pull_next cb env (Some s) True 65536 True dg clock rr_buf"
  consider "d = acc"
    | pt idx u sent where "?next = Some (Inr (pt, idx), Some u, sent)" "pull_all cb cap ops u (acc @ pt) = Some (Inr d, t)"
    using Cons.prems(1) unfolding op by (auto split: if_splits option.splits sum.splits prod.splits)
  then show ?case
  proof cases
    case 2
    obtain ct where "aead_open cb (s_key s) (rgtp_build_nonce idx) ct = AeadOk pt" using pull_next_opened(2) [OF 2(1)] by blast
    then have "opened_under cb (s_key u) (acc @ pt)"
      unfolding pull_next_opened(1) [OF 2(1)] by (rule opened_under_append [OF Cons.prems(2)])
    then show ?thesis using Cons.IH [OF 2(2)] pull_next_opened(1) [OF 2(1)] by simp
  qed (use Cons.prems(2) in simp)
qed simp

lemma started_pull_opened:
  assumes "fst (rgtp_pull_start env sock server (Some eid) cfg out buf send_ok manifest) = ok p"
    and "pull_all cb cap ops p [] = Some (Inr d, t)"
  shows "opened_under cb (replicate 32 0) d"
proof -
  obtain b where "accept_manifest env eid cfg b = ok p" by (rule pull_start_accepts [OF assms(1)])
  then have "s_key p = replicate 32 0" by (rule accept_manifest_key)
  moreover have "opened_under cb (replicate 32 0) []" by (auto simp: opened_under_def intro: exI [of _ "[]"])
  ultimately show ?thesis using pull_all_opened [OF assms(2)] by simp
qed

subsection \<open>Properties\<close>

text \<open>C5: reassembly.  The data is exposed and pulled; given the key of the exposure,
  an adapter that receives every chunk once, in whatever order, stops at the last of them
  whatever follows, and its buffer holds the chunks in the order of their arrival.  If
  they arrive in the order of their indices this is the data.\<close>

theorem adapter_reassembles:
  assumes "aead_lawful cb" and "random_lawful cb" and "backend_total cb"
    and "exposable env cfg d" and "transferable cfg d" and "pullable pcfg" and "plenty penv" and "plenty cenv" and "length rbuf = 64"
    and "mset (map fst ops) = mset [0..<length (chunks_of d cfg)]" and "\<forall>(i, clock, rr_buf) \<in> set ops. length rr_buf = 64"
    and "length d \<le> cap"
  shows "\<exists>s p reqs t. rgtp_expose cb env True (Some d) cfg True = ok s \<and>
    rgtp_pull_start penv True True (Some (s_exposure_id s)) pcfg True rbuf True (Some (packet_bytes (manifest_packet s))) = (ok p, reqs) \<and>
    pull_all cb cap (map (\<lambda>(i, clock, rr_buf). (cenv, Some (packet_bytes (packet_of s want i)), clock, rr_buf)) ops @ rest)
      (p\<lparr>s_key := s_key s\<rparr>) [] = Some (Inr (concat (map (\<lambda>op. chunks_of d cfg ! fst op) ops)), t) \<and>
    (map fst ops = [0..<length (chunks_of d cfg)] \<longrightarrow> concat (map (\<lambda>op. chunks_of d cfg ! fst op) ops) = d)"
proof -
  let ?pts = "chunks_of d cfg"
  obtain s cts where s: "rgtp_expose cb env True (Some d) cfg True = ok s" "exposed cb s ?pts cts" "concat ?pts = d" "fits ?pts"
      "s_chunk_count s \<le> 256" "s_chunk_count s \<noteq> 0" "s_chunk_size s \<noteq> 0"
    and "s_is_exposer s" "s_state s = RGTP_SURFACE_ACTIVE" "s_ratelimit s = rgtp_ratelimit_init"
      "\<forall>x \<in> set ?pts. length x \<le> unat (expose_chunk_size cfg)"
    by (rule expose_transferable [OF assms(2-5)])
  obtain p reqs where p: "rgtp_pull_start penv True True (Some (s_exposure_id s)) pcfg True rbuf True (Some (packet_bytes (manifest_packet s))) = (ok p, reqs)"
      "clean_puller (p\<lparr>s_key := s_key s\<rparr>)" "seen (p\<lparr>s_key := s_key s\<rparr>) = {}" "pull_ready cb cenv 65536 s ?pts cts (p\<lparr>s_key := s_key s\<rparr>)"
    by (rule pull_start_clean [OF s(2,6,5,7) assms(7,6,9,1) s(4) assms(8)])
  have n: "length ?pts = unat (s_chunk_count s)" using s(2) by (simp add: exposed_def)
  have "set (map fst ops) = {..<length ?pts}" using mset_eq_setD [OF assms(10)] by (simp add: lessThan_atLeast0)
  then have set: "fst ` set ops = {..<unat (s_chunk_count s)}" using n by simp
  have dist: "distinct (map fst ops)" using mset_eq_imp_distinct_iff [OF assms(10)] by simp
  have perm: "mset (map (\<lambda>op. ?pts ! fst op) ops) = mset ?pts"
    using arg_cong [OF assms(10), of "image_mset ((!) ?pts)"] by (simp add: map_nth_mset multiset.map_comp comp_def)
  then have len: "length (concat (map (\<lambda>op. ?pts ! fst op) ops)) = length d"
    using s(3) by (metis length_concat_mset)
  obtain t where t: "pull_ready cb cenv 65536 s ?pts cts t" "clean_puller t" "seen t = fst ` set ops \<union> seen (p\<lparr>s_key := s_key s\<rparr>)"
    and run: "\<forall>rest. pull_all cb cap (map (\<lambda>(i, clock, rr_buf). (cenv, Some (packet_bytes (packet_of s want i)), clock, rr_buf)) ops @ rest)
        (p\<lparr>s_key := s_key s\<rparr>) [] = pull_all cb cap rest t ([] @ concat (map (\<lambda>op. ?pts ! fst op) ops))"
  proof (rule pull_all_arrival [OF p(4,2) _ dist])
    show "\<forall>(i, clock, rr_buf) \<in> set ops. i < unat (s_chunk_count s) \<and> i \<notin> seen (p\<lparr>s_key := s_key s\<rparr>) \<and> length rr_buf = 64"
    proof (intro ballI, clarify)
      fix i clock rr_buf assume op: "(i, clock, rr_buf) \<in> set ops"
      then have "i \<in> fst ` set ops" by force
      then show "i < unat (s_chunk_count s) \<and> i \<notin> seen (p\<lparr>s_key := s_key s\<rparr>) \<and> length rr_buf = 64"
        using assms(11) op unfolding set p(3) by auto
    qed
    show "length [] + length (concat (map (\<lambda>op. ?pts ! fst op) ops)) \<le> cap" using len assms(12) by simp
  qed
  have count: "s_chunk_count t = s_chunk_count s" using t(1) by (simp add: pull_ready_def same_identity_def)
  have stop: "pull_all cb cap rest t acc = Some (Inr acc, t)" for acc
    by (rule clean_complete [OF t(2)]) (use t(3) p(3) set count s(6) in simp_all)
  have joined: "concat (map (\<lambda>op. ?pts ! fst op) ops) = d" if "map fst ops = [0..<length ?pts]"
  proof -
    have "map (\<lambda>op. ?pts ! fst op) ops = map ((!) ?pts) (map fst ops)" by simp
    then show ?thesis using s(3) unfolding that map_nth by simp
  qed
  have "pull_all cb cap (map (\<lambda>(i, clock, rr_buf). (cenv, Some (packet_bytes (packet_of s want i)), clock, rr_buf)) ops @ rest)
      (p\<lparr>s_key := s_key s\<rparr>) [] = Some (Inr (concat (map (\<lambda>op. ?pts ! fst op) ops)), t)"
    using run [THEN spec, of rest] unfolding stop append_Nil .
  then show ?thesis using s(1) p(1) joined by blast
qed

theorem adapter_reassembles_witness:
  "\<exists>s p reqs t. rgtp_expose demo_backend demo_env True (Some [1, 2, 3, 4, 5]) (Some (demo_config True)) True = ok s \<and>
    rgtp_pull_start demo_env True True (Some (s_exposure_id s)) None True (replicate 64 0) True (Some (packet_bytes (manifest_packet s))) = (ok p, reqs) \<and>
    pull_all demo_backend 100
      [(demo_env, Some (packet_bytes (packet_of s True 2)), (0, 1, 2), replicate 64 0),
       (demo_env, Some (packet_bytes (packet_of s True 0)), (0, 1, 2), replicate 64 0),
       (demo_env, Some (packet_bytes (packet_of s True 1)), (0, 1, 2), replicate 64 0)] (p\<lparr>s_key := s_key s\<rparr>) [] =
    Some (Inr [5, 1, 2, 3, 4], t)"
proof -
  let ?ops = "[(2, (0, 1, 2), replicate 64 0), (0, (0, 1, 2), replicate 64 0), (1, (0, 1, 2), replicate 64 0)]
    :: (nat \<times> (u64 \<times> u64 \<times> u64) \<times> bytes) list"
  have cfg: "transferable (Some (demo_config True)) [1, 2, 3, 4, 5]" "pullable None"
    by (simp_all add: demo_config_def zero_config_def expose_chunk_size_def initial_window_def pullable_def transferable_def)
  have perm: "mset (map fst ?ops) = mset [0..<length [[1, 2], [3, 4], [5 :: u8]]]" by (simp add: upt_rec)
  show ?thesis
    using adapter_reassembles [OF demo_backend_lawful demo_total(2,1) demo_exposable [of True] cfg demo_total(3,3),
        of "replicate 64 0" ?ops 100 True "[]"] perm
    by (simp add: demo_chunks del: pull_all.simps)
qed

end
