(* ===== verification/Rgtp_SomeIP.thy ===== *)
theory Rgtp_SomeIP
  imports Rgtp_Adapter
begin

text \<open>
  The SOME/IP adapter of \<^verbatim>\<open>src/middleware/rgtp_someip.c\<close>: a
  notification is a header and a payload that are exposed together, and the receiver
  joins the chunks it pulls and strips the header.  The adapter calls
  \<^verbatim>\<open>malloc\<close> itself; whether it succeeds for a size is an argument
  of the definitions.
\<close>

subsection \<open>Header\<close>

definition SOMEIP_HDR_LEN :: nat where "SOMEIP_HDR_LEN = 16"
definition SOMEIP_PROTOCOL_VERSION :: u8 where "SOMEIP_PROTOCOL_VERSION = 1"
definition SOMEIP_MSG_NOTIFICATION :: u8 where "SOMEIP_MSG_NOTIFICATION = 2"
definition SOMEIP_RETURN_OK :: u8 where "SOMEIP_RETURN_OK = 0"

definition someip_write_header :: "u16 \<Rightarrow> u16 \<Rightarrow> u32 \<Rightarrow> u16 \<Rightarrow> u16 \<Rightarrow> u8 \<Rightarrow> u8 \<Rightarrow> u8 \<Rightarrow> bytes" where
  "someip_write_header service_id method_id payload_len client_id session_id iface_version msg_type return_code =
    (let len = payload_len + 8 in
     [ucast (drop_bit 8 service_id), ucast (service_id AND 0xFF), ucast (drop_bit 8 method_id), ucast (method_id AND 0xFF),
      ucast (drop_bit 24 len), ucast (drop_bit 16 len), ucast (drop_bit 8 len), ucast (len AND 0xFF),
      ucast (drop_bit 8 client_id), ucast (client_id AND 0xFF), ucast (drop_bit 8 session_id), ucast (session_id AND 0xFF),
      SOMEIP_PROTOCOL_VERSION, iface_version, msg_type, return_code])"

subsection \<open>Service\<close>

record rgtp_someip_service =
  sv_sock :: bool
  sv_config :: rgtp_config
  sv_service_id :: u16
  sv_instance_id :: u16
  sv_iface_version :: u8
  sv_session_counter :: u16

definition rgtp_someip_service_create ::
    "bool \<Rightarrow> bool \<Rightarrow> u16 \<Rightarrow> u16 \<Rightarrow> u8 \<Rightarrow> rgtp_config option \<Rightarrow> bool \<Rightarrow> rgtp_someip_service cres" where
  "rgtp_someip_service_create calloc_ok sock service_id instance_id iface_version cfg out =
    (if \<not> sock \<or> \<not> out then err RGTP_ERR_INVALID_ARG
     else if \<not> calloc_ok then err RGTP_ERR_NOMEM
     else ok \<lparr>sv_sock = sock, sv_config = (case cfg of Some c \<Rightarrow> c | None \<Rightarrow> zero_config), sv_service_id = service_id,
       sv_instance_id = instance_id, sv_iface_version = iface_version, sv_session_counter = 1\<rparr>)"

definition someip_message :: "rgtp_someip_service \<Rightarrow> u16 \<Rightarrow> bytes \<Rightarrow> bytes" where
  "someip_message svc method_id p =
    someip_write_header (sv_service_id svc) method_id (word_of_nat (length p)) 0 (sv_session_counter svc)
      (sv_iface_version svc) SOMEIP_MSG_NOTIFICATION SOMEIP_RETURN_OK @ p"

definition rgtp_someip_notify ::
    "crypto_backend \<Rightarrow> mem_env \<Rightarrow> (nat \<Rightarrow> bool) \<Rightarrow> rgtp_someip_service option \<Rightarrow> u16 \<Rightarrow> bytes option \<Rightarrow> bool \<Rightarrow>
      rgtp_surface cres \<times> rgtp_someip_service option" where
  "rgtp_someip_notify cb env can_malloc svc method_id payload surface =
    (case (svc, payload) of
       (Some v, Some p) \<Rightarrow>
         if \<not> surface then (err RGTP_ERR_INVALID_ARG, svc)
         else if \<not> can_malloc (SOMEIP_HDR_LEN + length p) then (err RGTP_ERR_NOMEM, svc)
         else (rgtp_expose cb env (sv_sock v) (Some (someip_message v method_id p)) (Some (sv_config v)) True,
               Some (v\<lparr>sv_session_counter := sv_session_counter v + 1\<rparr>))
     | _ \<Rightarrow> (err RGTP_ERR_INVALID_ARG, svc))"

subsection \<open>Receiving\<close>

definition someip_parse :: "bool \<Rightarrow> bool \<Rightarrow> bytes \<Rightarrow> (bytes \<times> u16 option \<times> u16 option) cres" where
  "someip_parse service_id method_id full_buf =
    (if length full_buf < SOMEIP_HDR_LEN then err RGTP_ERR_TRUNCATED
     else ok (drop SOMEIP_HDR_LEN full_buf,
       (if service_id then Some (push_bit 8 (ucast (full_buf ! 0)) OR ucast (full_buf ! 1)) else None),
       (if method_id then Some (push_bit 8 (ucast (full_buf ! 2)) OR ucast (full_buf ! 3)) else None)))"

definition rgtp_someip_receive ::
    "crypto_backend \<Rightarrow> mem_env \<Rightarrow> (nat \<Rightarrow> bool) \<Rightarrow> bool \<Rightarrow> bool \<Rightarrow> bytes option \<Rightarrow> rgtp_config option \<Rightarrow> bool \<Rightarrow> nat \<Rightarrow> bool \<Rightarrow> bool \<Rightarrow> bool \<Rightarrow>
      bytes \<Rightarrow> bool \<Rightarrow> bytes option \<Rightarrow> reception list \<Rightarrow> (bytes \<times> u16 option \<times> u16 option) cres" where
  "rgtp_someip_receive cb env can_malloc sock server eid_ptr cfg payload_out buf_size out_len service_id method_id
      send_buf send_ok manifest ops =
    (if \<not> sock \<or> \<not> server \<or> eid_ptr = None \<or> \<not> payload_out \<or> \<not> out_len then err RGTP_ERR_INVALID_ARG
     else
       cbind (fst (rgtp_pull_start env sock server eid_ptr cfg True send_buf send_ok manifest)) (\<lambda>s.
         let cap = (buf_size + SOMEIP_HDR_LEN) mod 2 ^ 64 in
         if \<not> can_malloc cap then do {
           freed \<leftarrow> rgtp_destroy_surface env (Some s);
           err RGTP_ERR_NOMEM}
         else do {
           (r, t) \<leftarrow> pull_all cb cap ops s [];
           freed \<leftarrow> rgtp_destroy_surface env (Some t);
           case r of Inl e \<Rightarrow> err e | Inr full_buf \<Rightarrow> someip_parse service_id method_id full_buf}))"

subsection \<open>Lemmas\<close>

lemma split_u16: "push_bit 8 (ucast (ucast (drop_bit 8 w) :: u8)) OR ucast (ucast (w AND 0xFF) :: u8) = w" for w :: u16
proof -
  have m: "(0xFF :: u16) = mask 8" by (simp add: mask_eq_exp_minus_1)
  show ?thesis unfolding m by (rule bit_word_eqI) (auto simp: bit_simps)
qed

lemma someip_parse_message:
  "someip_parse True True (someip_message svc mid p) = ok (p, Some (sv_service_id svc), Some mid)"
  using split_u16 [of "sv_service_id svc"] split_u16 [of mid]
  by (simp add: someip_parse_def someip_message_def someip_write_header_def SOMEIP_HDR_LEN_def Let_def)

lemma someip_receive_opened:
  assumes "rgtp_someip_receive cb env can_malloc sock server (Some eid) cfg payload_out buf_size out_len service_id method_id
      send_buf send_ok manifest ops = ok (x, sid, m)"
  shows "\<exists>d. x = drop 16 d \<and> opened_under cb (replicate 32 0) d"
proof -
  obtain s d t where "fst (rgtp_pull_start env sock server (Some eid) cfg True send_buf send_ok manifest) = ok s"
      "pull_all cb ((buf_size + SOMEIP_HDR_LEN) mod 2 ^ 64) ops s [] = Some (Inr d, t)" "someip_parse service_id method_id d = ok (x, sid, m)"
    using assms by (auto simp: rgtp_someip_receive_def cbind_ok_iff Let_def split: if_splits bind_splits sum.splits prod.splits)
  then show ?thesis
    using started_pull_opened by (fastforce simp: someip_parse_def SOMEIP_HDR_LEN_def split: if_splits)
qed

subsection \<open>Properties\<close>

text \<open>C34: notifications.  A notification exposes the message, the header followed by the
  payload, and advances the session counter; from the message the parser recovers the
  payload and the identifiers.  Every chunk of the
  exposure opens under its key, but the receiver has no way to learn that key and pulls with
  32 zeros.  Whatever datagrams it is sent, a payload that it returns consists of pieces that
  the primitive opened under the zeros; and if the first chunk to arrive is one that does not
  open under the zeros, which a condition of the statement says of this one chunk, the call
  fails with an authentication error.\<close>

theorem someip_notification:
  assumes "aead_lawful cb" and "random_lawful cb" and "backend_total cb" and "sv_sock svc"
    and "exposable env (Some (sv_config svc)) (someip_message svc mid p)"
    and "transferable (Some (sv_config svc)) (someip_message svc mid p)"
    and "pullable pcfg" and "plenty penv" and "plenty cenv" and "length rbuf = 64"
    and "can_malloc (16 + length p)" and "can_malloc ((buf_size + 16) mod 2 ^ 64)"
    and "i < length (chunks_of (someip_message svc mid p) (Some (sv_config svc)))"
  shows "\<exists>s. rgtp_someip_notify cb env can_malloc (Some svc) mid (Some p) True =
      (ok s, Some (svc\<lparr>sv_session_counter := sv_session_counter svc + 1\<rparr>)) \<and>
    concat (chunks_of (someip_message svc mid p) (Some (sv_config svc))) = someip_message svc mid p \<and>
    someip_parse True True (someip_message svc mid p) = ok (p, Some (sv_service_id svc), Some mid) \<and>
    chunk_opens cb (s_key s) s i \<and>
    (\<forall>manifest rs x sid m. rgtp_someip_receive cb penv can_malloc True True (Some (s_exposure_id s)) pcfg True buf_size True True True
        rbuf True manifest rs = ok (x, sid, m) \<longrightarrow>
      (\<exists>d. x = drop 16 d \<and> opened_under cb (replicate 32 0) d)) \<and>
    (\<not> chunk_opens cb (replicate 32 0) s i \<longrightarrow>
      rgtp_someip_receive cb penv can_malloc True True (Some (s_exposure_id s)) pcfg True buf_size True True True rbuf True
        (Some (packet_bytes (manifest_packet s))) ((cenv, Some (packet_bytes (packet_of s want i)), clock, rr_buf) # ops) =
      err RGTP_ERR_AUTH_FAIL)"
proof -
  let ?m = "someip_message svc mid p" and ?cfg = "Some (sv_config svc)"
  obtain s cts where s: "rgtp_expose cb env True (Some ?m) ?cfg True = ok s" "exposed cb s (chunks_of ?m ?cfg) cts"
      "concat (chunks_of ?m ?cfg) = ?m" "fits (chunks_of ?m ?cfg)" "s_chunk_count s \<le> 256" "s_chunk_count s \<noteq> 0" "s_chunk_size s \<noteq> 0"
    and "s_is_exposer s" "s_state s = RGTP_SURFACE_ACTIVE" "s_ratelimit s = rgtp_ratelimit_init"
      "\<forall>x \<in> set (chunks_of ?m ?cfg). length x \<le> unat (expose_chunk_size ?cfg)"
    by (rule expose_transferable [OF assms(2,3,5,6)])
  have i: "i < unat (s_chunk_count s)" using assms(13) s(2) by (simp add: exposed_def)
  have "rgtp_someip_notify cb env can_malloc (Some svc) mid (Some p) True =
      (ok s, Some (svc\<lparr>sv_session_counter := sv_session_counter svc + 1\<rparr>))"
    using s(1) assms(4,11) by (simp add: rgtp_someip_notify_def SOMEIP_HDR_LEN_def)
  moreover have "rgtp_someip_receive cb penv can_malloc True True (Some (s_exposure_id s)) pcfg True buf_size True True True rbuf True
        (Some (packet_bytes (manifest_packet s))) ((cenv, Some (packet_bytes (packet_of s want i)), clock, rr_buf) # ops) =
      err RGTP_ERR_AUTH_FAIL" if key: "\<not> chunk_opens cb (replicate 32 0) s i"
  proof -
    obtain p reqs t acts where "rgtp_pull_start penv True True (Some (s_exposure_id s)) pcfg True rbuf True
          (Some (packet_bytes (manifest_packet s))) = (ok p, reqs)"
        "\<forall>cap. pull_all cb cap ((cenv, Some (packet_bytes (packet_of s want i)), clock, rr_buf) # ops) p [] = Some (Inl RGTP_ERR_AUTH_FAIL, t)"
        "rgtp_destroy_surface penv (Some t) = Some acts"
      by (rule pull_all_wrong_key [OF s(2) assms(1) s(4,5,7) i assms(8,9,7,10) key])
    then show ?thesis
      using assms(12) by (simp add: rgtp_someip_receive_def SOMEIP_HDR_LEN_def del: pull_all.simps)
  qed
  moreover have "\<forall>manifest rs x sid m. rgtp_someip_receive cb penv can_malloc True True (Some (s_exposure_id s)) pcfg True buf_size True True True
        rbuf True manifest rs = ok (x, sid, m) \<longrightarrow> (\<exists>d. x = drop 16 d \<and> opened_under cb (replicate 32 0) d)"
    by (intro allI impI) (rule someip_receive_opened)
  ultimately show ?thesis
    using s(3) someip_parse_message [of svc mid p] chunk_opens_own_key [OF s(2) i assms(1)]
    by (intro exI [of _ s] conjI impI) simp_all
qed

definition demo_service :: rgtp_someip_service where
  "demo_service = \<lparr>sv_sock = True, sv_config = demo_config True, sv_service_id = 0x1234, sv_instance_id = 1,
     sv_iface_version = 1, sv_session_counter = 7\<rparr>"

lemma demo_service_facts:
  "exposable demo_env (Some (sv_config demo_service)) (someip_message demo_service 0x8001 [9, 9])"
  "transferable (Some (sv_config demo_service)) (someip_message demo_service 0x8001 [9, 9])"
  "3 < length (chunks_of (someip_message demo_service 0x8001 [9, 9]) (Some (sv_config demo_service)))"
  using demo_total(3)
  by (simp_all add: exposable_def transferable_def demo_service_def demo_config_def zero_config_def expose_chunk_size_def
      someip_message_def someip_write_header_def Let_def chunks_of_def expose_chunk_count_def)

lemma demo_wrong_key:
  assumes "rgtp_expose demo_backend env True (Some d) cfg True = ok s" and "exposed demo_backend s pts cts"
    and "i < unat (s_chunk_count s)"
  shows "\<not> chunk_opens demo_backend (replicate 32 0) s i"
proof -
  obtain key where "rgtp_csprng_bytes demo_backend 1 True RGTP_AEAD_KEY_BYTES = ok key" "s_key s = key"
    by (rule expose_parts [OF assms(1)]) (simp add: finish_expose_def Let_def split: option.splits)
  then have "s_key s = replicate 32 1" by (simp add: rgtp_csprng_bytes_def demo_backend_def RGTP_AEAD_KEY_BYTES_def)
  then have "aead_seal demo_backend (replicate 32 1) (rgtp_build_nonce (word_of_nat i)) (pts ! i) = AeadOk (cts ! i)"
    using assms(2,3) by (simp add: exposed_def encrypt_ok_iff RGTP_AEAD_KEY_BYTES_def)
  moreover have keys: "sum_list (replicate 32 (1 :: u8)) = 32" "sum_list (replicate 32 (0 :: u8)) = 0"
    by (simp_all add: sum_list_replicate)
  ultimately have ct: "cts ! i = pts ! i @ replicate 16 (32 + sum_list (rgtp_build_nonce (word_of_nat i)) + sum_list (pts ! i))"
    by (simp add: demo_backend_def demo_tag_def)
  show ?thesis
    unfolding chunk_opens_exposed [OF assms(2,3)] ct using keys by (simp add: demo_backend_def demo_tag_def Let_def)
qed

theorem someip_notification_witness:
  "\<exists>s. rgtp_someip_notify demo_backend demo_env (\<lambda>n. True) (Some demo_service) 0x8001 (Some [9, 9]) True =
      (ok s, Some (demo_service\<lparr>sv_session_counter := 8\<rparr>)) \<and>
    someip_parse True True (someip_message demo_service 0x8001 [9, 9]) = ok ([9, 9], Some 0x1234, Some 0x8001) \<and>
    rgtp_someip_receive demo_backend demo_env (\<lambda>n. True) True True (Some (s_exposure_id s)) None True 100 True True True
        (replicate 64 0) True (Some (packet_bytes (manifest_packet s)))
        [(demo_env, Some (packet_bytes (packet_of s True 3)), (0, 1, 2), replicate 64 0)] =
      err RGTP_ERR_AUTH_FAIL"
proof -
  have sock: "sv_sock demo_service" "sv_service_id demo_service = 0x1234" "sv_session_counter demo_service + 1 = 8"
    by (simp_all add: demo_service_def)
  have pull: "pullable None" by (simp add: pullable_def initial_window_def)
  obtain s where s: "rgtp_someip_notify demo_backend demo_env (\<lambda>n. True) (Some demo_service) 0x8001 (Some [9, 9]) True =
      (ok s, Some (demo_service\<lparr>sv_session_counter := sv_session_counter demo_service + 1\<rparr>))"
    "someip_parse True True (someip_message demo_service 0x8001 [9, 9]) = ok ([9, 9], Some (sv_service_id demo_service), Some 0x8001)"
    "\<not> chunk_opens demo_backend (replicate 32 0) s 3 \<longrightarrow>
      rgtp_someip_receive demo_backend demo_env (\<lambda>n. True) True True (Some (s_exposure_id s)) None True 100 True True True
        (replicate 64 0) True (Some (packet_bytes (manifest_packet s)))
        [(demo_env, Some (packet_bytes (packet_of s True 3)), (0, 1, 2), replicate 64 0)] =
      err RGTP_ERR_AUTH_FAIL"
    using someip_notification [OF demo_backend_lawful demo_total(2,1) sock(1) demo_service_facts(1,2) pull demo_total(3,3) _ TrueI TrueI
        demo_service_facts(3), of "replicate 64 0" 100 True "(0, 1, 2)" "replicate 64 0" "[]"] by auto
  have e: "rgtp_expose demo_backend demo_env True (Some (someip_message demo_service 0x8001 [9, 9])) (Some (sv_config demo_service)) True = ok s"
    using s(1) sock(1) by (simp add: rgtp_someip_notify_def)
  obtain cts where x: "exposed demo_backend s (chunks_of (someip_message demo_service 0x8001 [9, 9]) (Some (sv_config demo_service))) cts"
    by (rule expose_exposed [OF e demo_total(2)])
      (simp_all add: someip_message_def someip_write_header_def demo_service_def Let_def)
  have "3 < unat (s_chunk_count s)" using x demo_service_facts(3) by (simp add: exposed_def)
  then show ?thesis using s demo_wrong_key [OF e x] sock by auto
qed

end
