(* ===== verification/Rgtp_DDS.thy ===== *)
theory Rgtp_DDS
  imports Rgtp_Adapter
begin

text \<open>
  The DDS adapter of \<^verbatim>\<open>src/middleware/rgtp_dds.c\<close>: a writer
  exposes a sample as it is, a reader pulls an exposure into the caller's buffer.
\<close>

definition RTPS_MAGIC :: bytes where "RTPS_MAGIC = [0x52, 0x54, 0x50, 0x53]"
definition RTPS_MAGIC_LEN :: nat where "RTPS_MAGIC_LEN = 4"

definition is_rtps_packet :: "bytes \<Rightarrow> bool" where
  "is_rtps_packet d = (if length d < RTPS_MAGIC_LEN then False else take RTPS_MAGIC_LEN d = RTPS_MAGIC)"

subsection \<open>Writer\<close>

record rgtp_dds_writer =
  dw_sock :: bool
  dw_config :: rgtp_config
  dw_guid_prefix :: bytes
  dw_entity_id :: u32

text \<open>A prefix that is given has 12 bytes; reading a shorter one is
  undefined.\<close>

definition rgtp_dds_writer_create ::
    "bool \<Rightarrow> bool \<Rightarrow> bytes option \<Rightarrow> u32 \<Rightarrow> rgtp_config option \<Rightarrow> bool \<Rightarrow> rgtp_dds_writer cres" where
  "rgtp_dds_writer_create calloc_ok sock guid_prefix entity_id cfg out =
    (if \<not> sock \<or> \<not> out then err RGTP_ERR_INVALID_ARG
     else if \<not> calloc_ok then err RGTP_ERR_NOMEM
     else do {
       g \<leftarrow> (case guid_prefix of None \<Rightarrow> Some (replicate 12 0) | Some g \<Rightarrow> mem_get g 0 12);
       ok \<lparr>dw_sock = sock, dw_config = (case cfg of Some c \<Rightarrow> c | None \<Rightarrow> zero_config), dw_guid_prefix = g,
           dw_entity_id = entity_id\<rparr>})"

definition rgtp_dds_write ::
    "crypto_backend \<Rightarrow> mem_env \<Rightarrow> rgtp_dds_writer option \<Rightarrow> bytes option \<Rightarrow> bool \<Rightarrow> rgtp_surface cres" where
  "rgtp_dds_write cb env writer data_ptr surface =
    (case (writer, data_ptr) of
       (Some w, Some d) \<Rightarrow> if \<not> surface then err RGTP_ERR_INVALID_ARG
         else rgtp_expose cb env (dw_sock w) (Some d) (Some (dw_config w)) True
     | _ \<Rightarrow> err RGTP_ERR_INVALID_ARG)"

subsection \<open>Reader\<close>

record rgtp_dds_reader =
  dr_sock :: bool
  dr_config :: rgtp_config
  dr_guid_prefix :: bytes
  dr_entity_id :: u32

definition rgtp_dds_reader_create ::
    "bool \<Rightarrow> bool \<Rightarrow> bytes option \<Rightarrow> u32 \<Rightarrow> rgtp_config option \<Rightarrow> bool \<Rightarrow> rgtp_dds_reader cres" where
  "rgtp_dds_reader_create calloc_ok sock guid_prefix entity_id cfg out =
    (if \<not> sock \<or> \<not> out then err RGTP_ERR_INVALID_ARG
     else if \<not> calloc_ok then err RGTP_ERR_NOMEM
     else do {
       g \<leftarrow> (case guid_prefix of None \<Rightarrow> Some (replicate 12 0) | Some g \<Rightarrow> mem_get g 0 12);
       ok \<lparr>dr_sock = sock, dr_config = (case cfg of Some c \<Rightarrow> c | None \<Rightarrow> zero_config), dr_guid_prefix = g,
           dr_entity_id = entity_id\<rparr>})"

definition rgtp_dds_read ::
    "crypto_backend \<Rightarrow> mem_env \<Rightarrow> rgtp_dds_reader option \<Rightarrow> bool \<Rightarrow> bytes option \<Rightarrow> bool \<Rightarrow> nat \<Rightarrow> bool \<Rightarrow>
      bytes \<Rightarrow> bool \<Rightarrow> bytes option \<Rightarrow> reception list \<Rightarrow> bytes cres" where
  "rgtp_dds_read cb env reader server eid_ptr buf buf_size out_len send_buf send_ok manifest ops =
    (case reader of
       None \<Rightarrow> err RGTP_ERR_INVALID_ARG
     | Some rd \<Rightarrow>
         if \<not> server \<or> eid_ptr = None \<or> \<not> buf \<or> \<not> out_len then err RGTP_ERR_INVALID_ARG
         else
           cbind (fst (rgtp_pull_start env (dr_sock rd) server eid_ptr (Some (dr_config rd)) True send_buf send_ok manifest)) (\<lambda>s. do {
             (r, t) \<leftarrow> pull_all cb buf_size ops s [];
             freed \<leftarrow> rgtp_destroy_surface env (Some t);
             case r of Inl e \<Rightarrow> err e | Inr joined \<Rightarrow> ok joined}))"

subsection \<open>Reading without the key\<close>

lemma dds_read_wrong_key:
  assumes "exposed cb s pts cts" and "aead_lawful cb" and "fits pts" and "s_chunk_count s \<le> 256" and "s_chunk_size s \<noteq> 0"
    and "i < unat (s_chunk_count s)" and "plenty penv" and "plenty env" and "pullable (Some (dr_config rd))" and "length rbuf = 64"
    and "\<not> chunk_opens cb (replicate 32 0) s i" and "dr_sock rd"
  shows "rgtp_dds_read cb penv (Some rd) True (Some (s_exposure_id s)) True buf_size True rbuf True
      (Some (packet_bytes (manifest_packet s))) ((env, Some (packet_bytes (packet_of s want i)), clock, rr_buf) # ops) =
    err RGTP_ERR_AUTH_FAIL"
proof -
  obtain p reqs t acts where "rgtp_pull_start penv True True (Some (s_exposure_id s)) (Some (dr_config rd)) True rbuf True
        (Some (packet_bytes (manifest_packet s))) = (ok p, reqs)"
      "\<forall>cap. pull_all cb cap ((env, Some (packet_bytes (packet_of s want i)), clock, rr_buf) # ops) p [] = Some (Inl RGTP_ERR_AUTH_FAIL, t)"
      "rgtp_destroy_surface penv (Some t) = Some acts"
    by (rule pull_all_wrong_key [OF assms(1-11)])
  then show ?thesis using assms(12) by (simp add: rgtp_dds_read_def del: pull_all.simps)
qed

end
