(* ===== verification/Rgtp_ROS2.thy ===== *)
theory Rgtp_ROS2
  imports Rgtp_Adapter
begin

text \<open>
  The ROS2 adapter of \<^verbatim>\<open>src/middleware/rgtp_ros2.c\<close>: a publisher
  puts the encapsulation header before a message and exposes it, a subscriber pulls an
  exposure and strips the header.
\<close>

subsection \<open>Encapsulation\<close>

definition cdr_wrap :: "bytes \<Rightarrow> bytes" where
  "cdr_wrap msg = [0x00, 0x01, 0x00, 0x00] @ msg"

definition cdr_unwrap :: "bytes \<Rightarrow> bytes cres" where
  "cdr_unwrap d = (if length d < 4 then err RGTP_ERR_TRUNCATED else ok (drop 4 d))"

subsection \<open>Publisher\<close>

text \<open>The topic as the 128 bytes of its array: \<^verbatim>\<open>strncpy\<close> copies
  up to the terminator, at most 127 bytes, into an array that was cleared.\<close>

definition topic_field :: "bytes option \<Rightarrow> bytes" where
  "topic_field topic =
    (case topic of
       None \<Rightarrow> replicate 128 0
     | Some t \<Rightarrow> (let c = take 127 (takeWhile (\<lambda>b. b \<noteq> 0) t) in c @ replicate (128 - length c) 0))"

record rgtp_ros2_publisher =
  rp_sock :: bool
  rp_config :: rgtp_config
  rp_topic :: bytes

definition rgtp_ros2_publisher_create ::
    "bool \<Rightarrow> bool \<Rightarrow> bytes option \<Rightarrow> rgtp_config option \<Rightarrow> bool \<Rightarrow> rgtp_ros2_publisher cres" where
  "rgtp_ros2_publisher_create calloc_ok sock topic cfg out =
    (if \<not> sock \<or> \<not> out then err RGTP_ERR_INVALID_ARG
     else if \<not> calloc_ok then err RGTP_ERR_NOMEM
     else ok \<lparr>rp_sock = sock, rp_config = (case cfg of Some c \<Rightarrow> c | None \<Rightarrow> zero_config), rp_topic = topic_field topic\<rparr>)"

definition rgtp_ros2_publish ::
    "crypto_backend \<Rightarrow> mem_env \<Rightarrow> (nat \<Rightarrow> bool) \<Rightarrow> rgtp_ros2_publisher option \<Rightarrow> bytes option \<Rightarrow> bool \<Rightarrow> rgtp_surface cres" where
  "rgtp_ros2_publish cb env can_malloc pub msg_data surface =
    (case (pub, msg_data) of
       (Some p, Some m) \<Rightarrow>
         if \<not> surface then err RGTP_ERR_INVALID_ARG
         else if \<not> can_malloc (length m + 4) then err RGTP_ERR_NOMEM
         else rgtp_expose cb env (rp_sock p) (Some (cdr_wrap m)) (Some (rp_config p)) True
     | _ \<Rightarrow> err RGTP_ERR_INVALID_ARG)"

subsection \<open>Subscriber\<close>

record rgtp_ros2_subscriber =
  rs_sock :: bool
  rs_config :: rgtp_config
  rs_topic :: bytes
  rs_active :: bool

definition rgtp_ros2_subscriber_create ::
    "bool \<Rightarrow> bool \<Rightarrow> bytes option \<Rightarrow> rgtp_config option \<Rightarrow> bool \<Rightarrow> rgtp_ros2_subscriber cres" where
  "rgtp_ros2_subscriber_create calloc_ok sock topic cfg out =
    (if \<not> sock \<or> \<not> out then err RGTP_ERR_INVALID_ARG
     else if \<not> calloc_ok then err RGTP_ERR_NOMEM
     else ok \<lparr>rs_sock = sock, rs_config = (case cfg of Some c \<Rightarrow> c | None \<Rightarrow> zero_config), rs_topic = topic_field topic,
       rs_active = True\<rparr>)"

definition rgtp_ros2_receive ::
    "crypto_backend \<Rightarrow> mem_env \<Rightarrow> rgtp_ros2_subscriber option \<Rightarrow> bool \<Rightarrow> bytes option \<Rightarrow> bool \<Rightarrow> nat \<Rightarrow> bool \<Rightarrow>
      bytes \<Rightarrow> bool \<Rightarrow> bytes option \<Rightarrow> reception list \<Rightarrow> bytes cres" where
  "rgtp_ros2_receive cb env sub server eid_ptr buf buf_size out_len send_buf send_ok manifest ops =
    (case sub of
       None \<Rightarrow> err RGTP_ERR_INVALID_ARG
     | Some sb \<Rightarrow>
         if \<not> server \<or> eid_ptr = None \<or> \<not> buf \<or> \<not> out_len then err RGTP_ERR_INVALID_ARG
         else
           cbind (fst (rgtp_pull_start env (rs_sock sb) server eid_ptr (Some (rs_config sb)) True send_buf send_ok manifest)) (\<lambda>s. do {
             (r, t) \<leftarrow> pull_all cb buf_size ops s [];
             freed \<leftarrow> rgtp_destroy_surface env (Some t);
             case r of Inl e \<Rightarrow> err e | Inr joined \<Rightarrow> cdr_unwrap joined}))"

subsection \<open>Lemmas\<close>

lemma cdr_roundtrip: "cdr_unwrap (cdr_wrap m) = ok m"
  by (simp add: cdr_unwrap_def cdr_wrap_def)

lemma topic_field_terminated: "length (topic_field topic) = 128" "topic_field topic ! 127 = 0"
  by (auto simp: topic_field_def Let_def nth_append split: option.splits)

lemma ros2_receive_wrong_key:
  assumes "exposed cb s pts cts" and "aead_lawful cb" and "fits pts" and "s_chunk_count s \<le> 256" and "s_chunk_size s \<noteq> 0"
    and "i < unat (s_chunk_count s)" and "plenty penv" and "plenty env" and "pullable (Some (rs_config sb))" and "length rbuf = 64"
    and "\<not> chunk_opens cb (replicate 32 0) s i" and "rs_sock sb"
  shows "rgtp_ros2_receive cb penv (Some sb) True (Some (s_exposure_id s)) True buf_size True rbuf True
      (Some (packet_bytes (manifest_packet s))) ((env, Some (packet_bytes (packet_of s want i)), clock, rr_buf) # ops) =
    err RGTP_ERR_AUTH_FAIL"
proof -
  obtain p reqs t acts where "rgtp_pull_start penv True True (Some (s_exposure_id s)) (Some (rs_config sb)) True rbuf True
        (Some (packet_bytes (manifest_packet s))) = (ok p, reqs)"
      "\<forall>cap. pull_all cb cap ((env, Some (packet_bytes (packet_of s want i)), clock, rr_buf) # ops) p [] = Some (Inl RGTP_ERR_AUTH_FAIL, t)"
      "rgtp_destroy_surface penv (Some t) = Some acts"
    by (rule pull_all_wrong_key [OF assms(1-11)])
  then show ?thesis using assms(12) by (simp add: rgtp_ros2_receive_def del: pull_all.simps)
qed

end
