(* ===== verification/Rgtp_Embedded.thy ===== *)
theory Rgtp_Embedded
  imports Rgtp_Progress
begin

text \<open>
  The embedded profile of \<^verbatim>\<open>src/transport/rgtp_embedded.c\<close> and the
  receive buffers that a caller supplies.
\<close>

definition RGTP_EMBEDDED_MAX_EXPOSURE_BYTES :: u64 where "RGTP_EMBEDDED_MAX_EXPOSURE_BYTES = 16 * 1024 * 1024"
definition RGTP_EMBEDDED_MAX_CHUNK_COUNT :: u32 where "RGTP_EMBEDDED_MAX_CHUNK_COUNT = 16384"

text \<open>The build's memory profile decides whether the limits apply.\<close>

definition rgtp_embedded_validate_exposure :: "mem_env \<Rightarrow> u64 \<Rightarrow> u32 \<Rightarrow> unit cres" where
  "rgtp_embedded_validate_exposure env total_size chunk_count =
    (if memory_profile_embedded env then
       if total_size > RGTP_EMBEDDED_MAX_EXPOSURE_BYTES then err RGTP_ERR_INVALID_ARG
       else if chunk_count > RGTP_EMBEDDED_MAX_CHUNK_COUNT then err RGTP_ERR_INVALID_ARG
       else ok ()
     else ok ())"

text \<open>The blocks are released with \<^verbatim>\<open>rgtp_free\<close>, not with the
  allocator of the surface.  The result is the error, the surface and the releases.\<close>

definition release_received :: "mem_env \<Rightarrow> rgtp_surface \<Rightarrow> destroy_action list option" where
  "release_received env s =
    (case s_recv_chunks s of
       None \<Rightarrow> Some []
     | Some xs \<Rightarrow>
         if length xs < unat (s_chunk_count s) then None
         else Some (map (\<lambda>i. Release (RecvBlock i) (rgtp_free env True)) (filter (\<lambda>i. xs ! i \<noteq> None) [0..<unat (s_chunk_count s)])
           @ [Release RecvArray (rgtp_free env True)]))"

definition rgtp_set_receive_buffers ::
    "mem_env \<Rightarrow> rgtp_surface option \<Rightarrow> bytes option list option \<Rightarrow> nat list option \<Rightarrow> u32 \<Rightarrow>
      (rgtp_error option \<times> rgtp_surface option \<times> destroy_action list) option" where
  "rgtp_set_receive_buffers env surface buffers buffer_sizes chunk_count =
    (if surface = None \<or> buffers = None \<or> buffer_sizes = None then Some (Some RGTP_ERR_INVALID_ARG, surface, [])
     else do {
       s \<leftarrow> surface;
       if s_is_exposer s \<or> chunk_count \<noteq> s_chunk_count s then Some (Some RGTP_ERR_INVALID_ARG, surface, [])
       else do {
         a1 \<leftarrow> release_received env s;
         let a2 = (if s_recv_sizes s \<noteq> None then [Release RecvSizeArray (rgtp_free env True)] else []);
         Some (None, Some (s\<lparr>s_recv_chunks := buffers, s_recv_sizes := buffer_sizes\<rparr>), a1 @ a2)}})"

datatype memory_profile = FullProfile | MinimalProfile | EmbeddedProfile

fun rgtp_memory_profile_name :: "memory_profile \<Rightarrow> string" where
  "rgtp_memory_profile_name EmbeddedProfile = ''EMBEDDED''"
| "rgtp_memory_profile_name MinimalProfile = ''MINIMAL''"
| "rgtp_memory_profile_name FullProfile = ''FULL''"

subsection \<open>Lemmas\<close>

text \<open>The reception of chunks does not use the buffers.\<close>

lemma mark_received_buffers:
  "mark_received s idx n = Some t \<Longrightarrow> s_recv_chunks t = s_recv_chunks s \<and> s_recv_sizes t = s_recv_sizes s"
  by (auto simp: mark_received_def split: Option.bind_splits if_splits)

lemma record_rtt_buffers:
  "record_rtt s t0 t1 = Some t \<Longrightarrow> s_recv_chunks t = s_recv_chunks s \<and> s_recv_sizes t = s_recv_sizes s"
  by (auto simp: record_rtt_def Let_def split: if_splits Option.bind_splits)

lemma receive_chunk_buffers:
  assumes "receive_chunk cb env s idx payload ct_len pf depth n clock rr_buf = Some (r, Some t, sent)"
  shows "s_recv_chunks t = s_recv_chunks s \<and> s_recv_sizes t = s_recv_sizes s"
  using assms unfolding receive_chunk_def
  by (fastforce simp: Let_def split: Option.bind_splits if_splits sum.splits prod.splits dest: record_rtt_buffers mark_received_buffers)

lemma pull_next_buffers:
  assumes "rgtp_pull_next cb env (Some s) True n True dg clock rr_buf = Some (r, Some t, sent)"
  shows "s_recv_chunks t = s_recv_chunks s" and "s_recv_sizes t = s_recv_sizes s"
proof -
  have "s_recv_chunks t = s_recv_chunks s \<and> s_recv_sizes t = s_recv_sizes s"
    using assms unfolding rgtp_pull_next_def
    by (auto split: Option.bind_splits if_splits option.splits sum.splits prod.splits dest: receive_chunk_buffers)
  then show "s_recv_chunks t = s_recv_chunks s" "s_recv_sizes t = s_recv_sizes s" by simp_all
qed

text \<open>A destroy after the buffers were installed releases the caller's buffers and
  both of the caller's arrays.\<close>

lemma destroy_releases_caller_buffers:
  assumes "arrays_ok s" and "\<not> s_is_exposer s" and "s_state s \<noteq> RGTP_SURFACE_DESTROYED"
    and "length buffers = unat (s_chunk_count s)"
  obtains t a acts where "rgtp_set_receive_buffers env (Some s) (Some buffers) (Some sizes) (s_chunk_count s) = Some (None, Some t, a)"
    "rgtp_destroy_surface env (Some t) = Some acts"
    "{RecvArray, RecvSizeArray} \<union> RecvBlock ` {i. i < length buffers \<and> buffers ! i \<noteq> None} \<subseteq> set (released acts)"
proof -
  let ?t = "s\<lparr>s_recv_chunks := Some buffers, s_recv_sizes := Some sizes\<rparr>"
  have "release_received env s \<noteq> None"
    using assms(1) by (auto simp: release_received_def arrays_ok_def split: option.splits)
  then obtain a where "release_received env s = Some a" by blast
  then have set: "\<exists>a. rgtp_set_receive_buffers env (Some s) (Some buffers) (Some sizes) (s_chunk_count s) = Some (None, Some ?t, a)"
    using assms(2) by (simp add: rgtp_set_receive_buffers_def Let_def)
  have ok: "release_array env ?t ChunkBlock ChunkArray (unat (s_chunk_count s)) (s_chunks s) \<noteq> None"
      "release_array env ?t ProofBlock ProofArray (unat (s_chunk_count s)) (s_merkle_proofs s) \<noteq> None"
      "release_array env ?t ParityBlock ParityArray (parity_count ?t) (s_fec_parity s) \<noteq> None"
    using assms(1) by (auto simp: release_array_def arrays_ok_def parity_count_def split: option.splits)
  have recv: "release_array env ?t RecvBlock RecvArray (unat (s_chunk_count s)) (Some buffers) =
      Some (map (\<lambda>i. Release (RecvBlock i) (surface_free_ptr env ?t True)) (filter (\<lambda>i. buffers ! i \<noteq> None) [0..<unat (s_chunk_count s)])
        @ [Release RecvArray (surface_free_ptr env ?t True)])"
    using assms(4) by (simp add: release_array_def)
  have "\<exists>acts. rgtp_destroy_surface env (Some ?t) = Some acts \<and>
      {RecvArray, RecvSizeArray} \<union> RecvBlock ` {i. i < length buffers \<and> buffers ! i \<noteq> None} \<subseteq> set (released acts)"
    using ok recv assms(3,4) by (auto simp: rgtp_destroy_surface_def Let_def release_block_def)
  then show thesis using that set by blast
qed

end
