(* ===== verification/Rgtp_Format.thy ===== *)
theory Rgtp_Format
  imports Rgtp_Float
begin

text \<open>
  The parts of the C library that turn numbers into text and text into numbers, as far as the
  sources use them: the conversions \<^verbatim>\<open>%u\<close>, \<^verbatim>\<open>%d\<close>,
  \<^verbatim>\<open>%0nd\<close>, \<^verbatim>\<open>%.nf\<close>, \<^verbatim>\<open>%g\<close> and
  \<^verbatim>\<open>%02x\<close> of \<^verbatim>\<open>printf\<close>, the truncation of
  \<^verbatim>\<open>snprintf\<close>, \<^verbatim>\<open>atoi\<close>, \<^verbatim>\<open>%2x\<close>
  of \<^verbatim>\<open>sscanf\<close>, and the searches of \<^verbatim>\<open>string.h\<close>.  A C
  string is the list of its characters before the terminator.
\<close>

text \<open>Seconds and nanoseconds.\<close>

type_synonym timespec = "int \<times> int"

subsection \<open>Printing\<close>

definition digit :: "nat \<Rightarrow> char" where
  "digit n = char_of (48 + n)"

fun fmt_u :: "nat \<Rightarrow> string" where
  "fmt_u n = (if n < 10 then [digit n] else fmt_u (n div 10) @ [digit (n mod 10)])"

declare fmt_u.simps [simp del]

definition fmt_d :: "int \<Rightarrow> string" where
  "fmt_d i = (if i < 0 then ''-'' else '''') @ fmt_u (nat \<bar>i\<bar>)"

text \<open>A number with exactly \<open>k\<close> digits, its last ones.\<close>

definition last_digits :: "nat \<Rightarrow> nat \<Rightarrow> string" where
  "last_digits k n = map (\<lambda>i. digit (n div 10 ^ (k - Suc i) mod 10)) [0..<k]"

text \<open>Zero padding to a width: the sign counts.\<close>

definition fmt_0d :: "nat \<Rightarrow> int \<Rightarrow> string" where
  "fmt_0d k i = (let u = fmt_u (nat \<bar>i\<bar>); s = (if i < 0 then ''-'' else '''') in
     s @ replicate (k - (length s + length u)) (digit 0) @ u)"

text \<open>Rounding to the nearest, ties to even.\<close>

definition round_even :: "rat \<Rightarrow> nat" where
  "round_even x = (let n = nat \<lfloor>x\<rfloor>; r = x - of_nat n in
     if r < 1 / 2 \<or> (r = 1 / 2 \<and> even n) then n else n + 1)"

fun fmt_f :: "nat \<Rightarrow> flt \<Rightarrow> string" where
  "fmt_f d (Fin x) =
    (let h = round_even (\<bar>x\<bar> * 10 ^ d) in
     (if x < 0 then ''-'' else '''') @ fmt_u (h div 10 ^ d) @ (if d = 0 then '''' else ''.'' @ last_digits d h))"
| "fmt_f d PInf = ''inf''"
| "fmt_f d NInf = ''-inf''"
| "fmt_f d NaN = ''nan''"

text \<open>\<^verbatim>\<open>%g\<close>: six significant digits, trailing zeros removed, the
  exponential form for exponents below \<open>-4\<close> or from 6 on.  The exponent of a positive
  number below 1 is searched; those of the type \<^verbatim>\<open>double\<close> are above
  \<open>-400\<close>.\<close>

definition exponent10 :: "rat \<Rightarrow> int" where
  "exponent10 x = (if 1 \<le> x then int (length (fmt_u (nat \<lfloor>x\<rfloor>))) - 1
     else (case find (\<lambda>k. 1 \<le> x * 10 ^ k) [1..<400] of Some k \<Rightarrow> - int k | None \<Rightarrow> - 400))"

definition strip_zeros :: "string \<Rightarrow> string" where
  "strip_zeros s = rev (dropWhile (\<lambda>c. c = CHR ''0'') (rev s))"

definition with_fraction :: "string \<Rightarrow> string \<Rightarrow> string" where
  "with_fraction i f = i @ (let g = strip_zeros f in if g = '''' then '''' else ''.'' @ g)"

fun fmt_g :: "flt \<Rightarrow> string" where
  "fmt_g (Fin x) =
    (if x = 0 then ''0''
     else
       (let y = \<bar>x\<bar>; e0 = exponent10 y;
            m0 = round_even (if e0 \<le> 5 then y * 10 ^ nat (5 - e0) else y / 10 ^ nat (e0 - 5));
            (e, m) = (if m0 = 1000000 then (e0 + 1, 100000) else (e0, m0)) in
        (if x < 0 then ''-'' else '''') @
        (if e < - 4 \<or> 6 \<le> e then
           with_fraction (fmt_u (m div 100000)) (last_digits 5 m) @ ''e'' @ (if e < 0 then ''-'' else ''+'') @
             (if \<bar>e\<bar> < 10 then ''0'' else '''') @ fmt_u (nat \<bar>e\<bar>)
         else (let d = nat (5 - e) in with_fraction (fmt_u (m div 10 ^ d)) (last_digits d m)))))"
| "fmt_g PInf = ''inf''"
| "fmt_g NInf = ''-inf''"
| "fmt_g NaN = ''nan''"

definition hex_digit :: "nat \<Rightarrow> char" where
  "hex_digit n = ''0123456789abcdef'' ! n"

definition fmt_02x :: "u8 \<Rightarrow> string" where
  "fmt_02x b = [hex_digit (unat b div 16), hex_digit (unat b mod 16)]"

text \<open>\<^verbatim>\<open>%016llx\<close>.\<close>

definition fmt_016x :: "u64 \<Rightarrow> string" where
  "fmt_016x w = map (\<lambda>i. hex_digit (unat w div 16 ^ (15 - i) mod 16)) [0..<16]"

text \<open>The text that \<^verbatim>\<open>snprintf\<close> leaves in a buffer of
  \<open>n\<close> characters, one of them the terminator.\<close>

definition snprintf_text :: "nat \<Rightarrow> string \<Rightarrow> string" where
  "snprintf_text n s = take (n - 1) s"

definition newline :: string where
  "newline = [CHR 0x0A]"

subsection \<open>Reading\<close>

definition is_space :: "char \<Rightarrow> bool" where
  "is_space c \<longleftrightarrow> (let n = of_char c :: nat in n = 32 \<or> (9 \<le> n \<and> n \<le> 13))"

definition is_digit :: "char \<Rightarrow> bool" where
  "is_digit c \<longleftrightarrow> (let n = of_char c :: nat in 48 \<le> n \<and> n \<le> 57)"

definition digit_val :: "char \<Rightarrow> nat" where
  "digit_val c = of_char c - 48"

definition dec_val :: "string \<Rightarrow> nat" where
  "dec_val s = foldl (\<lambda>n c. n * 10 + digit_val c) 0 s"

fun split_sign :: "string \<Rightarrow> bool \<times> string" where
  "split_sign (c # s) = (if c = CHR ''-'' then (True, s) else if c = CHR ''+'' then (False, s) else (False, c # s))"
| "split_sign [] = (False, [])"

text \<open>\<^verbatim>\<open>atoi\<close>, undefined when the value is no
  \<^verbatim>\<open>int\<close>.\<close>

definition atoi :: "string \<Rightarrow> int option" where
  "atoi s = (let (neg, t) = split_sign (dropWhile is_space s); v = int (dec_val (takeWhile is_digit t)); r = (if neg then - v else v) in
     if - (2 ^ 31) \<le> r \<and> r < 2 ^ 31 then Some r else None)"

definition hex_val :: "char \<Rightarrow> nat option" where
  "hex_val c = (let n = of_char c :: nat in
     if 48 \<le> n \<and> n \<le> 57 then Some (n - 48)
     else if 97 \<le> n \<and> n \<le> 102 then Some (n - 87)
     else if 65 \<le> n \<and> n \<le> 70 then Some (n - 55) else None)"

text \<open>The conversion \<^verbatim>\<open>%2x\<close>: white space is skipped, then at most
  two characters are taken: a sign, a prefix \<^verbatim>\<open>0x\<close> and digits.  Without a digit
  there is no conversion; a negative value wraps around.\<close>

definition scan_2x :: "string \<Rightarrow> u32 option" where
  "scan_2x s =
    (let (neg, t) = split_sign (take 2 (dropWhile is_space s)); ds = takeWhile (\<lambda>c. hex_val c \<noteq> None) t;
         v = foldl (\<lambda>n c. n * 16 + (case hex_val c of Some d \<Rightarrow> d | None \<Rightarrow> 0)) 0 ds in
     if ds = [] \<or> t = ''0x'' \<or> t = ''0X'' then None
     else Some (if neg then - word_of_nat v else word_of_nat v))"

subsection \<open>Searching\<close>

definition strchr :: "string \<Rightarrow> char \<Rightarrow> nat option" where
  "strchr s c = find (\<lambda>i. s ! i = c) [0..<length s]"

definition strrchr :: "string \<Rightarrow> char \<Rightarrow> nat option" where
  "strrchr s c = find (\<lambda>i. s ! i = c) (rev [0..<length s])"

definition strstr :: "string \<Rightarrow> string \<Rightarrow> nat option" where
  "strstr s t = find (\<lambda>i. take (length t) (drop i s) = t) [0..<Suc (length s)]"

subsection \<open>Facts\<close>

lemma of_char_digit: "n < 10 \<Longrightarrow> of_char (digit n) = 48 + n"
  by (simp add: digit_def)

lemma digit_simps: "n < 10 \<Longrightarrow> is_digit (digit n)" "n < 10 \<Longrightarrow> digit_val (digit n) = n"
  by (simp_all add: is_digit_def digit_val_def of_char_digit Let_def)

lemma dec_val_append: "dec_val (s @ [c]) = dec_val s * 10 + digit_val c"
  by (simp add: dec_val_def)

lemma fmt_u_digits: "list_all is_digit (fmt_u n)"
  by (induction n rule: fmt_u.induct) (subst fmt_u.simps, simp add: digit_simps)

lemma dec_val_fmt_u [simp]: "dec_val (fmt_u n) = n"
proof (induction n rule: fmt_u.induct)
  case (1 n)
  then show ?case by (subst fmt_u.simps) (simp add: dec_val_append dec_val_def digit_simps)
qed

lemma fmt_u_inj: "fmt_u m = fmt_u n \<Longrightarrow> m = n"
  by (metis dec_val_fmt_u)

lemma fmt_u_nonempty [simp]: "fmt_u n \<noteq> []"
  by (subst fmt_u.simps) simp

lemma length_fmt_u: "n < 10 ^ k \<Longrightarrow> 0 < k \<Longrightarrow> length (fmt_u n) \<le> k"
proof (induction n arbitrary: k rule: fmt_u.induct)
  case (1 n)
  show ?case
  proof (cases "n < 10")
    case False
    then obtain j where j: "k = Suc j" "0 < j" using "1.prems" by (cases k; cases "k - 1") auto
    have "n div 10 < 10 ^ j" using "1.prems" j by (simp add: less_mult_imp_div_less mult.commute)
    then show ?thesis using "1.IH" False j by (subst fmt_u.simps) simp
  qed (use "1.prems" in \<open>subst fmt_u.simps, simp\<close>)
qed

lemma digit_no_sign: "is_digit c \<Longrightarrow> c \<noteq> CHR ''-'' \<and> c \<noteq> CHR ''+'' \<and> \<not> is_space c"
  by (auto simp: is_digit_def is_space_def Let_def)

text \<open>\<^verbatim>\<open>atoi\<close> reads back what \<^verbatim>\<open>%d\<close> printed, up to
  the first character that is no digit.\<close>

lemma takeWhile_digits: "takeWhile is_digit (fmt_u n @ r) = fmt_u n @ takeWhile is_digit r"
  using fmt_u_digits [of n] by (intro takeWhile_append2) (simp add: list_all_iff)

lemma atoi_fmt_d:
  assumes "- (2 ^ 31) \<le> i" "i < 2 ^ 31" "takeWhile is_digit r = []"
  shows "atoi (fmt_d i @ r) = Some i"
proof (cases "i < 0")
  case True
  then show ?thesis using assms by (simp add: atoi_def fmt_d_def is_space_def takeWhile_digits)
next
  case False
  obtain c t where ct: "fmt_u (nat \<bar>i\<bar>) = c # t" by (cases "fmt_u (nat \<bar>i\<bar>)") auto
  then have "is_digit c" using fmt_u_digits [of "nat \<bar>i\<bar>"] by simp
  then have s: "split_sign (dropWhile is_space (fmt_d i @ r)) = (False, fmt_u (nat \<bar>i\<bar>) @ r)"
    using False ct digit_no_sign [of c] by (simp add: fmt_d_def)
  show ?thesis using assms False by (simp add: atoi_def s takeWhile_digits)
qed

text \<open>\<^verbatim>\<open>%2x\<close> reads back what \<^verbatim>\<open>%02x\<close> printed,
  whatever follows.\<close>

lemma hex_digit_facts:
  assumes "n < 16"
  shows "hex_val (hex_digit n) = Some n" "\<not> is_space (hex_digit n)"
    "hex_digit n \<notin> {CHR ''-'', CHR ''+'', CHR ''x'', CHR ''X''}"
proof -
  have "n \<in> set [0..<16]" using assms by simp
  moreover have "\<forall>n \<in> set [0..<16]. hex_val (hex_digit n) = Some n \<and> \<not> is_space (hex_digit n) \<and>
      hex_digit n \<notin> set [CHR ''-'', CHR ''+'', CHR ''x'', CHR ''X'']"
    by code_simp
  ultimately show "hex_val (hex_digit n) = Some n" "\<not> is_space (hex_digit n)"
    "hex_digit n \<notin> {CHR ''-'', CHR ''+'', CHR ''x'', CHR ''X''}" by auto
qed

lemma scan_fmt_02x: "scan_2x (fmt_02x b @ r) = Some (ucast b)"
proof -
  have "unat b < 256" using unsigned_less [of b] by simp
  then have "unat b div 16 < 16" "unat b mod 16 < 16" by simp_all
  note h = hex_digit_facts [OF this(1)] hex_digit_facts [OF this(2)]
  have "word_of_nat (unat b div 16 * 16 + unat b mod 16) = (ucast b :: u32)" by (simp add: unsigned_ucast_eq del: of_nat_add)
  then show ?thesis using h by (auto simp: scan_2x_def fmt_02x_def)
qed

lemma find_append: "find P (xs @ ys) = (case find P xs of None \<Rightarrow> find P ys | Some x \<Rightarrow> Some x)"
  by (induction xs) simp_all

lemma strrchr_split:
  assumes "c \<notin> set t"
  shows "strrchr (s @ c # t) c = Some (length s)"
proof -
  have "rev [0..<length (s @ c # t)] = rev [Suc (length s)..<length (s @ c # t)] @ length s # rev [0..<length s]"
    using upt_add_eq_append [of 0 "length s" "Suc (length t)"] by (auto simp: upt_rec [of "length s"] Suc_le_eq)
  moreover have "find (\<lambda>i. (s @ c # t) ! i = c) (rev [Suc (length s)..<length (s @ c # t)]) = None"
  proof -
    have "(s @ c # t) ! i \<noteq> c" if "Suc (length s) \<le> i" "i < length (s @ c # t)" for i
      using assms that nth_mem [of "i - Suc (length s)" t] by (auto simp: nth_append nth_Cons')
    then show ?thesis unfolding find_None_iff set_rev set_upt by auto
  qed
  ultimately show ?thesis unfolding strrchr_def by (simp only: find_append option.case find.simps) simp
qed

end
