(* ===== verification/Rgtp_Observability.thy ===== *)
theory Rgtp_Observability
  imports Rgtp_RateLimit Rgtp_Format
begin

text \<open>
  Error messages, metrics, log events and trace spans:
  \<^verbatim>\<open>src/core/rgtp_error.c\<close>, and
  \<^verbatim>\<open>rgtp_metrics.c\<close>, \<^verbatim>\<open>rgtp_log.c\<close> and
  \<^verbatim>\<open>rgtp_otel.c\<close> of \<^verbatim>\<open>src/observability\<close>.  The
  system clock is an argument, and what is written to \<^verbatim>\<open>stderr\<close> is a
  result.
\<close>

subsection \<open>Error messages\<close>

definition rgtp_strerror :: "int \<Rightarrow> string" where
  "rgtp_strerror e =
    (if e = 0 then ''Success''
     else if e = rgtp_error_code RGTP_ERR_NOMEM then ''Memory allocation failed''
     else if e = rgtp_error_code RGTP_ERR_INVALID_ARG then ''Invalid argument (NULL pointer or out-of-range value)''
     else if e = rgtp_error_code RGTP_ERR_SOCKET then ''Socket operation failed''
     else if e = rgtp_error_code RGTP_ERR_CRYPTO_INIT then ''Cryptographic library initialisation failed''
     else if e = rgtp_error_code RGTP_ERR_ENCRYPT then ''AEAD encryption failed''
     else if e = rgtp_error_code RGTP_ERR_DECRYPT then ''AEAD decryption failed''
     else if e = rgtp_error_code RGTP_ERR_AUTH_FAIL then ''AEAD authentication tag verification failed''
     else if e = rgtp_error_code RGTP_ERR_MERKLE_FAIL then ''Merkle proof verification failed''
     else if e = rgtp_error_code RGTP_ERR_FEC_FAIL then ''Reed-Solomon FEC decoding failed (too many erasures)''
     else if e = rgtp_error_code RGTP_ERR_TRUNCATED then ''Packet truncated: declared length exceeds received bytes''
     else if e = rgtp_error_code RGTP_ERR_CHUNK_INDEX_OOB then ''Chunk index out of bounds (>= chunk_count)''
     else if e = rgtp_error_code RGTP_ERR_TIMEOUT then ''Operation timed out''
     else if e = rgtp_error_code RGTP_ERR_RATE_LIMITED then ''Pull request rate limit exceeded''
     else if e = rgtp_error_code RGTP_ERR_NOT_SUPPORTED then ''Feature not supported on this platform or build configuration''
     else if e = rgtp_error_code RGTP_ERR_INTERNAL then ''Internal invariant violation (this is a bug)''
     else ''Unknown error code'')"

text \<open>Every code has a message of its own, and the unknown codes another.\<close>

lemma strerror_distinct: "distinct (map rgtp_strerror [-16..0])"
  by code_simp

subsection \<open>Metrics\<close>

text \<open>Atomic additions wrap around; a signed field is the word that holds it.\<close>

definition rgtp_metrics_counter_add :: "u64 option \<Rightarrow> u64 \<Rightarrow> u64 option" where
  "rgtp_metrics_counter_add c delta = map_option (\<lambda>v. v + delta) c"

definition rgtp_metrics_counter_get :: "u64 option \<Rightarrow> u64" where
  "rgtp_metrics_counter_get c = (case c of Some v \<Rightarrow> v | None \<Rightarrow> 0)"

text \<open>The conversion of a \<^verbatim>\<open>double\<close> to
  \<^verbatim>\<open>int64_t\<close>, undefined out of range.\<close>

fun flt_to_s64 :: "flt \<Rightarrow> 64 word option" where
  "flt_to_s64 (Fin x) = (if - (2 ^ 63) \<le> trunc x \<and> trunc x < 2 ^ 63 then Some (word_of_int (trunc x)) else None)"
| "flt_to_s64 _ = None"

definition micros :: "flt \<Rightarrow> 64 word option" where
  "micros v = flt_to_s64 (f_mul f64 v (Fin 1000000))"

definition rgtp_metrics_gauge_set :: "64 word option \<Rightarrow> flt \<Rightarrow> 64 word option option" where
  "rgtp_metrics_gauge_set g value = (case g of None \<Rightarrow> Some None | Some v \<Rightarrow> map_option Some (micros value))"

definition rgtp_metrics_gauge_add :: "64 word option \<Rightarrow> flt \<Rightarrow> 64 word option option" where
  "rgtp_metrics_gauge_add g delta = (case g of None \<Rightarrow> Some None | Some v \<Rightarrow> map_option (\<lambda>d. Some (v + d)) (micros delta))"

definition rgtp_metrics_gauge_get :: "64 word option \<Rightarrow> flt" where
  "rgtp_metrics_gauge_get g = (case g of None \<Rightarrow> Fin 0 | Some v \<Rightarrow> f_div f64 (to_flt f64 (of_int (sint v))) (Fin 1000000))"

record rgtp_histogram =
  h_count :: u64
  h_sum_micros :: "64 word"
  h_buckets :: "u64 list"

definition RTT_BUCKETS :: "flt list" where
  "RTT_BUCKETS = map (to_flt f64) [1 / 10000, 1 / 1000, 1 / 100, 1 / 10, 1]"

definition histogram_add :: "flt \<Rightarrow> rgtp_histogram \<Rightarrow> rgtp_histogram option" where
  "histogram_add value h = do {
     v_micros \<leftarrow> micros value;
     if length (h_buckets h) < 5 then None
     else Some (h\<lparr>h_count := h_count h + 1, h_sum_micros := h_sum_micros h + v_micros,
       h_buckets := fold (\<lambda>i b. if f_le value (RTT_BUCKETS ! i) then b[i := b ! i + 1] else b) [0..<5] (h_buckets h)\<rparr>)}"

definition rgtp_metrics_histogram_observe :: "rgtp_histogram option \<Rightarrow> flt \<Rightarrow> rgtp_histogram option option" where
  "rgtp_metrics_histogram_observe h value =
    (case h of None \<Rightarrow> Some None | Some h \<Rightarrow> map_option Some (histogram_add value h))"

text \<open>The registry after \<^verbatim>\<open>rgtp_metrics_init\<close>.\<close>

record rgtp_metrics =
  bytes_sent_total :: u64
  bytes_received_total :: u64
  chunks_sent_total :: u64
  chunks_received_total :: u64
  fec_parity_chunks_total :: u64
  auth_failures_total :: u64
  malformed_packets_total :: u64
  active_exposures :: "64 word"
  active_pullers :: "64 word"
  packet_loss_rate :: "64 word"
  throughput_bps :: "64 word"
  rtt_histogram :: rgtp_histogram

definition zero_histogram :: rgtp_histogram where
  "zero_histogram = \<lparr>h_count = 0, h_sum_micros = 0, h_buckets = replicate 6 0\<rparr>"

definition rgtp_metrics_init :: rgtp_metrics where
  "rgtp_metrics_init = \<lparr>bytes_sent_total = 0, bytes_received_total = 0, chunks_sent_total = 0, chunks_received_total = 0,
     fec_parity_chunks_total = 0, auth_failures_total = 0, malformed_packets_total = 0, active_exposures = 0,
     active_pullers = 0, packet_loss_rate = 0, throughput_bps = 0, rtt_histogram = zero_histogram\<rparr>"

subsection \<open>The scrape\<close>

definition help_lines :: "string \<Rightarrow> string \<Rightarrow> string \<Rightarrow> string list" where
  "help_lines name kind help =
    [''# HELP '' @ name @ '' '' @ help @ newline, ''# TYPE '' @ name @ '' '' @ kind @ newline]"

definition counter_lines :: "string \<Rightarrow> string \<Rightarrow> u64 \<Rightarrow> string list" where
  "counter_lines name help v =
    help_lines name ''counter'' help @ [name @ '' '' @ fmt_u (unat (rgtp_metrics_counter_get (Some v))) @ newline]"

definition gauge_lines :: "(flt \<Rightarrow> string) \<Rightarrow> string \<Rightarrow> string \<Rightarrow> 64 word \<Rightarrow> string list" where
  "gauge_lines fmt name help v =
    help_lines name ''gauge'' help @ [name @ '' '' @ fmt (rgtp_metrics_gauge_get (Some v)) @ newline]"

definition histogram_lines :: "rgtp_histogram \<Rightarrow> string list" where
  \<open>histogram_lines h =
    help_lines ''rgtp_rtt_seconds'' ''histogram'' ''Round-trip time histogram'' @
    map (\<lambda>i. ''rgtp_rtt_seconds_bucket{le="'' @ fmt_g (RTT_BUCKETS ! i) @ ''"} '' @ fmt_u (unat (h_buckets h ! i)) @ newline) [0..<5] @
    [''rgtp_rtt_seconds_bucket{le="+Inf"} '' @ fmt_u (unat (h_count h)) @ newline,
     ''rgtp_rtt_seconds_sum '' @ fmt_g (f_div f64 (to_flt f64 (of_int (sint (h_sum_micros h)))) (Fin 1000000)) @ newline,
     ''rgtp_rtt_seconds_count '' @ fmt_u (unat (h_count h)) @ newline]\<close>

definition scrape_lines :: "rgtp_metrics \<Rightarrow> string list" where
  "scrape_lines m =
    counter_lines ''rgtp_bytes_sent_total'' ''Total bytes sent by exposers'' (bytes_sent_total m) @
    counter_lines ''rgtp_bytes_received_total'' ''Total bytes received by pullers'' (bytes_received_total m) @
    counter_lines ''rgtp_chunks_sent_total'' ''Total chunks sent'' (chunks_sent_total m) @
    counter_lines ''rgtp_chunks_received_total'' ''Total chunks received'' (chunks_received_total m) @
    counter_lines ''rgtp_auth_failures_total'' ''AEAD authentication failures'' (auth_failures_total m) @
    counter_lines ''rgtp_malformed_packets_total'' ''Packets discarded by parser'' (malformed_packets_total m) @
    gauge_lines (fmt_f 0) ''rgtp_active_exposures'' ''Number of active exposures'' (active_exposures m) @
    gauge_lines (fmt_f 0) ''rgtp_active_pullers'' ''Number of active pullers'' (active_pullers m) @
    gauge_lines fmt_g ''rgtp_packet_loss_rate'' ''Current packet loss rate'' (packet_loss_rate m) @
    gauge_lines fmt_g ''rgtp_throughput_bytes_per_second'' ''Current throughput'' (throughput_bps m) @
    histogram_lines (rtt_histogram m)"

text \<open>The macro \<^verbatim>\<open>APPEND\<close> for every line: the result of the function
  and the string in the buffer.  A negative number of remaining characters becomes a large
  unsigned size.\<close>

fun scrape_append :: "string list \<Rightarrow> string \<Rightarrow> int \<Rightarrow> int \<times> string" where
  "scrape_append [] written remaining = (int (length written), written)"
| "scrape_append (l # ls) written remaining =
    (if remaining \<le> int (length l) then (- 1, written @ (if remaining < 0 then l else snprintf_text (nat remaining) l))
     else scrape_append ls (written @ l) (remaining - int (length l)))"

definition rgtp_metrics_scrape :: "rgtp_metrics \<Rightarrow> bool \<Rightarrow> u64 \<Rightarrow> int \<times> string option" where
  "rgtp_metrics_scrape m buf buf_size =
    (if \<not> buf \<or> buf_size = 0 then (- 1, None)
     else map_prod id Some (scrape_append (scrape_lines m) [] (sint (ucast buf_size :: u32))))"

lemma scrape_append_fits:
  "int (length (concat ls)) < n \<Longrightarrow> scrape_append ls w n = (int (length w + length (concat ls)), w @ concat ls)"
  by (induction ls arbitrary: w n) simp_all

lemma scrape_append_full:
  assumes "0 < n" "n \<le> int (length (concat ls))"
  shows "scrape_append ls w n = (- 1, w @ take (nat n - 1) (concat ls))"
  using assms
proof (induction ls arbitrary: w n)
  case (Cons l ls)
  show ?case
  proof (cases "n \<le> int (length l)")
    case False
    then have "scrape_append ls (w @ l) (n - int (length l)) = (- 1, (w @ l) @ take (nat (n - int (length l)) - 1) (concat ls))"
      using Cons by simp
    then show ?thesis using False by (simp add: nat_diff_distrib' diff_right_commute)
  qed (use Cons.prems in \<open>simp add: snprintf_text_def\<close>)
qed simp

text \<open>A scrape into a buffer of ordinary size returns the length of the text exactly when
  the text and its terminator fit, and never writes more than the buffer holds.\<close>

lemma scrape_exact:
  assumes "0 < unat buf_size" "unat buf_size < 2 ^ 31"
  shows "rgtp_metrics_scrape m True buf_size =
    (let t = concat (scrape_lines m) in
     if length t < unat buf_size then (int (length t), Some t) else (- 1, Some (take (unat buf_size - 1) t)))"
proof -
  have small: "uint buf_size < 2 ^ 31" using assms(2) unfolding uint_nat by (simp only: of_nat_less_numeral_power_cancel_iff)
  have "uint (ucast buf_size :: u32) = uint buf_size"
    unfolding unsigned_ucast_eq by (rule take_bit_int_eq_self) (use small in simp_all)
  moreover have "signed_take_bit 31 (uint buf_size) = uint buf_size"
  proof (rule signed_take_bit_int_eq_self)
    have "0 \<le> uint buf_size" by simp
    then show "- (2 ^ 31) \<le> uint buf_size" by (rule order_trans [rotated]) simp
  qed (rule small)
  ultimately have "sint (ucast buf_size :: u32) = uint buf_size"
    unfolding sint_uint by simp
  then have n: "sint (ucast buf_size :: u32) = int (unat buf_size)" by simp
  have "buf_size \<noteq> 0" using assms(1) by auto
  then have "rgtp_metrics_scrape m True buf_size = map_prod id Some (scrape_append (scrape_lines m) [] (int (unat buf_size)))"
    unfolding rgtp_metrics_scrape_def n by simp
  also have "\<dots> = (let t = concat (scrape_lines m) in
     if length t < unat buf_size then (int (length t), Some t) else (- 1, Some (take (unat buf_size - 1) t)))"
  proof (cases "length (concat (scrape_lines m)) < unat buf_size")
    case True
    then show ?thesis using scrape_append_fits [of "scrape_lines m" "int (unat buf_size)" "[]"] by (simp only: Let_def) simp
  next
    case False
    then show ?thesis
      using scrape_append_full [of "int (unat buf_size)" "scrape_lines m" "[]"] assms(1) by (simp only: Let_def) simp
  qed
  finally show ?thesis .
qed

subsection \<open>The histogram counts\<close>

lemma bucket_fold:
  fixes b :: "u64 list"
  assumes "n \<le> length b"
  shows "fold (\<lambda>i b. if P i then b[i := b ! i + 1] else b) [0..<n] b =
    map (\<lambda>i. b ! i + (if i < n \<and> P i then 1 else 0)) [0..<length b]"
  using assms
proof (induction n)
  case 0
  then show ?case by (simp add: map_nth)
next
  case (Suc n)
  let ?f = "\<lambda>i b. if P i then b[i := b ! i + 1] else b"
  have "fold ?f [0..<Suc n] b = ?f n (map (\<lambda>i. b ! i + (if i < n \<and> P i then 1 else 0)) [0..<length b])"
    using Suc by simp
  also have "\<dots> = map (\<lambda>i. b ! i + (if i < Suc n \<and> P i then 1 else 0)) [0..<length b]"
    by (rule nth_equalityI; cases "P n") (use Suc.prems in \<open>auto simp: nth_list_update less_Suc_eq\<close>)
  finally show ?case .
qed

text \<open>After any observations that can be converted, bucket \<open>i\<close> holds the
  number of values up to its bound, and the count their number.\<close>

lemma histogram_counts:
  assumes "\<forall>v \<in> set vs. micros v \<noteq> None"
  obtains h where "run_steps histogram_add vs zero_histogram = Some h"
    "h_count h = word_of_nat (length vs)" "length (h_buckets h) = 6"
    "\<forall>i < 5. h_buckets h ! i = word_of_nat (length (filter (\<lambda>v. f_le v (RTT_BUCKETS ! i)) vs))"
proof -
  have "\<exists>h'. run_steps histogram_add vs h = Some h' \<and> h_count h' = h_count h + word_of_nat (length vs) \<and> length (h_buckets h') = 6 \<and>
      (\<forall>i < 5. h_buckets h' ! i = h_buckets h ! i + word_of_nat (length (filter (\<lambda>v. f_le v (RTT_BUCKETS ! i)) vs)))"
    if "length (h_buckets h) = 6" for h
    using assms that
  proof (induction vs arbitrary: h)
    case (Cons v vs)
    obtain m where m: "micros v = Some m" using Cons.prems(1) by auto
    define g where "g = h\<lparr>h_count := h_count h + 1, h_sum_micros := h_sum_micros h + m,
      h_buckets := map (\<lambda>i. h_buckets h ! i + (if i < 5 \<and> f_le v (RTT_BUCKETS ! i) then 1 else 0)) [0..<length (h_buckets h)]\<rparr>"
    have "histogram_add v h = Some g"
      using m Cons.prems(2) bucket_fold [of 5 "h_buckets h" "\<lambda>i. f_le v (RTT_BUCKETS ! i)"]
      by (simp add: histogram_add_def g_def)
    moreover obtain h' where "run_steps histogram_add vs g = Some h'" "h_count h' = h_count g + word_of_nat (length vs)" "length (h_buckets h') = 6"
      "\<forall>i < 5. h_buckets h' ! i = h_buckets g ! i + word_of_nat (length (filter (\<lambda>v. f_le v (RTT_BUCKETS ! i)) vs))"
    proof -
      have "length (h_buckets g) = 6" using Cons.prems(2) by (simp add: g_def)
      then show ?thesis using that Cons.IH [of g] Cons.prems(1) by auto
    qed
    ultimately show ?case using Cons.prems(2) by (auto simp: g_def)
  qed simp
  from this [of zero_histogram] show thesis using that by (auto simp: zero_histogram_def)
qed

subsection \<open>Log events\<close>

record rgtp_log_event =
  ev_timestamp_ns :: u64
  ev_level :: int
  ev_component :: "string option"
  ev_message :: "string option"
  ev_kv :: "(string option \<times> string option) list"
  ev_kv_count :: int

fun level_str :: "int \<Rightarrow> string" where
  "level_str l = (if l = 0 then ''ERROR'' else if l = 1 then ''WARN '' else if l = 2 then ''INFO '' else if l = 3 then ''DEBUG'' else ''?????'')"

text \<open>The line that the default callback writes.\<close>

definition default_log_fn :: "rgtp_log_event \<Rightarrow> string" where
  "default_log_fn ev =
    ''[RGTP '' @ level_str (ev_level ev) @ ''] '' @ (case ev_component ev of Some c \<Rightarrow> c | None \<Rightarrow> ''rgtp'') @ '': '' @
    (case ev_message ev of Some c \<Rightarrow> c | None \<Rightarrow> []) @
    concat (map (\<lambda>(k, v). '' '' @ (case k of Some c \<Rightarrow> c | None \<Rightarrow> ''?'') @ ''='' @ (case v of Some c \<Rightarrow> c | None \<Rightarrow> []))
      (take (min (nat (ev_kv_count ev)) 8) (ev_kv ev))) @ newline"

definition log_timestamp_ns :: "timespec \<Rightarrow> u64" where
  "log_timestamp_ns ts = word_of_int (fst ts) * 1000000000 + word_of_int (snd ts)"

record log_state =
  g_log_fn :: bool
  g_log_level :: int

definition initial_log_state :: log_state where
  "initial_log_state = \<lparr>g_log_fn = False, g_log_level = 1\<rparr>"

definition rgtp_set_log_callback :: "bool \<Rightarrow> log_state \<Rightarrow> log_state" where
  "rgtp_set_log_callback fn st = st\<lparr>g_log_fn := fn\<rparr>"

definition rgtp_set_log_level :: "int \<Rightarrow> log_state \<Rightarrow> log_state" where
  "rgtp_set_log_level level st = st\<lparr>g_log_level := level\<rparr>"

text \<open>The event that is handed to a callback, if there is one, and whether the callback
  is the caller's.  The array of an event has 8 entries, cleared first.\<close>

definition rgtp_log_emit ::
    "log_state \<Rightarrow> timespec \<Rightarrow> int \<Rightarrow> string option \<Rightarrow> string option \<Rightarrow> (string option \<times> string option) list option \<Rightarrow> int \<Rightarrow>
      (bool \<times> rgtp_log_event) option option" where
  "rgtp_log_emit st now level component message kvs kv_count =
    (if level > g_log_level st then Some None
     else do {
       let n = (if kv_count < 8 then kv_count else 8);
       kv \<leftarrow> (if nat n = 0 then Some []
         else (case kvs of None \<Rightarrow> None | Some xs \<Rightarrow> if length xs < nat n then None else Some (take (nat n) xs)));
       Some (Some (g_log_fn st, \<lparr>ev_timestamp_ns = log_timestamp_ns now, ev_level = level, ev_component = component, ev_message = message,
         ev_kv = kv @ replicate (8 - length kv) (None, None), ev_kv_count = n\<rparr>))})"

lemma log_emit_fits:
  assumes "rgtp_log_emit st now level component message kvs kv_count = Some (Some (fn, ev))"
  shows "length (ev_kv ev) = 8" and "ev_kv_count ev \<le> 8" and "level \<le> g_log_level st"
  using assms by (auto simp: rgtp_log_emit_def Let_def split: if_splits option.splits Option.bind_splits)

subsection \<open>Trace spans\<close>

record rgtp_span =
  span_name :: string
  span_start_ns :: u64
  span_trace_id :: bytes
  span_id :: u64

text \<open>The functions with the build option \<open>otel\<close>; the address of the block is the
  result of \<^verbatim>\<open>malloc\<close>.  The trace identifier is kept as its 16
  bytes.\<close>

definition rgtp_otel_span_start :: "bool \<Rightarrow> u64 option \<Rightarrow> timespec \<Rightarrow> string option \<Rightarrow> bytes option \<Rightarrow> rgtp_span option" where
  "rgtp_otel_span_start otel addr now name trace_id =
    (if \<not> otel then None
     else
       (case addr of
          None \<Rightarrow> None
        | Some a \<Rightarrow>
            Some \<lparr>span_name = snprintf_text 64 (case name of Some s \<Rightarrow> s | None \<Rightarrow> ''unknown''),
              span_start_ns = log_timestamp_ns now,
              span_trace_id = (case trace_id of Some t \<Rightarrow> take 16 t | None \<Rightarrow> replicate 16 0),
              span_id = log_timestamp_ns now XOR a\<rparr>))"

text \<open>The line written with the option \<open>debug\<close>; the two halves of the
  identifier are integers of a little-endian host.\<close>

definition rgtp_otel_span_end :: "bool \<Rightarrow> timespec \<Rightarrow> rgtp_span option \<Rightarrow> string" where
  "rgtp_otel_span_end debug now handle =
    (case handle of
       None \<Rightarrow> []
     | Some s \<Rightarrow>
         if \<not> debug then []
         else ''[OTEL] span='' @ span_name s @ '' trace='' @ concat (map fmt_02x (rev (take 8 (span_trace_id s)))) @
           concat (map fmt_02x (rev (drop 8 (span_trace_id s)))) @ '' span_id='' @ fmt_016x (span_id s) @
           '' duration_ns='' @ fmt_u (unat (log_timestamp_ns now - span_start_ns s)) @ newline)"

end
