(* ===== verification/Rgtp_PerfMonitor.thy ===== *)
theory Rgtp_PerfMonitor
  imports Rgtp_RateLimit Rgtp_Flow Rgtp_Format
begin

text \<open>
  The performance monitor of \<^verbatim>\<open>analytics/perf_monitor.c\<close>: its
  configuration, its life cycle, the recording of events in a ring buffer with the
  counters, the log file, and the metrics and the reports.  The clock and the outcomes of
  allocating and of opening files are arguments, files are their contents, and the mutex
  is left out since the operations are sequential.
\<close>

subsection \<open>Data\<close>

datatype rgtp_event_type =
    RGTP_EVENT_TRANSFER_START | RGTP_EVENT_TRANSFER_END | RGTP_EVENT_PACKET_SENT | RGTP_EVENT_PACKET_RECEIVED
  | RGTP_EVENT_RETRANSMIT | RGTP_EVENT_CONGESTION_ADJUSTED | RGTP_EVENT_RTT_MEASURED | RGTP_EVENT_BANDWIDTH_ESTIMATED
  | RGTP_EVENT_ERROR_OCCURRED

record rgtp_event =
  e_type :: rgtp_event_type
  e_timestamp :: timespec
  e_transfer_id :: u64
  e_session_id :: u64
  e_chunk_id :: u32
  e_bytes :: u32
  e_value :: flt
  e_details :: string

record rgtp_performance_metrics =
  total_bytes_sent :: u64
  total_bytes_received :: u64
  total_packets_sent :: u64
  total_packets_received :: u64
  total_retransmissions :: u64
  total_errors :: u64
  start_time :: timespec
  end_time :: timespec
  total_duration_ms :: flt
  avg_throughput_mbps :: flt
  peak_throughput_mbps :: flt
  avg_rtt_ms :: flt
  min_rtt_ms :: flt
  max_rtt_ms :: flt
  pm_packet_loss_rate :: flt
  jitter_ms :: flt
  avg_rate_adjustments :: u32
  total_rate_decreases :: u32
  total_rate_increases :: u32
  peak_memory_usage_kb :: u32
  avg_memory_usage_kb :: u32
  cpu_utilization_percent :: flt

record rgtp_perf_config =
  enable_realtime_monitoring :: int
  enable_event_logging :: int
  enable_statistics_aggregation :: int
  log_level :: int
  log_file_path :: "string option"
  max_log_file_size_mb :: int
  flush_interval_ms :: int
  sample_interval_ms :: int

record rgtp_perf_monitor =
  m_config :: rgtp_perf_config
  m_running :: bool
  m_current :: rgtp_performance_metrics
  m_event_buffer :: "rgtp_event list option"
  m_event_buffer_size :: nat
  m_event_count :: nat
  m_event_index :: nat
  m_log_file :: "string option"

subsection \<open>Utilities\<close>

definition timespec_ms :: "timespec \<Rightarrow> flt" where
  "timespec_ms t = f_add f64 (f_mul f64 (to_flt f64 (of_int (fst t))) (Fin 1000)) (f_div f64 (to_flt f64 (of_int (snd t))) (Fin 1000000))"

definition rgtp_perf_timestamp_diff_ms :: "timespec \<Rightarrow> timespec \<Rightarrow> flt" where
  "rgtp_perf_timestamp_diff_ms start fin = f_sub f64 (timespec_ms fin) (timespec_ms start)"

definition rgtp_perf_generate_id :: "timespec \<Rightarrow> u64" where
  "rgtp_perf_generate_id ts = push_bit 32 (word_of_int (fst ts)) OR ucast (word_of_int (snd ts) :: u32)"

definition rgtp_perf_calculate_moving_avg :: "flt \<Rightarrow> flt \<Rightarrow> int \<Rightarrow> flt" where
  "rgtp_perf_calculate_moving_avg current_avg new_value sample_count =
    (if sample_count \<le> 1 then new_value
     else f_div f32 (f_add f32 (f_mul f32 current_avg (to_flt f32 (of_int (sample_count - 1)))) new_value)
       (to_flt f32 (of_int sample_count)))"

subsection \<open>Configuration\<close>

definition zero_perf_config :: rgtp_perf_config where
  "zero_perf_config = \<lparr>enable_realtime_monitoring = 0, enable_event_logging = 0, enable_statistics_aggregation = 0,
     log_level = 0, log_file_path = None, max_log_file_size_mb = 0, flush_interval_ms = 0, sample_interval_ms = 0\<rparr>"

definition rgtp_perf_config_set_defaults :: "rgtp_perf_config option \<Rightarrow> rgtp_perf_config option" where
  "rgtp_perf_config_set_defaults config = map_option (\<lambda>c. c\<lparr>enable_realtime_monitoring := 1, enable_event_logging := 1,
     enable_statistics_aggregation := 1, log_level := 3, log_file_path := None, max_log_file_size_mb := 10,
     flush_interval_ms := 1000, sample_interval_ms := 100\<rparr>) config"

definition rgtp_perf_config_init :: "rgtp_perf_config option \<Rightarrow> rgtp_perf_config option" where
  "rgtp_perf_config_init config = rgtp_perf_config_set_defaults (map_option (\<lambda>c. zero_perf_config) config)"

text \<open>The setters return the C result and the configuration.\<close>

definition rgtp_perf_config_set_log_level :: "rgtp_perf_config option \<Rightarrow> int \<Rightarrow> int \<times> rgtp_perf_config option" where
  "rgtp_perf_config_set_log_level config level =
    (case config of
       None \<Rightarrow> (- 1, config)
     | Some c \<Rightarrow> if level < 0 \<or> level > 4 then (- 1, config) else (0, Some (c\<lparr>log_level := level\<rparr>)))"

definition rgtp_perf_config_set_log_file :: "bool \<Rightarrow> rgtp_perf_config option \<Rightarrow> string option \<Rightarrow> int \<times> rgtp_perf_config option" where
  "rgtp_perf_config_set_log_file strdup_ok config path =
    (case (config, path) of
       (Some c, Some p) \<Rightarrow>
         if strdup_ok then (0, Some (c\<lparr>log_file_path := Some p\<rparr>)) else (- 1, Some (c\<lparr>log_file_path := None\<rparr>))
     | _ \<Rightarrow> (- 1, config))"

definition rgtp_perf_config_set_sample_interval :: "rgtp_perf_config option \<Rightarrow> int \<Rightarrow> int \<times> rgtp_perf_config option" where
  "rgtp_perf_config_set_sample_interval config interval_ms =
    (case config of
       None \<Rightarrow> (- 1, config)
     | Some c \<Rightarrow> if interval_ms \<le> 0 then (- 1, config) else (0, Some (c\<lparr>sample_interval_ms := interval_ms\<rparr>)))"

subsection \<open>Life cycle\<close>

definition zero_metrics :: rgtp_performance_metrics where
  "zero_metrics = \<lparr>total_bytes_sent = 0, total_bytes_received = 0, total_packets_sent = 0, total_packets_received = 0,
     total_retransmissions = 0, total_errors = 0, start_time = (0, 0), end_time = (0, 0), total_duration_ms = Fin 0,
     avg_throughput_mbps = Fin 0, peak_throughput_mbps = Fin 0, avg_rtt_ms = Fin 0, min_rtt_ms = Fin 0, max_rtt_ms = Fin 0,
     pm_packet_loss_rate = Fin 0, jitter_ms = Fin 0, avg_rate_adjustments = 0, total_rate_decreases = 0,
     total_rate_increases = 0, peak_memory_usage_kb = 0, avg_memory_usage_kb = 0, cpu_utilization_percent = Fin 0\<rparr>"

definition zero_event :: rgtp_event where
  "zero_event = \<lparr>e_type = RGTP_EVENT_TRANSFER_START, e_timestamp = (0, 0), e_transfer_id = 0, e_session_id = 0,
     e_chunk_id = 0, e_bytes = 0, e_value = Fin 0, e_details = ''''\<rparr>"

definition EVENT_BUFFER_SIZE :: nat where "EVENT_BUFFER_SIZE = 10000"

text \<open>The results of the allocations of the monitor, the path and the events, and of
  opening the log file.  The text of an open log file is what was appended to
  it.\<close>

definition rgtp_perf_monitor_create ::
    "bool \<Rightarrow> bool \<Rightarrow> bool \<Rightarrow> bool \<Rightarrow> timespec \<Rightarrow> rgtp_perf_config option \<Rightarrow> rgtp_perf_monitor option" where
  "rgtp_perf_monitor_create calloc_ok strdup_ok events_ok fopen_ok now config =
    (case config of
       None \<Rightarrow> None
     | Some c \<Rightarrow>
         if \<not> calloc_ok \<or> \<not> events_ok then None
         else Some \<lparr>m_config = c\<lparr>log_file_path := (if strdup_ok then log_file_path c else None)\<rparr>, m_running = False,
           m_current = zero_metrics\<lparr>start_time := now\<rparr>, m_event_buffer = Some (replicate EVENT_BUFFER_SIZE zero_event),
           m_event_buffer_size = EVENT_BUFFER_SIZE, m_event_count = 0, m_event_index = 0,
           m_log_file = (if strdup_ok \<and> log_file_path c \<noteq> None \<and> fopen_ok then Some [] else None)\<rparr>)"

definition rgtp_perf_monitor_start :: "timespec \<Rightarrow> rgtp_perf_monitor option \<Rightarrow> int \<times> rgtp_perf_monitor option" where
  "rgtp_perf_monitor_start now monitor =
    (case monitor of
       None \<Rightarrow> (- 1, monitor)
     | Some m \<Rightarrow>
         if m_running m then (- 1, monitor)
         else (0, Some (m\<lparr>m_running := True, m_current := (m_current m)\<lparr>start_time := now\<rparr>\<rparr>)))"

definition rgtp_perf_monitor_stop :: "timespec \<Rightarrow> rgtp_perf_monitor option \<Rightarrow> int \<times> rgtp_perf_monitor option" where
  "rgtp_perf_monitor_stop now monitor =
    (case monitor of
       None \<Rightarrow> (- 1, monitor)
     | Some m \<Rightarrow>
         if \<not> m_running m then (- 1, monitor)
         else (0, Some (m\<lparr>m_running := False, m_current := (m_current m)\<lparr>end_time := now,
           total_duration_ms := rgtp_perf_timestamp_diff_ms (start_time (m_current m)) now\<rparr>\<rparr>)))"

subsection \<open>Recording\<close>

definition store_event :: "rgtp_event \<Rightarrow> rgtp_perf_monitor \<Rightarrow> rgtp_perf_monitor option" where
  "store_event e m =
    (case m_event_buffer m of
       None \<Rightarrow> Some m
     | Some buf \<Rightarrow>
         if length buf \<le> m_event_index m \<or> m_event_buffer_size m = 0 then None
         else Some (m\<lparr>m_event_buffer := Some (buf[m_event_index m := e]),
           m_event_index := (m_event_index m + 1) mod m_event_buffer_size m,
           m_event_count := (if m_event_count m < m_event_buffer_size m then m_event_count m + 1 else m_event_count m)\<rparr>))"

fun event_code :: "rgtp_event_type \<Rightarrow> nat" where
  "event_code RGTP_EVENT_TRANSFER_START = 0"
| "event_code RGTP_EVENT_TRANSFER_END = 1"
| "event_code RGTP_EVENT_PACKET_SENT = 2"
| "event_code RGTP_EVENT_PACKET_RECEIVED = 3"
| "event_code RGTP_EVENT_RETRANSMIT = 4"
| "event_code RGTP_EVENT_CONGESTION_ADJUSTED = 5"
| "event_code RGTP_EVENT_RTT_MEASURED = 6"
| "event_code RGTP_EVENT_BANDWIDTH_ESTIMATED = 7"
| "event_code RGTP_EVENT_ERROR_OCCURRED = 8"

definition fmt_timespec :: "timespec \<Rightarrow> string" where
  "fmt_timespec t = fmt_d (fst t) @ ''.'' @ fmt_0d 9 (snd t)"

definition log_line :: "rgtp_event \<Rightarrow> string" where
  "log_line e = ''['' @ fmt_timespec (e_timestamp e) @ ''] EVENT_'' @ fmt_u (event_code (e_type e)) @
     '': transfer='' @ fmt_u (unat (e_transfer_id e)) @ '', session='' @ fmt_u (unat (e_session_id e)) @
     '', chunk='' @ fmt_u (unat (e_chunk_id e)) @ '', bytes='' @ fmt_u (unat (e_bytes e)) @
     '', value='' @ fmt_f 3 (e_value e) @ newline"

definition log_event :: "rgtp_event \<Rightarrow> rgtp_perf_monitor \<Rightarrow> rgtp_perf_monitor" where
  "log_event e m =
    (case m_log_file m of
       Some t \<Rightarrow> if 3 \<le> log_level (m_config m) then m\<lparr>m_log_file := Some (t @ log_line e)\<rparr> else m
     | None \<Rightarrow> m)"

definition rgtp_perf_record_event ::
    "rgtp_perf_monitor option \<Rightarrow> rgtp_event option \<Rightarrow> (int \<times> rgtp_perf_monitor option) option" where
  "rgtp_perf_record_event monitor event =
    (case (monitor, event) of
       (Some m, Some e) \<Rightarrow> map_option (\<lambda>m1. (0, Some (log_event e m1))) (store_event e m)
     | _ \<Rightarrow> Some (- 1, monitor))"

text \<open>An update of the metrics followed by the event.\<close>

definition record_with ::
    "(rgtp_performance_metrics \<Rightarrow> rgtp_performance_metrics) \<Rightarrow> rgtp_event \<Rightarrow> rgtp_perf_monitor option \<Rightarrow>
      (int \<times> rgtp_perf_monitor option) option" where
  "record_with upd e monitor =
    (case monitor of
       None \<Rightarrow> Some (- 1, monitor)
     | Some m \<Rightarrow> rgtp_perf_record_event (Some (m\<lparr>m_current := upd (m_current m)\<rparr>)) (Some e))"

definition start_event :: "timespec \<Rightarrow> u64 \<Rightarrow> u64 \<Rightarrow> u64 \<Rightarrow> rgtp_event" where
  "start_event now transfer_id session_id total_size =
    zero_event\<lparr>e_type := RGTP_EVENT_TRANSFER_START, e_timestamp := now, e_transfer_id := transfer_id, e_session_id := session_id,
      e_value := flt_of_nat f32 (unat total_size),
      e_details := snprintf_text 256 (''Starting transfer of '' @ fmt_u (unat total_size) @ '' bytes'')\<rparr>"

definition rgtp_perf_record_transfer_start ::
    "timespec \<Rightarrow> u64 \<Rightarrow> u64 \<Rightarrow> u64 \<Rightarrow> rgtp_perf_monitor option \<Rightarrow> (int \<times> rgtp_perf_monitor option) option" where
  "rgtp_perf_record_transfer_start now transfer_id session_id total_size = record_with id
    (start_event now transfer_id session_id total_size)"

definition end_event :: "timespec \<Rightarrow> u64 \<Rightarrow> u64 \<Rightarrow> bool \<Rightarrow> rgtp_event" where
  "end_event now transfer_id session_id success =
    zero_event\<lparr>e_type := RGTP_EVENT_TRANSFER_END, e_timestamp := now, e_transfer_id := transfer_id, e_session_id := session_id,
      e_value := (if success then Fin 1 else Fin 0),
      e_details := snprintf_text 256 (''Transfer ended: '' @ (if success then ''SUCCESS'' else ''FAILED''))\<rparr>"

definition rgtp_perf_record_transfer_end ::
    "timespec \<Rightarrow> u64 \<Rightarrow> u64 \<Rightarrow> bool \<Rightarrow> rgtp_perf_monitor option \<Rightarrow> (int \<times> rgtp_perf_monitor option) option" where
  "rgtp_perf_record_transfer_end now transfer_id session_id success = record_with id
    (end_event now transfer_id session_id success)"

definition sent_event :: "timespec \<Rightarrow> u64 \<Rightarrow> u32 \<Rightarrow> u32 \<Rightarrow> rgtp_event" where
  "sent_event now transfer_id chunk_id sz =
    zero_event\<lparr>e_type := RGTP_EVENT_PACKET_SENT, e_timestamp := now, e_transfer_id := transfer_id, e_chunk_id := chunk_id,
      e_bytes := sz, e_value := flt_of_u32 sz,
      e_details := snprintf_text 256 (''Packet sent: chunk '' @ fmt_u (unat chunk_id) @ '', '' @ fmt_u (unat sz) @ '' bytes'')\<rparr>"

definition sent_update :: "u32 \<Rightarrow> rgtp_performance_metrics \<Rightarrow> rgtp_performance_metrics" where
  "sent_update sz c =
    (c\<lparr>total_bytes_sent := total_bytes_sent c + ucast sz, total_packets_sent := total_packets_sent c + 1\<rparr>)"

definition rgtp_perf_record_packet_sent ::
    "timespec \<Rightarrow> u64 \<Rightarrow> u32 \<Rightarrow> u32 \<Rightarrow> rgtp_perf_monitor option \<Rightarrow> (int \<times> rgtp_perf_monitor option) option" where
  "rgtp_perf_record_packet_sent now transfer_id chunk_id sz = record_with (sent_update sz)
    (sent_event now transfer_id chunk_id sz)"

definition received_event :: "timespec \<Rightarrow> u64 \<Rightarrow> u32 \<Rightarrow> u32 \<Rightarrow> rgtp_event" where
  "received_event now transfer_id chunk_id sz =
    zero_event\<lparr>e_type := RGTP_EVENT_PACKET_RECEIVED, e_timestamp := now, e_transfer_id := transfer_id, e_chunk_id := chunk_id,
      e_bytes := sz, e_value := flt_of_u32 sz,
      e_details := snprintf_text 256 (''Packet received: chunk '' @ fmt_u (unat chunk_id) @ '', '' @ fmt_u (unat sz) @ '' bytes'')\<rparr>"

definition received_update :: "u32 \<Rightarrow> rgtp_performance_metrics \<Rightarrow> rgtp_performance_metrics" where
  "received_update sz c =
    (c\<lparr>total_bytes_received := total_bytes_received c + ucast sz, total_packets_received := total_packets_received c + 1\<rparr>)"

definition rgtp_perf_record_packet_received ::
    "timespec \<Rightarrow> u64 \<Rightarrow> u32 \<Rightarrow> u32 \<Rightarrow> rgtp_perf_monitor option \<Rightarrow> (int \<times> rgtp_perf_monitor option) option" where
  "rgtp_perf_record_packet_received now transfer_id chunk_id sz = record_with (received_update sz)
    (received_event now transfer_id chunk_id sz)"

definition retransmit_event :: "timespec \<Rightarrow> u64 \<Rightarrow> u32 \<Rightarrow> rgtp_event" where
  "retransmit_event now transfer_id chunk_id =
    zero_event\<lparr>e_type := RGTP_EVENT_RETRANSMIT, e_timestamp := now, e_transfer_id := transfer_id, e_chunk_id := chunk_id,
      e_value := Fin 1, e_details := snprintf_text 256 (''Retransmission: chunk '' @ fmt_u (unat chunk_id))\<rparr>"

definition retransmit_update :: "rgtp_performance_metrics \<Rightarrow> rgtp_performance_metrics" where
  "retransmit_update c =
    (c\<lparr>total_retransmissions := total_retransmissions c + 1\<rparr>)"

definition rgtp_perf_record_retransmit ::
    "timespec \<Rightarrow> u64 \<Rightarrow> u32 \<Rightarrow> rgtp_perf_monitor option \<Rightarrow> (int \<times> rgtp_perf_monitor option) option" where
  "rgtp_perf_record_retransmit now transfer_id chunk_id = record_with retransmit_update
    (retransmit_event now transfer_id chunk_id)"

definition rate_event :: "timespec \<Rightarrow> u64 \<Rightarrow> flt \<Rightarrow> flt \<Rightarrow> rgtp_event" where
  "rate_event now transfer_id old_rate new_rate =
    zero_event\<lparr>e_type := RGTP_EVENT_CONGESTION_ADJUSTED, e_timestamp := now, e_transfer_id := transfer_id, e_value := new_rate,
      e_details := snprintf_text 256 (''Rate adjusted: '' @ fmt_f 2 old_rate @ '' -> '' @ fmt_f 2 new_rate)\<rparr>"

definition rate_update :: "flt \<Rightarrow> flt \<Rightarrow> rgtp_performance_metrics \<Rightarrow> rgtp_performance_metrics" where
  "rate_update old_rate new_rate c =
    (let c = c\<lparr>avg_rate_adjustments := avg_rate_adjustments c + 1\<rparr> in
       if f_lt new_rate old_rate then c\<lparr>total_rate_decreases := total_rate_decreases c + 1\<rparr>
       else if f_lt old_rate new_rate then c\<lparr>total_rate_increases := total_rate_increases c + 1\<rparr>
       else c)"

definition rgtp_perf_record_congestion_adjustment ::
    "timespec \<Rightarrow> u64 \<Rightarrow> flt \<Rightarrow> flt \<Rightarrow> rgtp_perf_monitor option \<Rightarrow> (int \<times> rgtp_perf_monitor option) option" where
  "rgtp_perf_record_congestion_adjustment now transfer_id old_rate new_rate = record_with (rate_update old_rate new_rate)
    (rate_event now transfer_id old_rate new_rate)"

text \<open>The sample count that the average is given is the number of packets sent,
  converted to \<^verbatim>\<open>int\<close>.\<close>

definition rtt_update :: "flt \<Rightarrow> rgtp_performance_metrics \<Rightarrow> rgtp_performance_metrics" where
  "rtt_update rtt_ms c =
    (if avg_rtt_ms c = Fin 0 then c\<lparr>avg_rtt_ms := rtt_ms, min_rtt_ms := rtt_ms, max_rtt_ms := rtt_ms\<rparr>
     else c\<lparr>avg_rtt_ms := rgtp_perf_calculate_moving_avg (avg_rtt_ms c) rtt_ms (sint (ucast (total_packets_sent c) :: u32)),
       min_rtt_ms := (if f_lt rtt_ms (min_rtt_ms c) then rtt_ms else min_rtt_ms c),
       max_rtt_ms := (if f_lt (max_rtt_ms c) rtt_ms then rtt_ms else max_rtt_ms c)\<rparr>)"

definition rtt_event :: "timespec \<Rightarrow> u64 \<Rightarrow> flt \<Rightarrow> rgtp_event" where
  "rtt_event now transfer_id rtt_ms =
    zero_event\<lparr>e_type := RGTP_EVENT_RTT_MEASURED, e_timestamp := now, e_transfer_id := transfer_id, e_value := rtt_ms,
      e_details := snprintf_text 256 (''RTT measured: '' @ fmt_f 2 rtt_ms @ '' ms'')\<rparr>"

definition rgtp_perf_record_rtt_measurement ::
    "timespec \<Rightarrow> u64 \<Rightarrow> flt \<Rightarrow> rgtp_perf_monitor option \<Rightarrow> (int \<times> rgtp_perf_monitor option) option" where
  "rgtp_perf_record_rtt_measurement now transfer_id rtt_ms = record_with (rtt_update rtt_ms)
    (rtt_event now transfer_id rtt_ms)"

definition error_event :: "timespec \<Rightarrow> u64 \<Rightarrow> int \<Rightarrow> string \<Rightarrow> rgtp_event" where
  "error_event now transfer_id error_code msg =
    zero_event\<lparr>e_type := RGTP_EVENT_ERROR_OCCURRED, e_timestamp := now, e_transfer_id := transfer_id,
      e_value := to_flt f32 (of_int error_code),
      e_details := snprintf_text 256 (''Error '' @ fmt_d error_code @ '': '' @ msg)\<rparr>"

definition error_update :: "rgtp_performance_metrics \<Rightarrow> rgtp_performance_metrics" where
  "error_update c = c\<lparr>total_errors := total_errors c + 1\<rparr>"

definition rgtp_perf_record_error ::
    "timespec \<Rightarrow> u64 \<Rightarrow> int \<Rightarrow> string option \<Rightarrow> rgtp_perf_monitor option \<Rightarrow> (int \<times> rgtp_perf_monitor option) option" where
  "rgtp_perf_record_error now transfer_id error_code error_msg monitor =
    (case error_msg of
       None \<Rightarrow> Some (- 1, monitor)
     | Some msg \<Rightarrow> record_with error_update (error_event now transfer_id error_code msg) monitor)"

subsection \<open>Metrics and export\<close>

definition rgtp_perf_get_current_metrics :: "rgtp_perf_monitor option \<Rightarrow> bool \<Rightarrow> rgtp_performance_metrics option" where
  "rgtp_perf_get_current_metrics monitor metrics =
    (case monitor of
       None \<Rightarrow> None
     | Some m \<Rightarrow>
         if \<not> metrics then None
         else
           (let c = m_current m;
                c = (if f_lt (Fin 0) (total_duration_ms c)
                  then c\<lparr>avg_throughput_mbps := f_div f64 (f_mul f64 (flt_of_nat f64 (unat (total_bytes_sent c))) (Fin 8))
                    (f_mul f64 (total_duration_ms c) (Fin 1000))\<rparr> else c)
            in Some (if total_packets_sent c > 0
               then c\<lparr>pm_packet_loss_rate := f_div f32 (flt_of_nat f32 (unat (total_retransmissions c)))
                 (flt_of_nat f32 (unat (total_packets_sent c)))\<rparr> else c)))"

definition rgtp_perf_get_transfer_metrics :: "rgtp_perf_monitor option \<Rightarrow> u64 \<Rightarrow> bool \<Rightarrow> rgtp_performance_metrics option" where
  "rgtp_perf_get_transfer_metrics monitor transfer_id metrics = rgtp_perf_get_current_metrics monitor metrics"

definition rgtp_perf_get_session_metrics :: "rgtp_perf_monitor option \<Rightarrow> u64 \<Rightarrow> bool \<Rightarrow> rgtp_performance_metrics option" where
  "rgtp_perf_get_session_metrics monitor session_id metrics = rgtp_perf_get_current_metrics monitor metrics"

text \<open>The events that an export writes, in order; reading past the buffer is
  undefined.\<close>

definition export_events :: "rgtp_perf_monitor \<Rightarrow> rgtp_event list option" where
  "export_events m =
    (case m_event_buffer m of
       None \<Rightarrow> if m_event_count m = 0 then Some [] else None
     | Some buf \<Rightarrow>
         (let start = (if m_event_count m = m_event_buffer_size m then m_event_index m else 0) in
          those (map (\<lambda>i. let idx = (start + i) mod m_event_buffer_size m in
            if idx < length buf then Some (buf ! idx) else None) [0..<m_event_count m])))"

subsection \<open>Reports\<close>

text \<open>The values that all three reports print, in their order.\<close>

definition report_values :: "rgtp_performance_metrics \<Rightarrow> string list" where
  "report_values c =
    map (\<lambda>v. fmt_u (unat v)) [total_bytes_sent c, total_bytes_received c, total_packets_sent c, total_packets_received c,
       total_retransmissions c, total_errors c] @
    map (fmt_f 2) [total_duration_ms c, avg_throughput_mbps c, peak_throughput_mbps c, avg_rtt_ms c, min_rtt_ms c, max_rtt_ms c] @
    [fmt_f 4 (pm_packet_loss_rate c), fmt_f 2 (jitter_ms c)] @
    map (\<lambda>v. fmt_u (unat v)) [avg_rate_adjustments c, total_rate_decreases c, total_rate_increases c,
       peak_memory_usage_kb c, avg_memory_usage_kb c] @
    [fmt_f 2 (cpu_utilization_percent c)]"

definition csv_names :: "string list" where
  "csv_names = [''total_bytes_sent'', ''total_bytes_received'', ''total_packets_sent'', ''total_packets_received'',
     ''total_retransmissions'', ''total_errors'', ''total_duration_ms'', ''avg_throughput_mbps'', ''peak_throughput_mbps'',
     ''avg_rtt_ms'', ''min_rtt_ms'', ''max_rtt_ms'', ''packet_loss_rate'', ''jitter_ms'', ''rate_adjustments'',
     ''rate_decreases'', ''rate_increases'', ''peak_memory_kb'', ''avg_memory_kb'', ''cpu_utilization_percent'']"

definition csv_line :: "string \<times> string \<Rightarrow> string" where
  "csv_line kv = fst kv @ '','' @ snd kv @ newline"

definition rgtp_perf_format_csv_report :: "bool \<Rightarrow> rgtp_perf_monitor option \<Rightarrow> string option" where
  "rgtp_perf_format_csv_report malloc_ok monitor =
    (case rgtp_perf_get_current_metrics monitor True of
       None \<Rightarrow> None
     | Some c \<Rightarrow>
         if \<not> malloc_ok then None
         else Some (snprintf_text 1024 (''metric,value'' @ newline @ concat (map csv_line (zip csv_names (report_values c))))))"

text \<open>The fields of an object of the JSON report, and the object.\<close>

definition json_fields :: "(string \<times> string) list \<Rightarrow> string" where
  \<open>json_fields kvs = concat (map (\<lambda>i. ''    "'' @ fst (kvs ! i) @ ''": '' @ snd (kvs ! i) @
     (if i + 1 < length kvs then '','' else []) @ newline) [0..<length kvs])\<close>

definition json_object :: "string \<Rightarrow> (string \<times> string) list \<Rightarrow> string" where
  \<open>json_object name kvs = ''  "'' @ name @ ''": {'' @ newline @ json_fields kvs @ ''  }''\<close>

definition rgtp_perf_format_json_report :: "bool \<Rightarrow> int \<Rightarrow> rgtp_perf_monitor option \<Rightarrow> string option" where
  \<open>rgtp_perf_format_json_report malloc_ok now monitor =
    (case rgtp_perf_get_current_metrics monitor True of
       None \<Rightarrow> None
     | Some c \<Rightarrow>
         if \<not> malloc_ok then None
         else
           (let kvs = zip csv_names (report_values c) in
            Some (snprintf_text 2048
              (''{'' @ newline @
               ''  "report_type": "rgtp_performance",'' @ newline @
               ''  "timestamp": "'' @ fmt_d now @ ''",'' @ newline @
               json_object ''transfer_metrics'' (take 6 kvs) @ '','' @ newline @
               json_object ''performance_metrics'' (take 8 (drop 6 kvs)) @ '','' @ newline @
               json_object ''congestion_control'' (take 3 (drop 14 kvs)) @ '','' @ newline @
               json_object ''resource_utilization'' (drop 17 kvs) @ newline @
               ''}'' @ newline))))\<close>

definition report_labels :: "(string \<times> string) list" where
  "report_labels = [(''Total Bytes Sent'', []), (''Total Bytes Received'', []), (''Total Packets Sent'', []),
     (''Total Packets Received'', []), (''Retransmissions'', []), (''Errors'', []), (''Total Duration'', '' ms''),
     (''Average Throughput'', '' Mbps''), (''Peak Throughput'', '' Mbps''), (''Average RTT'', '' ms''), (''Min RTT'', '' ms''),
     (''Max RTT'', '' ms''), (''Packet Loss Rate'', []), (''Jitter'', '' ms''), (''Rate Adjustments'', []),
     (''Rate Decreases'', []), (''Rate Increases'', []), (''Peak Memory Usage'', '' KB''), (''Average Memory Usage'', '' KB''),
     (''CPU Utilization'', ''%'')]"

definition report_section :: "string \<Rightarrow> ((string \<times> string) \<times> string) list \<Rightarrow> string" where
  "report_section title ls = title @ '':'' @ newline @
     concat (map (\<lambda>((label, unit), v). ''  '' @ label @ '': '' @ v @ unit @ newline) ls)"

text \<open>The result and the text of the file.\<close>

definition rgtp_perf_generate_report :: "bool \<Rightarrow> rgtp_perf_monitor option \<Rightarrow> bool \<Rightarrow> int \<times> string option" where
  "rgtp_perf_generate_report fopen_ok monitor output_path =
    (if monitor = None \<or> \<not> output_path \<or> \<not> fopen_ok then (- 1, None)
     else
       (case rgtp_perf_get_current_metrics monitor True of
          None \<Rightarrow> (- 1, Some [])
        | Some c \<Rightarrow>
            (let ls = zip report_labels (report_values c) in
             (0, Some (''RGTP Performance Report'' @ newline @ ''======================='' @ newline @ newline @
               report_section ''Transfer Metrics'' (take 6 ls) @ newline @
               report_section ''Performance Metrics'' (take 8 (drop 6 ls)) @ newline @
               report_section ''Congestion Control Metrics'' (take 3 (drop 14 ls)) @ newline @
               report_section ''Resource Utilization'' (drop 17 ls))))))"

definition event_line :: "rgtp_event \<Rightarrow> string" where
  \<open>event_line e = fmt_timespec (e_timestamp e) @ '','' @ fmt_u (event_code (e_type e)) @ '','' @
     fmt_u (unat (e_transfer_id e)) @ '','' @ fmt_u (unat (e_session_id e)) @ '','' @ fmt_u (unat (e_chunk_id e)) @ '','' @
     fmt_u (unat (e_bytes e)) @ '','' @ fmt_f 3 (e_value e) @ '',"'' @ e_details e @ ''"'' @ newline\<close>

definition rgtp_perf_export_events :: "bool \<Rightarrow> rgtp_perf_monitor option \<Rightarrow> bool \<Rightarrow> (int \<times> string option) option" where
  "rgtp_perf_export_events fopen_ok monitor output_path =
    (case monitor of
       None \<Rightarrow> Some (- 1, None)
     | Some m \<Rightarrow>
         if \<not> output_path \<or> \<not> fopen_ok then Some (- 1, None)
         else map_option (\<lambda>es. (0, Some (''timestamp,event_type,transfer_id,session_id,chunk_id,bytes,value,details'' @ newline @
           concat (map event_line es)))) (export_events m))"

text \<open>What a destroy releases, in its order.\<close>

datatype perf_resource = Log_file | Event_buffer | Log_path | Monitor

definition rgtp_perf_monitor_destroy :: "rgtp_perf_monitor option \<Rightarrow> perf_resource list" where
  "rgtp_perf_monitor_destroy monitor =
    (case monitor of
       None \<Rightarrow> []
     | Some m \<Rightarrow> (if m_log_file m \<noteq> None then [Log_file] else []) @ (if m_event_buffer m \<noteq> None then [Event_buffer] else []) @
         (if log_file_path (m_config m) \<noteq> None then [Log_path] else []) @ [Monitor])"

text \<open>The counters of the CSV report are never cut off by the size of its buffer.\<close>

lemma csv_counters_complete:
  assumes "rgtp_perf_format_csv_report malloc_ok (Some m) = Some t"
  shows "\<exists>rest. t = ''metric,value'' @ newline @ concat (map csv_line (zip (take 6 csv_names)
      (map (\<lambda>v. fmt_u (unat v)) [total_bytes_sent (m_current m), total_bytes_received (m_current m),
        total_packets_sent (m_current m), total_packets_received (m_current m), total_retransmissions (m_current m),
        total_errors (m_current m)]))) @ rest"
proof -
  have len: "length (fmt_u (unat v)) \<le> 20" for v :: u64
  proof -
    have "unat v < 2 ^ 64" using unsigned_less [of v] by simp
    then show ?thesis using length_fmt_u [of "unat v" 20] by simp
  qed
  obtain c where c: "rgtp_perf_get_current_metrics (Some m) True = Some c"
    and t: "t = snprintf_text 1024 (''metric,value'' @ newline @ concat (map csv_line (zip csv_names (report_values c))))"
    using assms by (auto simp: rgtp_perf_format_csv_report_def split: option.splits if_splits)
  have same: "total_bytes_sent c = total_bytes_sent (m_current m)" "total_bytes_received c = total_bytes_received (m_current m)"
    "total_packets_sent c = total_packets_sent (m_current m)" "total_packets_received c = total_packets_received (m_current m)"
    "total_retransmissions c = total_retransmissions (m_current m)" "total_errors c = total_errors (m_current m)"
    using c by (auto simp: rgtp_perf_get_current_metrics_def Let_def)
  let ?head = "''metric,value'' @ newline @ concat (map csv_line (zip (take 6 csv_names)
      (map (\<lambda>v. fmt_u (unat v)) [total_bytes_sent (m_current m), total_bytes_received (m_current m),
        total_packets_sent (m_current m), total_packets_received (m_current m), total_retransmissions (m_current m),
        total_errors (m_current m)])))"
  have "length ?head \<le> 1023"
    using len [of "total_bytes_sent (m_current m)"] len [of "total_bytes_received (m_current m)"]
      len [of "total_packets_sent (m_current m)"] len [of "total_packets_received (m_current m)"]
      len [of "total_retransmissions (m_current m)"] len [of "total_errors (m_current m)"]
    by (simp add: csv_names_def csv_line_def newline_def)
  moreover have "\<exists>tl. ''metric,value'' @ newline @ concat (map csv_line (zip csv_names (report_values c))) = ?head @ tl"
    by (simp add: csv_names_def report_values_def csv_line_def same)
  ultimately show ?thesis using t by (auto simp: snprintf_text_def)
qed

subsection \<open>Sequences of recordings\<close>

datatype perf_op =
    Started timespec u64 u64 u64 | Ended timespec u64 u64 bool | Sent timespec u64 u32 u32 | Received timespec u64 u32 u32
  | Retransmitted timespec u64 u32 | RateChanged timespec u64 flt flt | RttMeasured timespec u64 flt | Failed timespec u64 int string

fun perf_call :: "perf_op \<Rightarrow> rgtp_perf_monitor option \<Rightarrow> (int \<times> rgtp_perf_monitor option) option" where
  "perf_call (Started t i s n) = rgtp_perf_record_transfer_start t i s n"
| "perf_call (Ended t i s b) = rgtp_perf_record_transfer_end t i s b"
| "perf_call (Sent t i c n) = rgtp_perf_record_packet_sent t i c n"
| "perf_call (Received t i c n) = rgtp_perf_record_packet_received t i c n"
| "perf_call (Retransmitted t i c) = rgtp_perf_record_retransmit t i c"
| "perf_call (RateChanged t i a b) = rgtp_perf_record_congestion_adjustment t i a b"
| "perf_call (RttMeasured t i r) = rgtp_perf_record_rtt_measurement t i r"
| "perf_call (Failed t i c msg) = rgtp_perf_record_error t i c (Some msg)"

definition perf_step :: "perf_op \<Rightarrow> rgtp_perf_monitor \<Rightarrow> rgtp_perf_monitor option" where
  "perf_step op m = (case perf_call op (Some m) of Some (r, Some m') \<Rightarrow> if r = 0 then Some m' else None | _ \<Rightarrow> None)"

fun op_event :: "perf_op \<Rightarrow> rgtp_event" where
  "op_event (Started t i s n) = start_event t i s n"
| "op_event (Ended t i s b) = end_event t i s b"
| "op_event (Sent t i c n) = sent_event t i c n"
| "op_event (Received t i c n) = received_event t i c n"
| "op_event (Retransmitted t i c) = retransmit_event t i c"
| "op_event (RateChanged t i a b) = rate_event t i a b"
| "op_event (RttMeasured t i r) = rtt_event t i r"
| "op_event (Failed t i c msg) = error_event t i c msg"

fun op_update :: "perf_op \<Rightarrow> rgtp_performance_metrics \<Rightarrow> rgtp_performance_metrics" where
  "op_update (Sent t i c n) = sent_update n"
| "op_update (Received t i c n) = received_update n"
| "op_update (Retransmitted t i c) = retransmit_update"
| "op_update (RateChanged t i a b) = rate_update a b"
| "op_update (RttMeasured t i r) = rtt_update r"
| "op_update (Failed t i c msg) = error_update"
| "op_update _ = id"

lemma perf_call_record: "perf_call op = record_with (op_update op) (op_event op)"
  by (cases op) (simp_all add: fun_eq_iff rgtp_perf_record_transfer_start_def rgtp_perf_record_transfer_end_def
      rgtp_perf_record_packet_sent_def rgtp_perf_record_packet_received_def rgtp_perf_record_retransmit_def
      rgtp_perf_record_congestion_adjustment_def rgtp_perf_record_rtt_measurement_def rgtp_perf_record_error_def)

text \<open>The ring buffer after the events of a history: the slot of event \<open>k\<close>
  holds it until it is overwritten one round later.\<close>

definition ring_holds :: "rgtp_event list \<Rightarrow> rgtp_perf_monitor \<Rightarrow> bool" where
  "ring_holds hist m \<longleftrightarrow> (\<exists>buf. m_event_buffer m = Some buf \<and> length buf = m_event_buffer_size m \<and> 0 < length buf \<and>
     m_event_count m = min (length hist) (length buf) \<and> m_event_index m = length hist mod length buf \<and>
     (\<forall>k < length hist. length hist \<le> k + length buf \<longrightarrow> buf ! (k mod length buf) = hist ! k))"

lemma record_event_ring:
  assumes "ring_holds hist m"
  obtains m' where "rgtp_perf_record_event (Some m) (Some e) = Some (0, Some m')" "ring_holds (hist @ [e]) m'"
    "m_event_buffer_size m' = m_event_buffer_size m" "m_current m' = m_current m" "m_config m' = m_config m"
    "m_log_file m' = m_log_file (log_event e m)"
proof -
  obtain buf where b: "m_event_buffer m = Some buf" "length buf = m_event_buffer_size m" "0 < length buf"
    "m_event_count m = min (length hist) (length buf)" "m_event_index m = length hist mod length buf"
    and old: "\<forall>k < length hist. length hist \<le> k + length buf \<longrightarrow> buf ! (k mod length buf) = hist ! k"
    using assms unfolding ring_holds_def by blast
  let ?N = "length buf"
  define m' where "m' = m\<lparr>m_event_buffer := Some (buf[length hist mod ?N := e]), m_event_index := (length hist mod ?N + 1) mod ?N,
    m_event_count := (if m_event_count m < ?N then m_event_count m + 1 else m_event_count m)\<rparr>"
  have lt: "length hist mod ?N < ?N" using b(3) by simp
  have keep: "buf[length hist mod ?N := e] ! (k mod ?N) = (hist @ [e]) ! k" if k: "k < Suc (length hist)" "Suc (length hist) \<le> k + ?N" for k
  proof (cases "k = length hist")
    case True
    then show ?thesis using lt by simp
  next
    case False
    then have "k < length hist" "length hist - k < ?N" using k by simp_all
    then have "length hist mod ?N \<noteq> k mod ?N"
      using mod_eq_dvd_iff_nat [of k "length hist" ?N] nat_dvd_not_less [of "length hist - k" ?N] by auto
    then show ?thesis using old k False by (simp add: nth_append)
  qed
  have store: "store_event e m = Some m'" using b lt by (simp add: store_event_def m'_def)
  have ring: "ring_holds (hist @ [e]) m'"
    unfolding ring_holds_def using b keep by (auto simp: m'_def mod_Suc_eq less_Suc_eq min_def)
  show thesis
  proof (rule that [of "log_event e m'"])
    show "rgtp_perf_record_event (Some m) (Some e) = Some (0, Some (log_event e m'))"
      using store by (simp add: rgtp_perf_record_event_def)
    show "ring_holds (hist @ [e]) (log_event e m')"
      using ring by (simp add: ring_holds_def log_event_def split: option.split)
  qed (simp_all add: m'_def log_event_def split: option.split)
qed

lemma those_Some: "those (map Some xs) = Some xs"
  by (induction xs) simp_all

lemma export_ring:
  assumes "ring_holds hist m"
  shows "export_events m = Some (drop (length hist - m_event_buffer_size m) hist)"
proof -
  obtain buf where b: "m_event_buffer m = Some buf" "length buf = m_event_buffer_size m" "0 < length buf"
    "m_event_count m = min (length hist) (length buf)" "m_event_index m = length hist mod length buf"
    and holds: "\<forall>k < length hist. length hist \<le> k + length buf \<longrightarrow> buf ! (k mod length buf) = hist ! k"
    using assms unfolding ring_holds_def by blast
  let ?N = "length buf" and ?n = "length hist"
  define start where "start = (if m_event_count m = ?N then ?n mod ?N else 0)"
  have at: "buf ! ((start + i) mod ?N) = drop (?n - ?N) hist ! i" if i: "i < min ?n ?N" for i
  proof (cases "?n < ?N")
    case True
    then show ?thesis using i holds b(4) by (simp add: start_def)
  next
    case False
    have "(?n mod ?N + i) mod ?N = (?n - ?N + i) mod ?N"
      using False by (metis add.commute le_add_diff_inverse2 linorder_not_less mod_add_left_eq mod_add_self2 group_cancel.add1)
    then show ?thesis using i holds b(4) False by (simp add: start_def)
  qed
  have "map (\<lambda>i. let idx = (start + i) mod ?N in if idx < ?N then Some (buf ! idx) else None) [0..<min ?n ?N] =
      map Some (drop (?n - ?N) hist)"
    by (rule nth_equalityI) (use at b(3) in \<open>auto simp: Let_def\<close>)
  moreover have "export_events m = those (map (\<lambda>i. let idx = (start + i) mod ?N in if idx < ?N then Some (buf ! idx) else None) [0..<min ?n ?N])"
    unfolding export_events_def b(1,4,5) start_def b(2) [symmetric] by (simp only: option.case Let_def)
  ultimately show ?thesis by (simp only: those_Some b(2) [symmetric])
qed

lemma perf_run:
  assumes "ring_holds hist m"
  shows "\<exists>m'. run_steps perf_step ops m = Some m' \<and> ring_holds (hist @ map op_event ops) m' \<and>
    m_event_buffer_size m' = m_event_buffer_size m \<and> m_current m' = fold op_update ops (m_current m) \<and>
    m_log_file m' = map_option (\<lambda>t. t @ (if 3 \<le> log_level (m_config m) then concat (map (\<lambda>op. log_line (op_event op)) ops) else [])) (m_log_file m)"
  using assms
proof (induction ops arbitrary: m hist)
  case (Cons op ops)
  have "ring_holds hist (m\<lparr>m_current := op_update op (m_current m)\<rparr>)" using Cons.prems by (simp add: ring_holds_def)
  then obtain m1 where m1: "rgtp_perf_record_event (Some (m\<lparr>m_current := op_update op (m_current m)\<rparr>)) (Some (op_event op)) = Some (0, Some m1)"
      "ring_holds (hist @ [op_event op]) m1" "m_event_buffer_size m1 = m_event_buffer_size m" "m_current m1 = op_update op (m_current m)"
      "m_config m1 = m_config m" "m_log_file m1 = m_log_file (log_event (op_event op) m)"
    by (rule record_event_ring [where e = "op_event op"]) (simp add: log_event_def split: option.splits)
  have "perf_step op m = Some m1" using m1(1) by (simp add: perf_step_def perf_call_record record_with_def)
  then show ?case using Cons.IH [OF m1(2)] m1(3-6) by (auto simp: log_event_def split: option.splits)
qed (simp add: option.map_ident)

lemmas update_defs = sent_update_def received_update_def retransmit_update_def rate_update_def rtt_update_def error_update_def

lemma fold_counters:
  "total_bytes_sent (fold op_update ops c) = total_bytes_sent c + sum_list [ucast n. Sent t i k n \<leftarrow> ops]"
  "total_packets_sent (fold op_update ops c) = total_packets_sent c + of_nat (length [(). Sent t i k n \<leftarrow> ops])"
  "total_bytes_received (fold op_update ops c) = total_bytes_received c + sum_list [ucast n. Received t i k n \<leftarrow> ops]"
  "total_packets_received (fold op_update ops c) = total_packets_received c + of_nat (length [(). Received t i k n \<leftarrow> ops])"
  "total_retransmissions (fold op_update ops c) = total_retransmissions c + of_nat (length [(). Retransmitted t i k \<leftarrow> ops])"
  "total_errors (fold op_update ops c) = total_errors c + of_nat (length [(). Failed t i k msg \<leftarrow> ops])"
  by (induction ops arbitrary: c; simp add: update_defs Let_def split: perf_op.split)+

lemma created_ring:
  "\<exists>m. rgtp_perf_monitor_create True strdup_ok True fopen_ok now (Some config) = Some m \<and> ring_holds [] m \<and>
     m_event_buffer_size m = EVENT_BUFFER_SIZE \<and> m_current m = zero_metrics\<lparr>start_time := now\<rparr> \<and>
     log_level (m_config m) = log_level config \<and>
     m_log_file m = (if strdup_ok \<and> log_file_path config \<noteq> None \<and> fopen_ok then Some [] else None)"
  by (simp add: rgtp_perf_monitor_create_def ring_holds_def EVENT_BUFFER_SIZE_def)

text \<open>The average divides by the number of packets sent and not by the number
  of measurements: with no packet sent it is the latest measurement.\<close>

lemma rtt_average_is_latest:
  assumes "total_packets_sent c = 0"
  shows "avg_rtt_ms (rtt_update r c) = r"
  using assms by (simp add: rtt_update_def rgtp_perf_calculate_moving_avg_def)

text \<open>C28: On a monitor created with its memory, every sequence of recordings
  returns 0 from each call; the events that an export then writes are
  the last 10000 recorded, oldest first and none lost or repeated, although the
  buffer is circular, and the six counters are the sums and the numbers of the
  recordings of their kind, modulo 2 to the 64.  When the log file could be opened and the
  level is at least 3, it has one line for every event, in order.\<close>

theorem perf_history:
  "\<exists>m0 m. rgtp_perf_monitor_create True strdup_ok True fopen_ok now (Some config) = Some m0 \<and>
     run_steps perf_step ops m0 = Some m \<and>
     export_events m = Some (drop (length ops - 10000) (map op_event ops)) \<and>
     total_bytes_sent (m_current m) = sum_list [ucast n. Sent t i k n \<leftarrow> ops] \<and>
     total_packets_sent (m_current m) = of_nat (length [(). Sent t i k n \<leftarrow> ops]) \<and>
     total_bytes_received (m_current m) = sum_list [ucast n. Received t i k n \<leftarrow> ops] \<and>
     total_packets_received (m_current m) = of_nat (length [(). Received t i k n \<leftarrow> ops]) \<and>
     total_retransmissions (m_current m) = of_nat (length [(). Retransmitted t i k \<leftarrow> ops]) \<and>
     total_errors (m_current m) = of_nat (length [(). Failed t i k msg \<leftarrow> ops]) \<and>
     m_log_file m = (if strdup_ok \<and> log_file_path config \<noteq> None \<and> fopen_ok
       then Some (if 3 \<le> log_level config then concat (map (\<lambda>op. log_line (op_event op)) ops) else []) else None)"
proof -
  obtain m0 where m0: "rgtp_perf_monitor_create True strdup_ok True fopen_ok now (Some config) = Some m0" "ring_holds [] m0"
      "m_event_buffer_size m0 = EVENT_BUFFER_SIZE" "m_current m0 = zero_metrics\<lparr>start_time := now\<rparr>"
      "log_level (m_config m0) = log_level config"
      "m_log_file m0 = (if strdup_ok \<and> log_file_path config \<noteq> None \<and> fopen_ok then Some [] else None)"
    using created_ring by blast
  obtain m where m: "run_steps perf_step ops m0 = Some m" "ring_holds (map op_event ops) m"
      "m_event_buffer_size m = EVENT_BUFFER_SIZE" "m_current m = fold op_update ops (zero_metrics\<lparr>start_time := now\<rparr>)"
      "m_log_file m = map_option (\<lambda>t. t @ (if 3 \<le> log_level config then concat (map (\<lambda>op. log_line (op_event op)) ops) else [])) (m_log_file m0)"
    using perf_run [OF m0(2), of ops] m0(3-5) by auto
  have "export_events m = Some (drop (length ops - 10000) (map op_event ops))"
    using export_ring [OF m(2)] m(3) by (simp add: EVENT_BUFFER_SIZE_def)
  then show ?thesis
    using m0(1,6) m(1,4,5) by (intro exI [of _ m0] exI [of _ m]) (simp add: fold_counters zero_metrics_def)
qed

end
