(* ===== verification/Rgtp_Http3.thy ===== *)
theory Rgtp_Http3
  imports Rgtp_Float
begin

text \<open>
  The HTTP/3 proxy of \<^verbatim>\<open>webtransport/rgtp_http3_proxy.c\<close>: configuration, life
  cycle, requests and responses with the statistics, and the routes.  Callbacks are code of the
  caller: a registered callback is a flag of the proxy, and the calls made are a result.  The
  outcomes of allocations are arguments; the mutex is left out since the operations are
  sequential.
\<close>

subsection \<open>Configuration\<close>

record http3_config =
  http3_port :: u16
  rgtp_port :: u16
  backend_host :: "string option"
  max_concurrent_streams :: int
  idle_timeout_ms :: int
  keepalive_interval_ms :: int
  buffer_size :: int

definition rgtp_http3_config_create :: "bool \<Rightarrow> bool \<Rightarrow> http3_config option" where
  "rgtp_http3_config_create calloc_ok strdup_ok =
    (if \<not> calloc_ok then None
     else Some \<lparr>http3_port = 443, rgtp_port = 9999, backend_host = (if strdup_ok then Some ''127.0.0.1'' else None),
       max_concurrent_streams = 100, idle_timeout_ms = 30000, keepalive_interval_ms = 10000, buffer_size = 64 * 1024\<rparr>)"

definition rgtp_http3_config_set_port :: "u16 \<Rightarrow> http3_config option \<Rightarrow> http3_config option" where
  "rgtp_http3_config_set_port port config = map_option (\<lambda>c. c\<lparr>http3_port := port\<rparr>) config"

definition rgtp_http3_config_set_backend :: "bool \<Rightarrow> string option \<Rightarrow> u16 \<Rightarrow> http3_config option \<Rightarrow> http3_config option" where
  "rgtp_http3_config_set_backend strdup_ok host port config =
    (case (config, host) of
       (Some c, Some h) \<Rightarrow> Some (c\<lparr>backend_host := (if strdup_ok then Some h else None), rgtp_port := port\<rparr>)
     | _ \<Rightarrow> config)"

definition rgtp_http3_config_set_max_streams :: "int \<Rightarrow> http3_config option \<Rightarrow> http3_config option" where
  "rgtp_http3_config_set_max_streams n config =
    map_option (\<lambda>c. if n > 0 then c\<lparr>max_concurrent_streams := n\<rparr> else c) config"

definition rgtp_http3_config_set_idle_timeout :: "int \<Rightarrow> http3_config option \<Rightarrow> http3_config option" where
  "rgtp_http3_config_set_idle_timeout n config = map_option (\<lambda>c. if n > 0 then c\<lparr>idle_timeout_ms := n\<rparr> else c) config"

definition rgtp_http3_config_set_keepalive :: "int \<Rightarrow> http3_config option \<Rightarrow> http3_config option" where
  "rgtp_http3_config_set_keepalive n config = map_option (\<lambda>c. if n > 0 then c\<lparr>keepalive_interval_ms := n\<rparr> else c) config"

subsection \<open>The proxy\<close>

record http3_stats =
  total_requests :: u64
  total_responses :: u64
  st_total_errors :: u64
  active_streams :: u64
  st_bytes_sent :: u64
  st_bytes_received :: u64
  avg_response_time_ms :: flt
  current_connections :: int

record http3_proxy =
  p_config :: http3_config
  p_running :: bool
  p_server_fd :: int
  p_request_callback :: bool
  p_response_callback :: bool
  p_error_callback :: bool
  p_stats :: http3_stats

definition zero_stats :: http3_stats where
  "zero_stats = \<lparr>total_requests = 0, total_responses = 0, st_total_errors = 0, active_streams = 0, st_bytes_sent = 0,
     st_bytes_received = 0, avg_response_time_ms = Fin 0, current_connections = 0\<rparr>"

definition rgtp_http3_proxy_create :: "bool \<Rightarrow> bool \<Rightarrow> http3_config option \<Rightarrow> http3_proxy option" where
  "rgtp_http3_proxy_create calloc_ok strdup_ok config =
    (case config of
       None \<Rightarrow> None
     | Some c \<Rightarrow>
         if \<not> calloc_ok then None
         else Some \<lparr>p_config = c\<lparr>backend_host := (if strdup_ok then backend_host c else None)\<rparr>, p_running = False,
           p_server_fd = - 1, p_request_callback = False, p_response_callback = False, p_error_callback = False,
           p_stats = zero_stats\<rparr>)"

text \<open>The result of the function and the proxy.\<close>

definition rgtp_http3_proxy_start :: "http3_proxy option \<Rightarrow> int \<times> http3_proxy option" where
  "rgtp_http3_proxy_start proxy =
    (case proxy of
       None \<Rightarrow> (- 1, proxy)
     | Some p \<Rightarrow>
         if p_running p then (- 1, proxy)
         else (0, Some (p\<lparr>p_running := True, p_stats := (p_stats p)\<lparr>current_connections := 0\<rparr>\<rparr>)))"

definition rgtp_http3_proxy_stop :: "http3_proxy option \<Rightarrow> int \<times> http3_proxy option" where
  "rgtp_http3_proxy_stop proxy =
    (case proxy of
       None \<Rightarrow> (- 1, proxy)
     | Some p \<Rightarrow> if \<not> p_running p then (- 1, proxy) else (0, Some (p\<lparr>p_running := False\<rparr>)))"

definition rgtp_http3_proxy_set_request_callback :: "bool \<Rightarrow> http3_proxy option \<Rightarrow> http3_proxy option" where
  "rgtp_http3_proxy_set_request_callback cb proxy = map_option (\<lambda>p. p\<lparr>p_request_callback := cb\<rparr>) proxy"

definition rgtp_http3_proxy_set_response_callback :: "bool \<Rightarrow> http3_proxy option \<Rightarrow> http3_proxy option" where
  "rgtp_http3_proxy_set_response_callback cb proxy = map_option (\<lambda>p. p\<lparr>p_response_callback := cb\<rparr>) proxy"

definition rgtp_http3_proxy_set_error_callback :: "bool \<Rightarrow> http3_proxy option \<Rightarrow> http3_proxy option" where
  "rgtp_http3_proxy_set_error_callback cb proxy = map_option (\<lambda>p. p\<lparr>p_error_callback := cb\<rparr>) proxy"

definition rgtp_http3_proxy_add_route :: "http3_proxy option \<Rightarrow> string option \<Rightarrow> bool \<Rightarrow> int" where
  "rgtp_http3_proxy_add_route proxy path_pattern handler =
    (if proxy = None \<or> path_pattern = None \<or> \<not> handler then - 1 else 0)"

definition rgtp_http3_proxy_remove_route :: "http3_proxy option \<Rightarrow> string option \<Rightarrow> int" where
  "rgtp_http3_proxy_remove_route proxy path_pattern = (if proxy = None \<or> path_pattern = None then - 1 else 0)"

subsection \<open>Requests and responses\<close>

datatype http3_call =
    On_request string string "string option"
  | On_response int int "string option" "bytes option" u64

text \<open>Result, proxy and the callbacks that were called.\<close>

definition rgtp_http3_proxy_forward_request ::
    "int \<Rightarrow> string option \<Rightarrow> string option \<Rightarrow> string option \<Rightarrow> u64 \<Rightarrow> http3_proxy option \<Rightarrow> int \<times> http3_proxy option \<times> http3_call list" where
  "rgtp_http3_proxy_forward_request stream_id path http_method headers body_len proxy =
    (case (proxy, path, http_method) of
       (Some p, Some u, Some v) \<Rightarrow>
         (let st = p_stats p in
          (0, Some (p\<lparr>p_stats := st\<lparr>total_requests := total_requests st + 1, st_bytes_received := st_bytes_received st + body_len,
             active_streams := active_streams st + 1\<rparr>\<rparr>), if p_request_callback p then [On_request u v headers] else []))
     | _ \<Rightarrow> (- 1, proxy, []))"

definition rgtp_http3_proxy_send_response ::
    "int \<Rightarrow> int \<Rightarrow> string option \<Rightarrow> bytes option \<Rightarrow> u64 \<Rightarrow> http3_proxy option \<Rightarrow> int \<times> http3_proxy option \<times> http3_call list" where
  "rgtp_http3_proxy_send_response stream_id status_code headers body body_len proxy =
    (case proxy of
       None \<Rightarrow> (- 1, proxy, [])
     | Some p \<Rightarrow>
         (let st = p_stats p in
          (0, Some (p\<lparr>p_stats := st\<lparr>total_responses := total_responses st + 1, st_bytes_sent := st_bytes_sent st + body_len,
             active_streams := (if active_streams st > 0 then active_streams st - 1 else active_streams st)\<rparr>\<rparr>),
           if p_response_callback p then [On_response stream_id status_code headers body body_len] else [])))"

definition rgtp_http3_proxy_get_stats :: "http3_proxy option \<Rightarrow> bool \<Rightarrow> http3_stats option" where
  "rgtp_http3_proxy_get_stats proxy stats = (if stats then map_option p_stats proxy else None)"

definition rgtp_http3_error_string :: "int \<Rightarrow> string" where
  "rgtp_http3_error_string e =
    (if e = 0 then ''Success'' else if e = - 1 then ''General error'' else if e = - 2 then ''Invalid argument''
     else if e = - 3 then ''Connection refused'' else if e = - 4 then ''Timeout'' else if e = - 5 then ''Not found''
     else ''Unknown error'')"

definition rgtp_http3_status_reason :: "int \<Rightarrow> string" where
  "rgtp_http3_status_reason s =
    (if s = 200 then ''OK'' else if s = 201 then ''Created'' else if s = 204 then ''No Content''
     else if s = 400 then ''Bad Request'' else if s = 401 then ''Unauthorized'' else if s = 403 then ''Forbidden''
     else if s = 404 then ''Not Found'' else if s = 500 then ''Internal Server Error'' else if s = 502 then ''Bad Gateway''
     else if s = 503 then ''Service Unavailable'' else ''Unknown Status'')"

definition rgtp_http3_expose_via_proxy :: "http3_proxy option \<Rightarrow> string option \<Rightarrow> string option \<Rightarrow> int" where
  "rgtp_http3_expose_via_proxy proxy file_path url_path =
    (if proxy = None \<or> file_path = None \<or> url_path = None then - 1
     else rgtp_http3_proxy_add_route proxy url_path False)"

definition rgtp_http3_pull_to_response ::
    "int \<Rightarrow> string option \<Rightarrow> string option \<Rightarrow> u16 \<Rightarrow> http3_proxy option \<Rightarrow> int \<times> http3_proxy option \<times> http3_call list" where
  "rgtp_http3_pull_to_response stream_id exposure_id host port proxy =
    (if proxy = None \<or> exposure_id = None \<or> host = None then (- 1, proxy, [])
     else rgtp_http3_proxy_send_response stream_id 200 (Some ''content-type: application/octet-stream'') None 0 proxy)"

text \<open>What a destroy releases: the copy of the host, then the proxy.\<close>

definition rgtp_http3_proxy_destroy :: "http3_proxy option \<Rightarrow> string list" where
  "rgtp_http3_proxy_destroy proxy =
    (case proxy of
       None \<Rightarrow> []
     | Some p \<Rightarrow> (if backend_host (p_config p) \<noteq> None then [''backend_host''] else []) @ [''proxy''])"

subsection \<open>Sequences of operations\<close>

datatype http3_op =
    Start | Stop | Forward int string string "string option" u64 | Respond int int "string option" "bytes option" u64

fun http3_step :: "http3_op \<Rightarrow> http3_proxy \<Rightarrow> http3_proxy \<times> http3_call list" where
  "http3_step Start p = (case rgtp_http3_proxy_start (Some p) of (r, Some q) \<Rightarrow> (q, []) | _ \<Rightarrow> (p, []))"
| "http3_step Stop p = (case rgtp_http3_proxy_stop (Some p) of (r, Some q) \<Rightarrow> (q, []) | _ \<Rightarrow> (p, []))"
| "http3_step (Forward i u v h n) p =
    (case rgtp_http3_proxy_forward_request i (Some u) (Some v) h n (Some p) of (r, Some q, cs) \<Rightarrow> (q, cs) | _ \<Rightarrow> (p, []))"
| "http3_step (Respond i s h b n) p =
    (case rgtp_http3_proxy_send_response i s h b n (Some p) of (r, Some q, cs) \<Rightarrow> (q, cs) | _ \<Rightarrow> (p, []))"

fun http3_run :: "http3_op list \<Rightarrow> http3_proxy \<Rightarrow> http3_proxy \<times> http3_call list" where
  "http3_run [] p = (p, [])"
| "http3_run (x # xs) p = (let (q, cs) = http3_step x p; (r, ds) = http3_run xs q in (r, cs @ ds))"

text \<open>The open streams of a history: a request opens one, a response closes one if there is
  one.\<close>

fun open_streams :: "http3_op list \<Rightarrow> nat \<Rightarrow> nat" where
  "open_streams [] n = n"
| "open_streams (Forward i u v h b # xs) n = open_streams xs (n + 1)"
| "open_streams (Respond i s h b k # xs) n = open_streams xs (n - 1)"
| "open_streams (Start # xs) n = open_streams xs n"
| "open_streams (Stop # xs) n = open_streams xs n"

fun op_calls :: "bool \<Rightarrow> bool \<Rightarrow> http3_op \<Rightarrow> http3_call list" where
  "op_calls rq rs (Forward i u v h n) = (if rq then [On_request u v h] else [])"
| "op_calls rq rs (Respond i s h b n) = (if rs then [On_response i s h b n] else [])"
| "op_calls rq rs x = []"

lemmas http3_defs = rgtp_http3_proxy_start_def rgtp_http3_proxy_stop_def rgtp_http3_proxy_forward_request_def
  rgtp_http3_proxy_send_response_def Let_def

lemma http3_step_facts:
  assumes "http3_step x p = (q, cs)"
  shows "cs = op_calls (p_request_callback p) (p_response_callback p) x"
    "p_request_callback q = p_request_callback p" "p_response_callback q = p_response_callback p"
    "total_requests (p_stats q) = total_requests (p_stats p) + of_nat (length [(). Forward i u v h n \<leftarrow> [x]])"
    "total_responses (p_stats q) = total_responses (p_stats p) + of_nat (length [(). Respond i s h b n \<leftarrow> [x]])"
    "st_bytes_received (p_stats q) = st_bytes_received (p_stats p) + sum_list [n. Forward i u v h n \<leftarrow> [x]]"
    "st_bytes_sent (p_stats q) = st_bytes_sent (p_stats p) + sum_list [n. Respond i s h b n \<leftarrow> [x]]"
  using assms by (cases x; auto simp: http3_defs split: if_splits)+

lemma http3_step_streams:
  assumes "http3_step x p = (q, cs)" "unat (active_streams (p_stats p)) + 1 < 2 ^ 64"
  shows "unat (active_streams (p_stats q)) = open_streams [x] (unat (active_streams (p_stats p)))"
proof (cases x)
  case (Forward i u v h n)
  then have "active_streams (p_stats q) = active_streams (p_stats p) + 1" using assms(1) by (auto simp: http3_defs)
  then show ?thesis using Forward assms(2) by (simp add: unat_word_ariths)
next
  case (Respond i s h b n)
  let ?a = "active_streams (p_stats p)"
  have "active_streams (p_stats q) = (if ?a > 0 then ?a - 1 else ?a)" using assms(1) Respond by (auto simp: http3_defs)
  moreover have "unat (?a - 1) = unat ?a - 1" if "?a > 0" using that by (simp add: unat_sub word_gt_0 unat_minus_one)
  moreover have "unat ?a - 1 = unat ?a" if "\<not> ?a > 0" using that by (simp add: word_gt_0)
  ultimately show ?thesis using Respond by auto
qed (use assms(1) in \<open>auto simp: http3_defs split: if_splits\<close>)

lemma open_streams_app: "open_streams (xs @ ys) n = open_streams ys (open_streams xs n)"
  by (induction xs n rule: open_streams.induct) simp_all

lemma open_streams_le: "open_streams xs n \<le> n + length xs"
  by (induction xs n rule: open_streams.induct) simp_all

lemma http3_run_facts:
  assumes "http3_run ops p = (q, cs)"
  shows "cs = concat (map (op_calls (p_request_callback p) (p_response_callback p)) ops) \<and>
    total_requests (p_stats q) = total_requests (p_stats p) + of_nat (length [(). Forward i u v h n \<leftarrow> ops]) \<and>
    total_responses (p_stats q) = total_responses (p_stats p) + of_nat (length [(). Respond i s h b n \<leftarrow> ops]) \<and>
    st_bytes_received (p_stats q) = st_bytes_received (p_stats p) + sum_list [n. Forward i u v h n \<leftarrow> ops] \<and>
    st_bytes_sent (p_stats q) = st_bytes_sent (p_stats p) + sum_list [n. Respond i s h b n \<leftarrow> ops]"
  using assms
proof (induction ops arbitrary: p q cs)
  case (Cons x xs)
  obtain r ds es where r: "http3_step x p = (r, ds)" "http3_run xs r = (q, es)" "cs = ds @ es"
    using Cons.prems by (auto split: prod.splits)
  show ?case using Cons.IH [OF r(2)] http3_step_facts [OF r(1)] r(3) by simp
qed simp

lemma http3_run_streams:
  assumes "http3_run ops p = (q, cs)" "unat (active_streams (p_stats p)) + length ops < 2 ^ 64"
  shows "unat (active_streams (p_stats q)) = open_streams ops (unat (active_streams (p_stats p)))"
  using assms
proof (induction ops arbitrary: p q cs)
  case (Cons x xs)
  obtain r ds es where r: "http3_step x p = (r, ds)" "http3_run xs r = (q, es)"
    using Cons.prems(1) by (auto split: prod.splits)
  let ?n = "unat (active_streams (p_stats p))"
  have "unat (active_streams (p_stats r)) = open_streams [x] ?n"
    using http3_step_streams [OF r(1)] Cons.prems(2) by simp
  moreover have "open_streams [x] ?n + length xs < 2 ^ 64"
    using open_streams_le [of "[x]" ?n] Cons.prems(2) by simp
  ultimately show ?case using Cons.IH [OF r(2)] open_streams_app [of "[x]" xs] by simp
qed simp

text \<open>While no response is sent without a request, the open streams are the difference.\<close>

lemma open_streams_balanced:
  assumes "\<forall>k \<le> length ops. length [(). Respond i s h b n \<leftarrow> take k ops] \<le> m + length [(). Forward i u v h n \<leftarrow> take k ops]"
  shows "open_streams ops m + length [(). Respond i s h b n \<leftarrow> ops] = m + length [(). Forward i u v h n \<leftarrow> ops]"
  using assms
proof (induction ops m rule: open_streams.induct)
  case (2 i u v h b xs n)
  have "length [(). Respond i s h b n \<leftarrow> take k xs] \<le> n + 1 + length [(). Forward i u v h n \<leftarrow> take k xs]" if "k \<le> length xs" for k
    using 2(2) [rule_format, of "Suc k"] that by simp
  then show ?case using 2(1) by simp
next
  case (3 i s h b k xs n)
  have pos: "0 < n" using 3(2) [rule_format, of 1] by simp
  have "length [(). Respond i s h b n \<leftarrow> take k xs] \<le> n - 1 + length [(). Forward i u v h n \<leftarrow> take k xs]" if "k \<le> length xs" for k
    using 3(2) [rule_format, of "Suc k"] that pos by simp
  then show ?case using 3(1) pos by simp
next
  case (4 xs n)
  have "length [(). Respond i s h b n \<leftarrow> take k xs] \<le> n + length [(). Forward i u v h n \<leftarrow> take k xs]" if "k \<le> length xs" for k
    using 4(2) [rule_format, of "Suc k"] that by simp
  then show ?case using 4(1) by simp
next
  case (5 xs n)
  have "length [(). Respond i s h b n \<leftarrow> take k xs] \<le> n + length [(). Forward i u v h n \<leftarrow> take k xs]" if "k \<le> length xs" for k
    using 5(2) [rule_format, of "Suc k"] that by simp
  then show ?case using 5(1) by simp
qed simp

text \<open>Over any fewer than 2 to the 64 starts, stops, requests and responses from a
  fresh proxy with the two callbacks registered or not, the statistics count requests and
  responses and add up the sizes of their bodies, the callbacks are called once for every
  operation, in order, and the number of active streams is the number of requests without a
  response: a surplus response leaves it at 0, and while there is none it is the difference of
  the two counts.\<close>

theorem http3_accounting:
  assumes "rgtp_http3_proxy_set_request_callback rq (rgtp_http3_proxy_set_response_callback rs
      (rgtp_http3_proxy_create True strdup_ok (Some config))) = Some p"
    and "http3_run ops p = (q, cs)" and "length ops < 2 ^ 64"
  shows "cs = concat (map (op_calls rq rs) ops) \<and>
    total_requests (p_stats q) = of_nat (length [(). Forward i u v h n \<leftarrow> ops]) \<and>
    total_responses (p_stats q) = of_nat (length [(). Respond i s h b n \<leftarrow> ops]) \<and>
    st_bytes_received (p_stats q) = sum_list [n. Forward i u v h n \<leftarrow> ops] \<and>
    st_bytes_sent (p_stats q) = sum_list [n. Respond i s h b n \<leftarrow> ops] \<and>
    unat (active_streams (p_stats q)) = open_streams ops 0 \<and>
    ((\<forall>k \<le> length ops. length [(). Respond i s h b n \<leftarrow> take k ops] \<le> length [(). Forward i u v h n \<leftarrow> take k ops]) \<longrightarrow>
      unat (active_streams (p_stats q)) + length [(). Respond i s h b n \<leftarrow> ops] = length [(). Forward i u v h n \<leftarrow> ops])"
proof -
  have p: "p_stats p = zero_stats" "p_request_callback p = rq" "p_response_callback p = rs"
    using assms(1) by (auto simp: rgtp_http3_proxy_create_def rgtp_http3_proxy_set_request_callback_def
      rgtp_http3_proxy_set_response_callback_def)
  show ?thesis
    using http3_run_facts [OF assms(2)] http3_run_streams [OF assms(2)] open_streams_balanced [of ops 0] assms(3) p
    by (simp add: zero_stats_def)
qed

definition example_proxy :: http3_proxy where
  "example_proxy = the (rgtp_http3_proxy_set_request_callback True (rgtp_http3_proxy_set_response_callback False
     (rgtp_http3_proxy_create True True (rgtp_http3_config_create True True))))"

theorem http3_accounting_witness:
  "unat (active_streams (p_stats (fst (http3_run
     [Start, Forward 1 ''/a'' ''GET'' None 0, Forward 2 ''/b'' ''PUT'' None 7, Respond 1 200 None None 9, Stop] example_proxy)))) = 1"
proof -
  let ?c = "the (rgtp_http3_config_create True True)"
  let ?ops = "[Start, Forward 1 ''/a'' ''GET'' None 0, Forward 2 ''/b'' ''PUT'' None 7, Respond 1 200 None None 9, Stop]"
  have "rgtp_http3_proxy_set_request_callback True (rgtp_http3_proxy_set_response_callback False
      (rgtp_http3_proxy_create True True (Some ?c))) = Some example_proxy"
    by (simp add: example_proxy_def rgtp_http3_config_create_def rgtp_http3_proxy_create_def
        rgtp_http3_proxy_set_request_callback_def rgtp_http3_proxy_set_response_callback_def)
  from http3_accounting [OF this, of ?ops "fst (http3_run ?ops example_proxy)" "snd (http3_run ?ops example_proxy)"]
  show ?thesis by simp
qed

text \<open>Exposing a file through the proxy always fails: the route is added without a handler,
  which \<^verbatim>\<open>rgtp_http3_proxy_add_route\<close> rejects.\<close>

lemma expose_via_proxy_fails: "rgtp_http3_expose_via_proxy proxy file_path url_path = - 1"
  by (simp add: rgtp_http3_expose_via_proxy_def rgtp_http3_proxy_add_route_def)

text \<open>A request is forwarded by a proxy that is not running, and whatever the number of
  streams that are open.\<close>

lemma forward_ignores_limits:
  "\<exists>q cs. rgtp_http3_proxy_forward_request i (Some u) (Some v) h n (Some p) = (0, Some q, cs) \<and>
     p_running q = p_running p \<and> active_streams (p_stats q) = active_streams (p_stats p) + 1"
  by (simp add: http3_defs)

end
