(* ===== verification/Rgtp_Socket.thy ===== *)
theory Rgtp_Socket
  imports Rgtp_Surface
begin

text \<open>
  Sockets and batched sending: \<^verbatim>\<open>rgtp_socket.c\<close>,
  \<^verbatim>\<open>rgtp_sendmmsg.c\<close>, \<^verbatim>\<open>rgtp_raweth.c\<close> and the life
  cycle of \<^verbatim>\<open>rgtp_iouring.c\<close>, all of \<^verbatim>\<open>src/io\<close>.  The results of the
  system calls are arguments: the functions of an \<open>os\<close> record for sockets, and a list of
  answers for the calls of a loop.  The system calls that a function makes are a result, so that
  the descriptors it leaves open can be read off.
\<close>

subsection \<open>The operating system\<close>

datatype family = AF_INET | AF_INET6 | AF_PACKET

text \<open>A descriptor, or \<open>-1\<close>; whether a bind succeeds; the port that
  \<^verbatim>\<open>getsockname\<close> reports for a descriptor bound to a port; the index of an
  interface, 0 if there is none.\<close>

record os =
  os_socket :: "family \<Rightarrow> int"
  os_bind :: "int \<Rightarrow> u16 \<Rightarrow> bool"
  os_port :: "int \<Rightarrow> u16 \<Rightarrow> u16"
  os_ifindex :: "string \<Rightarrow> int"
  os_bind_if :: "int \<Rightarrow> int \<Rightarrow> bool"

datatype syscall =
    Opened int | Closed int | V6only_off int | Reuseaddr int | Nonblocking int | Segment int u16
  | Priority int u8 | Sent_frame int int bytes bytes

text \<open>The descriptors that are open after some calls.\<close>

fun open_fds :: "syscall list \<Rightarrow> int set \<Rightarrow> int set" where
  "open_fds [] fds = fds"
| "open_fds (Opened fd # cs) fds = open_fds cs (insert fd fds)"
| "open_fds (Closed fd # cs) fds = open_fds cs (fds - {fd})"
| "open_fds (c # cs) fds = open_fds cs fds"

subsection \<open>The backend\<close>

datatype rgtp_io_backend = RGTP_IO_SENDMMSG | RGTP_IO_IOURING | RGTP_IO_IOCP | RGTP_IO_RAWETH | RGTP_IO_BASIC

text \<open>The platform and the options the library is built for.\<close>

datatype platform = Windows | Linux | Other_platform

record build =
  b_platform :: platform
  b_iouring :: bool
  b_raw_ethernet :: bool
  b_udp_segment :: bool

definition select_backend :: "build \<Rightarrow> bool \<Rightarrow> rgtp_io_backend" where
  "select_backend b raw_ethernet =
    (if raw_ethernet then RGTP_IO_RAWETH
     else if b_platform b = Windows then RGTP_IO_IOCP
     else if b_iouring b then RGTP_IO_IOURING
     else if b_platform b = Linux then RGTP_IO_SENDMMSG
     else RGTP_IO_BASIC)"

subsection \<open>Creating a socket\<close>

definition create_udp_socket :: "os \<Rightarrow> rgtp_config option \<Rightarrow> (int \<times> u16) cres \<times> syscall list" where
  "create_udp_socket os cfg =
    (let fd6 = os_socket os AF_INET6;
         (fd, family) = (if fd6 = - 1 then (os_socket os AF_INET, AF_INET) else (fd6, AF_INET6)) in
     if fd = - 1 then (err RGTP_ERR_SOCKET, [])
     else
       (let opts = [Opened fd] @ (if family = AF_INET6 then [V6only_off fd] else []) @ [Reuseaddr fd, Nonblocking fd];
            port = (case cfg of Some c \<Rightarrow> cfg_port c | None \<Rightarrow> 0) in
        if \<not> os_bind os fd port then (err RGTP_ERR_SOCKET, opts @ [Closed fd])
        else (ok (fd, os_port os fd port), opts)))"

text \<open>The name of the interface: the bytes before the terminator, or
  \<^verbatim>\<open>eth0\<close>; at most 15 characters are copied.\<close>

definition iface_name :: "rgtp_config option \<Rightarrow> string" where
  "iface_name cfg =
    take 15 (case cfg of
       Some c \<Rightarrow> (let s = takeWhile (\<lambda>b. b \<noteq> 0) (cfg_eth_iface c) in if s = [] then ''eth0'' else map (\<lambda>b. char_of (unat b)) s)
     | None \<Rightarrow> ''eth0'')"

definition create_raweth_socket :: "build \<Rightarrow> os \<Rightarrow> rgtp_config option \<Rightarrow> int cres \<times> syscall list" where
  "create_raweth_socket b os cfg =
    (if b_platform b = Windows then (err RGTP_ERR_NOT_SUPPORTED, [])
     else
       (let fd = os_socket os AF_PACKET; ix = os_ifindex os (iface_name cfg) in
        if fd = - 1 then (err RGTP_ERR_SOCKET, [])
        else if ix = 0 then (err RGTP_ERR_SOCKET, [Opened fd, Closed fd])
        else if \<not> os_bind_if os fd ix then (err RGTP_ERR_SOCKET, [Opened fd, Closed fd])
        else (ok fd, [Opened fd, Nonblocking fd])))"

record rgtp_socket =
  k_fd :: int
  k_backend :: rgtp_io_backend
  k_bound_port :: u16
  k_is_raw_ethernet :: bool
  k_config :: rgtp_config

definition gso_segment :: "rgtp_config option \<Rightarrow> u16" where
  "gso_segment cfg = (let seg = (case cfg of Some c \<Rightarrow> ucast (cfg_chunk_size c) | None \<Rightarrow> 1200) in if seg = 0 then 1200 else seg)"

definition rgtp_socket_create ::
    "build \<Rightarrow> os \<Rightarrow> bool \<Rightarrow> rgtp_config option \<Rightarrow> bool \<Rightarrow> rgtp_socket cres \<times> syscall list" where
  "rgtp_socket_create b os malloc_ok cfg out =
    (if \<not> out then (err RGTP_ERR_INVALID_ARG, [])
     else if \<not> malloc_ok then (err RGTP_ERR_NOMEM, [])
     else
       (let config = (case cfg of Some c \<Rightarrow> c | None \<Rightarrow> zero_config);
            raw_eth = (case cfg of Some c \<Rightarrow> cfg_raw_ethernet c | None \<Rightarrow> False);
            backend = select_backend b raw_eth in
        if raw_eth then
          (if b_raw_ethernet b then
             (case create_raweth_socket b os cfg of
                (r, cs) \<Rightarrow> (cbind r (\<lambda>fd. ok \<lparr>k_fd = fd, k_backend = backend, k_bound_port = 0, k_is_raw_ethernet = True,
                  k_config = config\<rparr>), cs))
           else (err RGTP_ERR_NOT_SUPPORTED, []))
        else
          (case create_udp_socket os cfg of
             (Some (Inr (fd, port)), cs) \<Rightarrow>
               (ok \<lparr>k_fd = fd, k_backend = backend, k_bound_port = port, k_is_raw_ethernet = False, k_config = config\<rparr>,
                cs @ (if b_platform b = Linux \<and> b_udp_segment b \<and> backend = RGTP_IO_SENDMMSG then [Segment fd (gso_segment cfg)] else []))
           | (r, cs) \<Rightarrow> (cbind r (\<lambda>x. None), cs))))"

definition rgtp_socket_destroy :: "rgtp_socket option \<Rightarrow> syscall list" where
  "rgtp_socket_destroy sock =
    (case sock of None \<Rightarrow> [] | Some k \<Rightarrow> if k_fd k \<noteq> - 1 then [Closed (k_fd k)] else [])"

text \<open>The exposer has its own functions of these names, with another structure behind the
  same type.\<close>

record exposer_socket =
  x_fd :: int
  x_raw_ethernet :: bool
  x_port :: u16
  x_config :: rgtp_config

definition exposer_socket_create :: "os \<Rightarrow> bool \<Rightarrow> rgtp_config option \<Rightarrow> bool \<Rightarrow> exposer_socket cres \<times> syscall list" where
  "exposer_socket_create os calloc_ok cfg out =
    (if \<not> out then (err RGTP_ERR_INVALID_ARG, [])
     else if \<not> calloc_ok then (err RGTP_ERR_NOMEM, [])
     else
       (let fd = os_socket os AF_INET; port = (case cfg of Some c \<Rightarrow> cfg_port c | None \<Rightarrow> 0) in
        if fd < 0 then (err RGTP_ERR_SOCKET, [])
        else if \<not> os_bind os fd port then (err RGTP_ERR_SOCKET, [Opened fd, Reuseaddr fd, Closed fd])
        else
          (ok \<lparr>x_fd = fd, x_raw_ethernet = False, x_port = 0, x_config = (case cfg of Some c \<Rightarrow> c | None \<Rightarrow> zero_config)\<rparr>,
           [Opened fd, Reuseaddr fd])))"

definition exposer_socket_destroy :: "exposer_socket option \<Rightarrow> syscall list" where
  "exposer_socket_destroy sock = (case sock of None \<Rightarrow> [] | Some k \<Rightarrow> [Closed (x_fd k)])"

subsection \<open>Raw Ethernet\<close>

record rgtp_raweth_ctx =
  r_fd :: int
  r_ifindex :: int
  r_vlan_id :: u16
  r_vlan_pcp :: u8

text \<open>Without the build option, or on a platform other than Linux, the functions are
  stubs.\<close>

definition rgtp_raweth_open ::
    "build \<Rightarrow> os \<Rightarrow> bool \<Rightarrow> string option \<Rightarrow> u16 \<Rightarrow> u8 \<Rightarrow> bool \<Rightarrow> rgtp_raweth_ctx cres \<times> syscall list" where
  "rgtp_raweth_open b os calloc_ok iface vlan_id vlan_pcp ctx_out =
    (if \<not> b_raw_ethernet b \<or> b_platform b \<noteq> Linux then (err RGTP_ERR_NOT_SUPPORTED, [])
     else
       (case iface of
          None \<Rightarrow> (err RGTP_ERR_INVALID_ARG, [])
        | Some name \<Rightarrow>
            if \<not> ctx_out then (err RGTP_ERR_INVALID_ARG, [])
            else if \<not> calloc_ok then (err RGTP_ERR_NOMEM, [])
            else
              (let fd = os_socket os AF_PACKET; ix = os_ifindex os name in
               if fd < 0 then (err RGTP_ERR_SOCKET, [])
               else if ix = 0 then (err RGTP_ERR_SOCKET, [Opened fd, Closed fd])
               else if \<not> os_bind_if os fd ix then (err RGTP_ERR_SOCKET, [Opened fd, Closed fd])
               else (ok \<lparr>r_fd = fd, r_ifindex = ix, r_vlan_id = vlan_id, r_vlan_pcp = vlan_pcp AND 7\<rparr>, [Opened fd]))))"

definition rgtp_raweth_close :: "rgtp_raweth_ctx option \<Rightarrow> syscall list" where
  "rgtp_raweth_close ctx = (case ctx of None \<Rightarrow> [] | Some c \<Rightarrow> [Closed (r_fd c)])"

definition RGTP_MAX_ETH_PAYLOAD :: nat where "RGTP_MAX_ETH_PAYLOAD = 1486"

definition rgtp_raweth_send ::
    "bool \<Rightarrow> rgtp_raweth_ctx option \<Rightarrow> bytes option \<Rightarrow> bytes option \<Rightarrow> unit cres \<times> syscall list" where
  "rgtp_raweth_send sendto_ok ctx dst_mac payload =
    (case (ctx, dst_mac, payload) of
       (Some c, Some mac, Some p) \<Rightarrow>
         if length p > RGTP_MAX_ETH_PAYLOAD then (err RGTP_ERR_INVALID_ARG, [])
         else if length mac < 6 then (None, [])
         else
           (if sendto_ok then ok () else err RGTP_ERR_SOCKET,
            (if r_vlan_id c \<noteq> 0 then [Priority (r_fd c) (r_vlan_pcp c)] else []) @ [Sent_frame (r_fd c) (r_ifindex c) (take 6 mac) p])
     | _ \<Rightarrow> (err RGTP_ERR_INVALID_ARG, []))"

subsection \<open>The queue of io_uring\<close>

text \<open>With the build option; the flag is the global \<^verbatim>\<open>initialised\<close>.  The
  calls of the library: initialising the queue, its result, a free entry and the result of the
  submission.\<close>

definition rgtp_iouring_init :: "bool \<Rightarrow> int \<Rightarrow> bool \<Rightarrow> unit cres \<times> bool" where
  "rgtp_iouring_init enabled ret initialised =
    (if \<not> enabled then (err RGTP_ERR_NOT_SUPPORTED, initialised)
     else if initialised then (ok (), True)
     else if ret < 0 then (err RGTP_ERR_NOT_SUPPORTED, False)
     else (ok (), True))"

definition rgtp_iouring_cleanup :: "bool \<Rightarrow> bool \<Rightarrow> bool" where
  "rgtp_iouring_cleanup enabled initialised = (if enabled then False else initialised)"

definition rgtp_iouring_submit_recv :: "bool \<Rightarrow> bool \<Rightarrow> int \<Rightarrow> bool \<Rightarrow> unit cres" where
  "rgtp_iouring_submit_recv enabled sqe ret initialised =
    (if \<not> enabled \<or> \<not> initialised then err RGTP_ERR_NOT_SUPPORTED
     else if \<not> sqe then err RGTP_ERR_INTERNAL
     else if ret \<ge> 0 then ok () else err RGTP_ERR_SOCKET)"

subsection \<open>Batched sending\<close>

definition RGTP_BATCH_SIZE_DEFAULT :: nat where "RGTP_BATCH_SIZE_DEFAULT = 64"

text \<open>An answer to \<^verbatim>\<open>sendmmsg\<close>: the number of messages sent,
  \<^verbatim>\<open>EINTR\<close>, or another error.\<close>

datatype send_answer = Sent nat | Interrupted | Failed

text \<open>The loop, with the answers still to come and the messages that the kernel has taken.
  Without an answer left the loop is still in a call.\<close>

fun sendmmsg_loop :: "send_answer list \<Rightarrow> 'm list \<Rightarrow> nat \<Rightarrow> 'm list \<Rightarrow> (int \<times> 'm list) option" where
  "sendmmsg_loop answers msgs sent taken =
    (if length msgs \<le> sent then Some (int sent, taken)
     else
       (case answers of
          [] \<Rightarrow> None
        | Interrupted # rest \<Rightarrow> sendmmsg_loop rest msgs sent taken
        | Failed # rest \<Rightarrow> Some (if sent > 0 then int sent else - 1, taken)
        | Sent r # rest \<Rightarrow>
            sendmmsg_loop rest msgs (sent + r) (taken @ take r (take RGTP_BATCH_SIZE_DEFAULT (drop sent msgs)))))"

declare sendmmsg_loop.simps [simp del]

text \<open>The fallback: one \<^verbatim>\<open>sendto\<close> for each message.\<close>

fun sendto_loop :: "send_answer list \<Rightarrow> 'm list \<Rightarrow> nat \<Rightarrow> 'm list \<Rightarrow> (int \<times> 'm list) option" where
  "sendto_loop answers msgs i taken =
    (if length msgs \<le> i then Some (int i, taken)
     else
       (case answers of
          [] \<Rightarrow> None
        | Interrupted # rest \<Rightarrow> sendto_loop rest msgs i taken
        | Failed # rest \<Rightarrow> Some (if i > 0 then int i else - 1, taken)
        | Sent r # rest \<Rightarrow> sendto_loop rest msgs (i + 1) (taken @ [msgs ! i])))"

declare sendto_loop.simps [simp del]

definition rgtp_sendmmsg_batch :: "bool \<Rightarrow> send_answer list \<Rightarrow> 'm list option \<Rightarrow> int \<Rightarrow> (int \<times> 'm list) option" where
  "rgtp_sendmmsg_batch have_sendmmsg answers msgs cnt =
    (if cnt \<le> 0 then Some (0, [])
     else
       (case msgs of
          None \<Rightarrow> Some (0, [])
        | Some ms \<Rightarrow>
            if length ms < nat cnt then None
            else if have_sendmmsg then sendmmsg_loop answers (take (nat cnt) ms) 0 []
            else sendto_loop answers (take (nat cnt) ms) 0 []))"

text \<open>Receiving: the lengths of the datagrams that one call of
  \<^verbatim>\<open>recvmmsg\<close> or \<^verbatim>\<open>recvfrom\<close> delivered, if it
  succeeded, are stored in the descriptors; a descriptor is its capacity and its received
  length.\<close>

definition rgtp_recvmmsg_batch ::
    "bool \<Rightarrow> nat list option \<Rightarrow> (nat \<times> nat) list option \<Rightarrow> int \<Rightarrow> (int \<times> (nat \<times> nat) list) option" where
  "rgtp_recvmmsg_batch have_recvmmsg answer msgs cnt =
    (if cnt \<le> 0 then Some (0, case msgs of Some ms \<Rightarrow> ms | None \<Rightarrow> [])
     else
       (case msgs of
          None \<Rightarrow> Some (0, [])
        | Some ms \<Rightarrow>
            if length ms < nat cnt then None
            else
              (case answer of
                 None \<Rightarrow> Some (- 1, ms)
               | Some ls \<Rightarrow>
                   (let n = (if have_recvmmsg then min (length ls) (min (nat cnt) RGTP_BATCH_SIZE_DEFAULT) else 1) in
                    if length ls < n then None
                    else Some (int n, map (\<lambda>((cap, old), l). (cap, l)) (zip (take n ms) (take n ls)) @ drop n ms)))))"

subsection \<open>Sending takes a prefix\<close>

text \<open>An answer that \<^verbatim>\<open>sendmmsg\<close> may give: it sends at least one
  message and no more than it was given.\<close>

fun answers_ok :: "nat \<Rightarrow> send_answer list \<Rightarrow> bool" where
  "answers_ok n (Sent r # rest) = (n = 0 \<or> (1 \<le> r \<and> r \<le> min n RGTP_BATCH_SIZE_DEFAULT \<and> answers_ok (n - r) rest))"
| "answers_ok n (Interrupted # rest) = answers_ok n rest"
| "answers_ok n _ = True"

definition final_answers :: "send_answer list \<Rightarrow> nat" where
  "final_answers answers = length (filter (\<lambda>a. a \<noteq> Interrupted) answers)"

lemma sendmmsg_loop_prefix:
  assumes "answers_ok (length msgs - sent) answers" "length msgs - sent \<le> final_answers answers"
    "taken = take sent msgs" "sent \<le> length msgs"
  shows "\<exists>n. sendmmsg_loop answers msgs sent taken = Some (if n = 0 \<and> msgs \<noteq> [] then - 1 else int n, take n msgs) \<and>
    sent \<le> n \<and> n \<le> length msgs \<and> (n = length msgs \<or> Failed \<in> set answers)"
  using assms
proof (induction answers arbitrary: sent taken)
  case Nil
  then show ?case by (auto simp: final_answers_def sendmmsg_loop.simps [of "[]"])
next
  case (Cons a rest)
  show ?case
  proof (cases "sent = length msgs")
    case True
    then show ?thesis using Cons.prems(3) by (intro exI [of _ sent]) (auto simp: sendmmsg_loop.simps [of "a # rest"])
  next
    case False
    note unfold = sendmmsg_loop.simps [of "a # rest" msgs sent taken]
    show ?thesis
    proof (cases a)
      case (Sent r)
      have r: "1 \<le> r" "r \<le> length msgs - sent" "r \<le> RGTP_BATCH_SIZE_DEFAULT" "answers_ok (length msgs - (sent + r)) rest"
        using Cons.prems(1,4) Sent False by auto
      have taken: "taken @ take r (take RGTP_BATCH_SIZE_DEFAULT (drop sent msgs)) = take (sent + r) msgs"
        using Cons.prems(3) r(3) by (simp add: take_add min_def)
      have "length msgs - (sent + r) \<le> final_answers rest"
        using Cons.prems(2) Sent r(1) by (simp add: final_answers_def)
      moreover have "sent + r \<le> length msgs" using r(2) Cons.prems(4) by linarith
      ultimately obtain n where n: "sendmmsg_loop rest msgs (sent + r) (taken @ take r (take RGTP_BATCH_SIZE_DEFAULT (drop sent msgs))) =
          Some (if n = 0 \<and> msgs \<noteq> [] then - 1 else int n, take n msgs)"
        "sent + r \<le> n" "n \<le> length msgs" "n = length msgs \<or> Failed \<in> set rest"
        using Cons.IH [OF r(4) _ taken] by blast
      then show ?thesis using Sent unfold False Cons.prems(4) by (intro exI [of _ n]) auto
    next
      case Interrupted
      then show ?thesis
        using Cons.IH [of sent taken] Cons.prems unfold False by (auto simp: final_answers_def)
    next
      case Failed
      then show ?thesis
        using Cons.prems(3,4) unfold False by (intro exI [of _ sent]) auto
    qed
  qed
qed

text \<open>The fallback is the loop with answers that take one message.\<close>

fun one_message :: "send_answer \<Rightarrow> send_answer" where
  "one_message (Sent r) = Sent 1"
| "one_message a = a"

lemma sendto_is_sendmmsg: "sendto_loop answers msgs i taken = sendmmsg_loop (map one_message answers) msgs i taken"
proof (induction answers arbitrary: i taken)
  case Nil
  then show ?case by (simp add: sendto_loop.simps [of "[]"] sendmmsg_loop.simps [of "[]"])
next
  case (Cons a rest)
  have "[msgs ! i] = take 1 (take RGTP_BATCH_SIZE_DEFAULT (drop i msgs))" if "i < length msgs"
    using that by (simp add: RGTP_BATCH_SIZE_DEFAULT_def take_Suc hd_drop_conv_nth)
  then show ?case
    using Cons.IH by (cases a) (simp_all add: sendto_loop.simps [of "_ # rest"] sendmmsg_loop.simps [of "_ # map one_message rest"])
qed

lemma one_message_answers:
  "answers_ok n (map one_message answers)" "final_answers (map one_message answers) = final_answers answers"
  "Failed \<in> set (map one_message answers) \<longleftrightarrow> Failed \<in> set answers"
proof -
  show "answers_ok n (map one_message answers)"
  proof (induction answers arbitrary: n)
    case (Cons a rest)
    then show ?case by (cases a) (auto simp: RGTP_BATCH_SIZE_DEFAULT_def)
  qed simp
  have *: "one_message a = Interrupted \<longleftrightarrow> a = Interrupted" "Failed = one_message a \<longleftrightarrow> a = Failed" for a
    by (cases a; simp)+
  show "final_answers (map one_message answers) = final_answers answers"
    by (simp add: final_answers_def filter_map comp_def *)
  show "Failed \<in> set (map one_message answers) \<longleftrightarrow> Failed \<in> set answers" by (auto simp: * image_iff)
qed

subsection \<open>Descriptors\<close>

lemma open_fds_app: "open_fds (a @ b) fds = open_fds b (open_fds a fds)"
  by (induction a fds rule: open_fds.induct) simp_all

text \<open>C24: When every call of \<^verbatim>\<open>sendmmsg\<close> that is not interrupted sends
  between one message and the whole batch or fails, and there are as many such answers as
  messages, the batch is sent by a loop that returns: the kernel has taken a prefix of the
  messages, in order and each once, whatever calls were interrupted; the result is its length,
  or \<open>-1\<close> for the empty one; and it is all of them unless a call failed.  The
  fallback with \<^verbatim>\<open>sendto\<close> does the same.\<close>

theorem send_batch_prefix:
  assumes "ms \<noteq> []" "\<not> have_sendmmsg \<or> answers_ok (length ms) answers" "length ms \<le> final_answers answers"
  shows "\<exists>n \<le> length ms. rgtp_sendmmsg_batch have_sendmmsg answers (Some ms) (int (length ms)) =
    Some (if n = 0 then - 1 else int n, take n ms) \<and> (n = length ms \<or> Failed \<in> set answers)"
proof -
  define as where "as = (if have_sendmmsg then answers else map one_message answers)"
  have as: "answers_ok (length ms - 0) as" "length ms - 0 \<le> final_answers as" "Failed \<in> set as \<longleftrightarrow> Failed \<in> set answers"
    using assms(2,3) one_message_answers by (simp_all add: as_def)
  obtain n where n: "sendmmsg_loop as ms 0 [] = Some (if n = 0 \<and> ms \<noteq> [] then - 1 else int n, take n ms)"
      "n \<le> length ms" "n = length ms \<or> Failed \<in> set as"
    using sendmmsg_loop_prefix [OF as(1,2)] by auto
  have "rgtp_sendmmsg_batch have_sendmmsg answers (Some ms) (int (length ms)) = sendmmsg_loop as ms 0 []"
    using assms(1) by (simp add: rgtp_sendmmsg_batch_def as_def sendto_is_sendmmsg)
  then show ?thesis using n as(3) assms(1) by (intro exI [of _ n]) simp
qed

theorem send_batch_prefix_witness:
  "\<exists>n \<le> 3. rgtp_sendmmsg_batch True [Interrupted, Sent 2, Interrupted, Sent 1, Failed] (Some [10, 20, 30 :: nat]) 3 =
     Some (if n = 0 then - 1 else int n, take n [10, 20, 30])"
proof -
  have "answers_ok (length [10, 20, 30 :: nat]) [Interrupted, Sent 2, Interrupted, Sent 1, Failed]" by code_simp
  moreover have "length [10, 20, 30 :: nat] \<le> final_answers [Interrupted, Sent 2, Interrupted, Sent 1, Failed]" by code_simp
  ultimately show ?thesis
    using send_batch_prefix [of "[10, 20, 30 :: nat]" True "[Interrupted, Sent 2, Interrupted, Sent 1, Failed]"] by auto
qed

text \<open>What the two kinds of sockets leave open.\<close>

lemma create_raweth_no_leak:
  assumes "\<forall>f. os_socket os f \<notin> fds" and "create_raweth_socket b os cfg = (r, cs)"
  shows "case r of None \<Rightarrow> False | Some (Inl e) \<Rightarrow> open_fds cs fds = fds
    | Some (Inr fd) \<Rightarrow> open_fds cs fds = insert fd fds \<and> fd \<notin> fds \<and> fd \<noteq> - 1"
  using assms by (auto simp: create_raweth_socket_def Let_def split: if_splits)

lemma create_udp_no_leak:
  assumes "\<forall>f. os_socket os f \<notin> fds" and "create_udp_socket os cfg = (r, cs)"
  shows "case r of None \<Rightarrow> False | Some (Inl e) \<Rightarrow> open_fds cs fds = fds
    | Some (Inr (fd, p)) \<Rightarrow> open_fds cs fds = insert fd fds \<and> fd \<notin> fds \<and> fd \<noteq> - 1 \<and>
        (let port = (case cfg of Some c \<Rightarrow> cfg_port c | None \<Rightarrow> 0) in os_bind os fd port \<and> p = os_port os fd port)"
  using assms by (auto simp: create_udp_socket_def Let_def split: if_splits)

text \<open>C26: Whatever the system calls answer, as long as a new descriptor is not one that is
  open already: a socket that cannot be created leaves the open descriptors as they were, one
  that is created adds exactly the descriptor of its handle, and destroying the handle restores
  them.  A created UDP socket is bound to the configured port and reports the port that the
  system assigned.\<close>

theorem socket_no_leak:
  assumes "\<forall>f. os_socket os f \<notin> fds" and "rgtp_socket_create b os malloc_ok cfg out = (r, cs)"
  shows "case r of
      None \<Rightarrow> False
    | Some (Inl e) \<Rightarrow> open_fds cs fds = fds
    | Some (Inr k) \<Rightarrow>
        open_fds cs fds = insert (k_fd k) fds \<and> open_fds (cs @ rgtp_socket_destroy (Some k)) fds = fds \<and>
        (k_is_raw_ethernet k \<or>
          (let port = (case cfg of Some c \<Rightarrow> cfg_port c | None \<Rightarrow> 0) in
           os_bind os (k_fd k) port \<and> k_bound_port k = os_port os (k_fd k) port))"
proof -
  note raw = create_raweth_no_leak [OF assms(1)] and udp = create_udp_no_leak [OF assms(1)]
  obtain rr cc rr' cc' where e: "create_raweth_socket b os cfg = (rr, cc)" "create_udp_socket os cfg = (rr', cc')"
    by fastforce
  show ?thesis
  proof (cases "\<not> out \<or> \<not> malloc_ok")
    case True
    then show ?thesis using assms(2) by (auto simp: rgtp_socket_create_def split: if_splits)
  next
    case alloc: False
    show ?thesis
    proof (cases "case cfg of Some c \<Rightarrow> cfg_raw_ethernet c | None \<Rightarrow> False")
      case True
      then have "(r, cs) = (if b_raw_ethernet b then (cbind rr (\<lambda>fd. ok \<lparr>k_fd = fd, k_backend = select_backend b True, k_bound_port = 0,
          k_is_raw_ethernet = True, k_config = (case cfg of Some c \<Rightarrow> c | None \<Rightarrow> zero_config)\<rparr>), cc) else (err RGTP_ERR_NOT_SUPPORTED, []))"
        using assms(2) alloc by (cases "b_raw_ethernet b") (simp_all add: rgtp_socket_create_def Let_def e)
      then show ?thesis
        using raw [OF e(1)] by (auto simp: cbind_def rgtp_socket_destroy_def open_fds_app split: if_splits option.splits sum.splits)
    next
      case False
      show ?thesis
      proof (cases rr')
        case None
        then show ?thesis using udp [OF e(2)] by simp
      next
        case (Some x)
        then show ?thesis
          using assms(2) alloc False udp [OF e(2)]
          by (cases x) (auto simp: rgtp_socket_create_def rgtp_socket_destroy_def e Let_def open_fds_app)
      qed
    qed
  qed
qed

text \<open>The functions of the exposer leak no descriptor either, but leave the socket in blocking
  mode.\<close>

lemma exposer_socket_no_leak:
  assumes "\<forall>f. os_socket os f \<notin> fds" and "exposer_socket_create os calloc_ok cfg out = (r, cs)"
  shows "case r of
      None \<Rightarrow> False
    | Some (Inl e) \<Rightarrow> open_fds cs fds = fds
    | Some (Inr k) \<Rightarrow> open_fds cs fds = insert (x_fd k) fds \<and> open_fds (cs @ exposer_socket_destroy (Some k)) fds = fds \<and>
        Nonblocking (x_fd k) \<notin> set cs"
  using assms by (auto simp: exposer_socket_create_def exposer_socket_destroy_def Let_def split: if_splits)

definition example_os :: os where
  "example_os = \<lparr>os_socket = (\<lambda>f. if f = AF_INET6 then - 1 else 5), os_bind = (\<lambda>fd p. True),
     os_port = (\<lambda>fd p. if p = 0 then 40000 else p), os_ifindex = (\<lambda>n. 2), os_bind_if = (\<lambda>fd i. False)\<rparr>"

definition example_build :: build where
  "example_build = \<lparr>b_platform = Linux, b_iouring = False, b_raw_ethernet = True, b_udp_segment = True\<rparr>"

theorem socket_no_leak_witness:
  "\<exists>k cs. rgtp_socket_create example_build example_os True None True = (ok k, cs) \<and>
     open_fds cs {0, 1, 2} = {5, 0, 1, 2} \<and> open_fds (cs @ rgtp_socket_destroy (Some k)) {0, 1, 2} = {0, 1, 2}"
proof -
  obtain k cs where k: "rgtp_socket_create example_build example_os True None True = (ok k, cs)" "k_fd k = 5"
    by (simp add: rgtp_socket_create_def create_udp_socket_def example_os_def Let_def)
  moreover have "\<forall>f. os_socket example_os f \<notin> {0, 1, 2}" by (simp add: example_os_def)
  from socket_no_leak [OF this k(1)] k(2)
  have "open_fds cs {0, 1, 2} = {5, 0, 1, 2} \<and> open_fds (cs @ rgtp_socket_destroy (Some k)) {0, 1, 2} = {0, 1, 2}"
    by simp
  ultimately show ?thesis by blast
qed

end
