(* ===== verification/Rgtp_Legacy.thy ===== *)
theory Rgtp_Legacy
  imports Rgtp_Wire Rgtp_GF256 "HOL-Library.Multiset"
begin

text \<open>
  The earlier implementation \<^verbatim>\<open>src/core/rgtp_core.c\<close>, as far as its own text fixes
  the types: the Reed-Solomon tables and the block encoder, the list of served clients, the
  generators, the ciphers and the hash, the pieces of an exposure, the messages of a pull, and the
  memory pool.  The structures of sessions, clients and surfaces belong to a public header that
  the repository no longer has; what depends on their layout is left out.
\<close>

subsection \<open>Reed-Solomon blocks\<close>

definition rs_next :: "u8 \<Rightarrow> u8" where
  "rs_next e = (let v = push_bit 1 e in if v = 0 then ucast (push_bit 1 (ucast e :: u32) XOR 0x1d) else v)"

definition rs_exp :: "u8 list" where
  "rs_exp = map (\<lambda>i. (rs_next ^^ i) 1) [0..<256]"

definition rs_log :: "u8 list" where
  "rs_log = fold (\<lambda>i l. l[unat (rs_exp ! i) := word_of_nat i]) [0..<256] (replicate 256 0)"

text \<open>The entry of the power table that the code indexes by a logarithm plus an
  offset.\<close>

definition rs_power :: "u8 \<Rightarrow> nat \<Rightarrow> u8" where
  "rs_power x k = rs_exp ! ((unat (rs_log ! unat x) + k) mod 255)"

definition rs_poly :: "u8 list" where
  "rs_poly = fold (\<lambda>i p. fold (\<lambda>j p. p[j + 1 := p ! (j + 1) XOR rs_power (p ! j) i]) (rev [0..<Suc i]) p)
     [0..<32] ((replicate 255 0)[0 := 1])"

definition rs_encode_step :: "bytes \<Rightarrow> nat \<Rightarrow> nat \<Rightarrow> bytes \<Rightarrow> bytes option" where
  "rs_encode_step data data_size i out =
    (let k = out ! i XOR data ! i in
     if k = 0 then Some out
     else if length out < data_size + 32 then None
     else
       (let out1 = fold (\<lambda>j o1. o1[data_size + j := o1 ! (data_size + j) XOR rs_power (rs_poly ! (31 - j)) (unat (rs_log ! unat k))])
              [0..<31] out in
        Some (out1[data_size + 31 := out1 ! (data_size + 31) XOR k])))"

fun rs_encode_loop :: "bytes \<Rightarrow> nat \<Rightarrow> nat list \<Rightarrow> bytes \<Rightarrow> bytes option" where
  "rs_encode_loop data data_size [] out = Some out"
| "rs_encode_loop data data_size (i # is) out =
    Option.bind (rs_encode_step data data_size i out) (rs_encode_loop data data_size is)"

definition rs_encode_block :: "bytes \<Rightarrow> nat \<Rightarrow> bytes option" where
  "rs_encode_block data data_size =
    (if length data < data_size \<or> 255 < data_size then None
     else rs_encode_loop data data_size [0..<data_size] (take data_size data @ replicate (255 - data_size) 0))"

subsection \<open>Served clients\<close>

text \<open>Addresses are the bytes that \<^verbatim>\<open>memcmp\<close> compares; a failed
  allocation leaves the list unchanged.\<close>

definition already_served :: "bytes list \<Rightarrow> bytes \<Rightarrow> bool" where
  "already_served served client \<longleftrightarrow> client \<in> set served"

definition mark_served :: "bool \<Rightarrow> bytes list \<Rightarrow> bytes \<Rightarrow> bytes list" where
  "mark_served calloc_ok served client = (if calloc_ok then client # served else served)"

subsection \<open>Generators\<close>

definition next_random :: "u64 \<Rightarrow> u64" where
  "next_random s0 =
    (let s1 = s0 XOR push_bit 13 s0; s2 = s1 XOR drop_bit 7 s1 in s2 XOR push_bit 17 s2)"

definition rng_seed :: u64 where "rng_seed = 0xdeadbeefcafebabe"

text \<open>The static seed, the time of day in seconds and microseconds when the seed is 0, and
  \<^verbatim>\<open>time(NULL)\<close>; the new seed and the identifier.\<close>

definition legacy_generate_exposure_id :: "u32 \<Rightarrow> int \<Rightarrow> int \<Rightarrow> int \<Rightarrow> u32 \<times> u64 \<times> u64" where
  "legacy_generate_exposure_id seed sec usec now =
    (let seed1 = (if seed = 0 then word_of_int (sec * 1000000 + usec) else seed);
         seed2 = seed1 * 1103515245 + 12345 in
     (seed2, push_bit 32 (ucast seed2) OR ucast (drop_bit 16 seed2),
      push_bit 32 (ucast (seed2 * 1103515245 + 12345)) OR word_of_int now))"

subsection \<open>Ciphers and hash\<close>

definition rgtp_xor_encrypt :: "bytes \<Rightarrow> u64 \<Rightarrow> bytes \<Rightarrow> bytes option" where
  "rgtp_xor_encrypt input counter key =
    (if length key < 32 then None
     else Some (map (\<lambda>i. input ! i XOR key ! (i mod 32) XOR ucast (drop_bit (i mod 8) counter)) [0..<length input]))"

definition xor_encrypt :: "bytes \<Rightarrow> bytes \<Rightarrow> bytes option" where
  "xor_encrypt input key =
    (if input = [] then Some []
     else if key = [] then None
     else Some (map (\<lambda>i. input ! i XOR key ! (i mod length key)) [0..<length input]))"

definition xor_decrypt :: "bytes \<Rightarrow> bytes \<Rightarrow> bytes option" where
  "xor_decrypt input key = xor_encrypt input key"

definition rgtp_hash_chunk :: "bytes \<Rightarrow> u32" where
  "rgtp_hash_chunk data = foldl (\<lambda>h b. (h XOR ucast b) * 0x01000193) 0x811C9DC5 data"

subsection \<open>Pieces of an exposure\<close>

text \<open>The offset is computed in \<^verbatim>\<open>uint32_t\<close>.\<close>

definition piece_offset :: "u32 \<Rightarrow> nat" where
  "piece_offset i = unat (i * 1450)"

definition piece_size :: "u32 \<Rightarrow> nat \<Rightarrow> nat" where
  "piece_size i sz = (if piece_offset i + 1450 \<le> sz then 1450 else sz - piece_offset i)"

definition piece_count :: "u64 \<Rightarrow> u32" where
  "piece_count sz = ucast ((sz + 1449) div 1450)"

text \<open>The pieces that \<^verbatim>\<open>rgtp_expose_data\<close> copies, when the allocations
  succeed.\<close>

definition expose_pieces :: "bytes \<Rightarrow> bytes list" where
  "expose_pieces data =
    map (\<lambda>i. take (piece_size (word_of_nat i) (length data)) (drop (piece_offset (word_of_nat i)) data))
      [0..<unat (piece_count (word_of_nat (length data)))]"

subsection \<open>Messages of a pull\<close>

text \<open>Identifier, size and number of chunks of an exposure.\<close>

record legacy_exposure =
  x_id0 :: u64
  x_id1 :: u64
  x_total_size :: u64
  x_chunk_count :: u32

text \<open>The request copies the identifier from memory, in the order of a little-endian
  host.\<close>

definition pull_request_bytes :: "u64 \<Rightarrow> u64 \<Rightarrow> bytes" where
  "pull_request_bytes id0 id1 = [0xFE] @ replicate 7 0 @ rev (u64_be id0) @ rev (u64_be id1) @ replicate 8 0"

definition manifest_bytes :: "legacy_exposure \<Rightarrow> bytes" where
  "manifest_bytes x = u64_be (x_id0 x) @ u64_be (x_id1 x) @ u64_be (x_total_size x) @ u32_be (x_chunk_count x) @ u32_be 1450 @
     [0xFF] @ replicate 15 0"

definition id_at :: "legacy_exposure \<Rightarrow> nat \<Rightarrow> bytes \<Rightarrow> bool" where
  "id_at x off buf \<longleftrightarrow> read_u64_be (drop off buf) = Some (x_id0 x) \<and> read_u64_be (drop (off + 8) buf) = Some (x_id1 x)"

text \<open>What \<^verbatim>\<open>rgtp_poll\<close> answers to one datagram before the chunks: the
  manifest, if the datagram is a request or a manifest for this exposure.\<close>

definition poll_answer :: "legacy_exposure \<Rightarrow> bytes \<Rightarrow> bytes option" where
  "poll_answer x buf =
    (if 32 \<le> length buf \<and> buf ! 0 = 0xFE \<and> id_at x 8 buf then Some (manifest_bytes x)
     else if 48 \<le> length buf \<and> buf ! 32 = 0xFF \<and> id_at x 0 buf then Some (manifest_bytes x)
     else None)"

text \<open>What \<^verbatim>\<open>rgtp_pull_next\<close> takes from a datagram: size, number and
  size of the chunks, or a chunk.\<close>

datatype pulled = Manifest u64 u32 u32 | Chunk_payload bytes | Skipped

definition pull_datagram :: "u64 \<Rightarrow> u64 \<Rightarrow> bytes \<Rightarrow> pulled" where
  "pull_datagram id0 id1 buf =
    (if 48 \<le> length buf \<and> buf ! 32 = 0xFF \<and> read_u64_be buf = Some id0 \<and> read_u64_be (drop 8 buf) = Some id1
     then Manifest (the (read_u64_be (drop 16 buf))) (the (read_u32_be (drop 24 buf))) (the (read_u32_be (drop 28 buf)))
     else if 5 < length buf \<and> buf ! 0 = 0x01 then Chunk_payload (drop 5 buf)
     else Skipped)"

subsection \<open>The memory pool\<close>

record 'p pool =
  block_size :: nat
  total_blocks :: nat
  free_count :: nat
  blocks :: "'p option list"

text \<open>The size of the array of blocks is a constant of the missing header; the results of
  \<^verbatim>\<open>malloc\<close> are an argument.\<close>

definition rgtp_memory_pool_create :: "nat \<Rightarrow> bool \<Rightarrow> (nat \<Rightarrow> 'p option) \<Rightarrow> nat \<Rightarrow> int \<Rightarrow> 'p pool option" where
  "rgtp_memory_pool_create pool_max calloc_ok malloc bsize num_blocks =
    (if num_blocks \<le> 0 \<or> int pool_max < num_blocks \<or> bsize = 0 then None
     else if \<not> calloc_ok then None
     else if \<not> list_all (\<lambda>i. malloc i \<noteq> None) [0..<nat num_blocks] then None
     else Some \<lparr>block_size = bsize, total_blocks = nat num_blocks, free_count = nat num_blocks,
       blocks = map malloc [0..<nat num_blocks] @ replicate (pool_max - nat num_blocks) None\<rparr>)"

definition rgtp_memory_pool_alloc :: "'p pool option \<Rightarrow> 'p option \<times> 'p pool option" where
  "rgtp_memory_pool_alloc pool =
    (case pool of
       None \<Rightarrow> (None, None)
     | Some p \<Rightarrow>
         if free_count p = 0 then (None, pool)
         else
           (case find (\<lambda>i. blocks p ! i \<noteq> None) [0..<total_blocks p] of
              None \<Rightarrow> (None, pool)
            | Some i \<Rightarrow> (blocks p ! i, Some (p\<lparr>blocks := (blocks p)[i := None], free_count := free_count p - 1\<rparr>))))"

text \<open>The pool and the block that is given back to the system, if the pool does not take
  it.\<close>

definition rgtp_memory_pool_free :: "'p pool option \<Rightarrow> 'p option \<Rightarrow> 'p pool option \<times> 'p option" where
  "rgtp_memory_pool_free pool ptr =
    (case (pool, ptr) of
       (Some p, Some b) \<Rightarrow>
         if free_count p < total_blocks p then
           (case find (\<lambda>i. blocks p ! i = None) [0..<total_blocks p] of
              Some i \<Rightarrow> (Some (p\<lparr>blocks := (blocks p)[i := Some b], free_count := free_count p + 1\<rparr>), None)
            | None \<Rightarrow> (pool, ptr))
         else (pool, ptr)
     | _ \<Rightarrow> (pool, None))"

text \<open>The blocks that a destroy releases before the pool itself.\<close>

definition rgtp_memory_pool_destroy :: "'p pool option \<Rightarrow> 'p list" where
  "rgtp_memory_pool_destroy pool =
    (case pool of None \<Rightarrow> [] | Some p \<Rightarrow> map the (filter (\<lambda>b. b \<noteq> None) (take (total_blocks p) (blocks p))))"

subsection \<open>The encoder adds no parity\<close>

lemma rs_encode_loop_id:
  assumes "\<forall>i \<in> set is. out ! i = data ! i"
  shows "rs_encode_loop data data_size is out = Some out"
  using assms by (induction "is") (simp_all add: rs_encode_step_def)

lemma legacy_parity_zero:
  assumes "data_size \<le> length data" "data_size \<le> 255"
  shows "rs_encode_block data data_size = Some (take data_size data @ replicate (255 - data_size) 0)"
  using assms by (simp add: rs_encode_block_def rs_encode_loop_id nth_append)

text \<open>The reduction is missing when the shifted byte is not 0: the power 12 is not twice
  the power 11 in the field.\<close>

lemma rs_exp_nth:
  assumes "i < 256"
  shows "rs_exp ! i = (rs_next ^^ i) 1"
proof -
  have "i < length [0..<256]" using assms by (simp del: upt_rec_numeral)
  then show ?thesis unfolding rs_exp_def by (simp del: upt_rec_numeral add: nth_map)
qed

lemma legacy_exp_wrong: "rs_exp ! 12 \<noteq> gf_mul 2 (rs_exp ! 11)"
proof -
  have "rs_next 1 = 2" "rs_next 2 = 4" "rs_next 4 = 8" "rs_next 8 = 16" "rs_next 16 = 32" "rs_next 32 = 64" "rs_next 64 = 128"
    "rs_next 128 = 29" "rs_next 29 = 58" "rs_next 58 = 116" "rs_next 116 = 232" "rs_next 232 = 208"
    by code_simp+
  then have "(rs_next ^^ 11) 1 = 232" "(rs_next ^^ 12) 1 = 208" by (simp_all add: eval_nat_numeral)
  moreover have "xtime 232 \<noteq> 208" by code_simp
  ultimately show ?thesis by (simp add: rs_exp_nth flip: xtime_gf_mul)
qed

subsection \<open>Ciphers and generators\<close>

lemma xor_stream_involution:
  fixes k :: "nat \<Rightarrow> u8"
  assumes "c = map (\<lambda>i. input ! i XOR k i) [0..<length input]"
  shows "map (\<lambda>i. c ! i XOR k i) [0..<length c] = input"
proof (rule nth_equalityI)
  show "length (map (\<lambda>i. c ! i XOR k i) [0..<length c]) = length input" using assms by simp
  fix i
  assume "i < length (map (\<lambda>i. c ! i XOR k i) [0..<length c])"
  then have "i < length input" using assms by simp
  then have "map (\<lambda>i. c ! i XOR k i) [0..<length c] ! i = (input ! i XOR k i) XOR k i" using assms by simp
  also have "\<dots> = input ! i" by (simp only: xor.assoc xor_self_eq xor.right_neutral)
  finally show "map (\<lambda>i. c ! i XOR k i) [0..<length c] ! i = input ! i" .
qed

text \<open>Both ciphers are their own inverses.\<close>

lemma rgtp_xor_encrypt_involution:
  assumes "rgtp_xor_encrypt input counter key = Some c"
  shows "rgtp_xor_encrypt c counter key = Some input"
proof -
  let ?k = "\<lambda>i. key ! (i mod 32) XOR ucast (drop_bit (i mod 8) counter)"
  have "\<not> length key < 32" "c = map (\<lambda>i. input ! i XOR ?k i) [0..<length input]"
    using assms unfolding rgtp_xor_encrypt_def xor.assoc by (auto split: if_splits)
  then show ?thesis unfolding rgtp_xor_encrypt_def xor.assoc using xor_stream_involution [of c input ?k] by simp
qed

lemma xor_decrypt_encrypt:
  assumes "xor_encrypt input key = Some c"
  shows "xor_decrypt c key = Some input"
proof (cases "input = []")
  case False
  then have c: "key \<noteq> []" "c = map (\<lambda>i. input ! i XOR key ! (i mod length key)) [0..<length input]"
    using assms by (auto simp: xor_encrypt_def split: if_splits)
  then have "c \<noteq> []" using False by auto
  then show ?thesis
    unfolding xor_decrypt_def xor_encrypt_def using c(1) xor_stream_involution [OF c(2)] by simp
qed (use assms in \<open>simp add: xor_encrypt_def xor_decrypt_def\<close>)

text \<open>The generator never reaches the state 0, from which it could not leave.\<close>

lemma xor_push_zero:
  fixes x :: u64
  assumes "x XOR push_bit n x = 0" "0 < n"
  shows "x = 0"
proof -
  have "\<not> bit x k" for k
  proof (induction k rule: less_induct)
    case (less k)
    have "bit (x XOR push_bit n x) k = bit (0 :: u64) k" using assms(1) by simp
    then have "bit x k \<longleftrightarrow> n \<le> k \<and> k < 64 \<and> bit x (k - n)" by (auto simp: bit_simps)
    then show ?case using less.IH [of "k - n"] assms(2) by auto
  qed
  then show ?thesis by (intro bit_word_eqI) simp
qed

lemma xor_drop_zero:
  fixes x :: u64
  assumes "x XOR drop_bit n x = 0" "0 < n"
  shows "x = 0"
proof -
  have "\<not> bit x (64 - k)" for k
  proof (induction k rule: less_induct)
    case (less k)
    have "bit (x XOR drop_bit n x) (64 - k) = bit (0 :: u64) (64 - k)" using assms(1) by simp
    then have "bit x (64 - k) \<longleftrightarrow> bit x (n + (64 - k))" by (auto simp: bit_simps)
    moreover have "\<not> bit x (n + (64 - k))"
    proof (cases "n < k \<and> k \<le> 64")
      case True
      then have "n + (64 - k) = 64 - (k - n)" by simp
      then show ?thesis using less.IH [of "k - n"] assms(2) True by simp
    next
      case False
      show ?thesis
      proof (cases "64 < k")
        case True
        then have "64 - k = 64 - 64" by simp
        then show ?thesis using less.IH [of "64 - n"] less.IH [of 0] assms(2) True
          bit_imp_le_length [of x "n + (64 - k)"] by (cases "n \<le> 64") auto
      next
        case small: False
        then have "64 \<le> n + (64 - k)" using False by auto
        then show ?thesis using bit_imp_le_length [of x "n + (64 - k)"] by auto
      qed
    qed
    ultimately show ?case by simp
  qed
  note none = this
  have "\<not> bit x k" for k
    using none [of "64 - k"] bit_imp_le_length [of x k] by (cases "k < 64") auto
  then show ?thesis by (intro bit_word_eqI) simp
qed

lemma next_random_nonzero:
  assumes "s \<noteq> 0"
  shows "next_random s \<noteq> 0"
proof
  define s1 where "s1 = s XOR push_bit 13 s"
  define s2 where "s2 = s1 XOR drop_bit 7 s1"
  assume "next_random s = 0"
  then have "s2 XOR push_bit 17 s2 = 0" by (simp only: next_random_def Let_def s1_def s2_def)
  from xor_push_zero [OF this] have "s1 XOR drop_bit 7 s1 = 0" by (simp only: s2_def)
  from xor_drop_zero [OF this] have "s XOR push_bit 13 s = 0" by (simp only: s1_def)
  from xor_push_zero [OF this] show False using assms by simp
qed

subsection \<open>Pieces\<close>

lemma piece_offset_small:
  assumes "i * 1450 < 2 ^ 32"
  shows "piece_offset (word_of_nat i) = i * 1450"
proof -
  have "word_of_nat i * 1450 = (word_of_nat (i * 1450) :: u32)" by simp
  then have "piece_offset (word_of_nat i) = take_bit 32 (i * 1450)"
    unfolding piece_offset_def by (simp only: unsigned_of_nat len_num0 len_num1 len_bit0) simp
  also have "\<dots> = i * 1450" using assms by (rule take_bit_nat_eq_self)
  finally show ?thesis .
qed

lemma concat_pieces: "concat (map (\<lambda>i. take 1450 (drop (i * 1450) data)) [0..<k]) = take (k * 1450) data"
proof (induction k)
  case (Suc k)
  have "take (Suc k * 1450) data = take (k * 1450) data @ take 1450 (drop (k * 1450) data)"
    by (simp only: mult_Suc add.commute [of 1450] take_add)
  then show ?case using Suc by simp
qed simp

lemma piece_count_small:
  assumes "n < 2 ^ 32"
  shows "unat (piece_count (word_of_nat n)) = (n + 1449) div 1450"
proof -
  have "word_of_nat n + 1449 = (word_of_nat (n + 1449) :: u64)" by simp
  moreover have "unat (word_of_nat (n + 1449) :: u64) = n + 1449"
    using assms by (simp add: unat_of_nat take_bit_nat_eq_self del: of_nat_add)
  ultimately have "unat ((word_of_nat n + 1449) div 1450 :: u64) = (n + 1449) div 1450"
    by (simp only: unat_div) simp
  moreover have "(n + 1449) div 1450 < 2 ^ 32" using assms by simp
  ultimately show ?thesis by (simp add: piece_count_def unsigned_ucast_eq take_bit_nat_eq_self del: of_nat_add)
qed

text \<open>Below 4 GiB the pieces join to the data.\<close>

lemma expose_pieces_join:
  assumes "length data < 2 ^ 32"
  shows "concat (expose_pieces data) = data"
proof -
  let ?k = "(length data + 1449) div 1450"
  have "take (piece_size (word_of_nat i) (length data)) (drop (piece_offset (word_of_nat i)) data) = take 1450 (drop (i * 1450) data)"
    if "i < ?k" for i
  proof -
    have "i * 1450 < length data" using that by auto
    then have "piece_offset (word_of_nat i) = i * 1450" using assms by (intro piece_offset_small) simp
    then show ?thesis by (simp add: piece_size_def)
  qed
  then have "expose_pieces data = map (\<lambda>i. take 1450 (drop (i * 1450) data)) [0..<?k]"
    unfolding expose_pieces_def piece_count_small [OF assms] by simp
  then have "concat (expose_pieces data) = take (?k * 1450) data" by (simp only: concat_pieces)
  also have "\<dots> = data" by (rule take_all) simp
  finally show ?thesis .
qed

text \<open>From 4 GiB on the offsets start again at the beginning of the data.\<close>

lemma piece_offset_wraps: "piece_offset 2962047 < 2962047 * 1450"
  by (simp add: piece_offset_def)

subsection \<open>The request is not recognised\<close>

definition bswap_u64 :: "u64 \<Rightarrow> u64" where
  "bswap_u64 v = the (read_u64_be (rev (u64_be v)))"

lemma read_rev_u64: "read_u64_be (rev (u64_be v) @ r) = Some (bswap_u64 v)"
  by (simp add: u64_be_def bswap_u64_def)

lemma poll_answer_request:
  "poll_answer x (pull_request_bytes id0 id1) =
    (if bswap_u64 id0 = x_id0 x \<and> bswap_u64 id1 = x_id1 x then Some (manifest_bytes x) else None)"
proof -
  have len: "length (pull_request_bytes id0 id1) = 32" by (simp add: pull_request_bytes_def)
  have d8: "drop 8 (pull_request_bytes id0 id1) = rev (u64_be id0) @ rev (u64_be id1) @ replicate 8 0"
    and d16: "drop 16 (pull_request_bytes id0 id1) = rev (u64_be id1) @ replicate 8 0"
    by (simp_all add: pull_request_bytes_def)
  have "id_at x 8 (pull_request_bytes id0 id1) \<longleftrightarrow> bswap_u64 id0 = x_id0 x \<and> bswap_u64 id1 = x_id1 x"
    by (simp add: id_at_def d8 d16 read_rev_u64)
  moreover have "pull_request_bytes id0 id1 ! 0 = 0xFE" by (simp add: pull_request_bytes_def)
  ultimately show ?thesis by (simp add: poll_answer_def len)
qed

lemma pull_manifest:
  "pull_datagram (x_id0 x) (x_id1 x) (manifest_bytes x) = Manifest (x_total_size x) (x_chunk_count x) 1450"
proof -
  have "length (manifest_bytes x) = 48" "manifest_bytes x ! 32 = 0xFF"
    by (simp_all add: manifest_bytes_def nth_append)
  then show ?thesis by (simp add: pull_datagram_def) (simp add: manifest_bytes_def)
qed

text \<open>On a little-endian host the exposer of the earlier implementation answers the
  request of a puller for its exposure exactly when both halves of the identifier read the same
  with their bytes reversed, since the request holds them in the order of the host and the
  exposer reads them in network order; the manifest of the answer would be accepted by the
  puller with the size and the number of chunks of the exposure.  The first identifier that the
  file's own generator produces is not of this kind, whatever the second half, so its request is
  ignored.\<close>

theorem legacy_request_ignored:
  "poll_answer x (pull_request_bytes (x_id0 x) (x_id1 x)) =
     (if bswap_u64 (x_id0 x) = x_id0 x \<and> bswap_u64 (x_id1 x) = x_id1 x then Some (manifest_bytes x) else None) \<and>
   pull_datagram (x_id0 x) (x_id1 x) (manifest_bytes x) = Manifest (x_total_size x) (x_chunk_count x) 1450 \<and>
   poll_answer (x\<lparr>x_id0 := next_random rng_seed\<rparr>) (pull_request_bytes (next_random rng_seed) (x_id1 x)) = None"
proof -
  have "bswap_u64 (next_random rng_seed) \<noteq> next_random rng_seed" by code_simp
  then show ?thesis by (simp add: poll_answer_request pull_manifest)
qed

subsection \<open>The pool conserves its blocks\<close>

definition pooled :: "'p pool \<Rightarrow> 'p list" where
  "pooled p = rgtp_memory_pool_destroy (Some p)"

definition pool_ok :: "'p pool \<Rightarrow> bool" where
  "pool_ok p \<longleftrightarrow> total_blocks p \<le> length (blocks p) \<and> free_count p = length (pooled p)"

lemma mset_pooled: "mset (pooled p) = image_mset the (filter_mset (\<lambda>b. b \<noteq> None) (mset (take (total_blocks p) (blocks p))))"
  by (simp add: pooled_def rgtp_memory_pool_destroy_def)

text \<open>Storing a value in a slot of the pool replaces one element of the multiset.\<close>

lemma mset_pooled_update:
  assumes "i < total_blocks p" "total_blocks p \<le> length (blocks p)"
  obtains M where "mset (take (total_blocks p) (blocks p)) = add_mset (blocks p ! i) M"
    "\<And>v. mset (take (total_blocks p) ((blocks p)[i := v])) = add_mset v M"
proof -
  let ?xs = "take (total_blocks p) (blocks p)"
  have i: "i < length ?xs" "?xs ! i = blocks p ! i" using assms by simp_all
  then have "blocks p ! i \<in># mset ?xs" by (metis nth_mem set_mset_mset)
  then obtain M where M: "mset ?xs = add_mset (blocks p ! i) M" by (rule mset_add)
  moreover have "mset (take (total_blocks p) ((blocks p)[i := v])) = add_mset v M" for v
    using mset_update [OF i(1), of v] M i(2) assms(1) by (simp add: take_update_swap)
  ultimately show thesis by (rule that)
qed

lemma find_slot: "find P [0..<n] = Some i \<Longrightarrow> i < n \<and> P i"
  by (auto simp: find_Some_iff)

lemma find_block:
  assumes "pool_ok p" "free_count p \<noteq> 0"
  obtains i b where "find (\<lambda>i. blocks p ! i \<noteq> None) [0..<total_blocks p] = Some i" "i < total_blocks p" "blocks p ! i = Some b"
proof (cases "find (\<lambda>i. blocks p ! i \<noteq> None) [0..<total_blocks p]")
  case None
  then have "filter (\<lambda>b. b \<noteq> None) (take (total_blocks p) (blocks p)) = []"
    using assms(1) by (auto simp: pool_ok_def find_None_iff filter_empty_conv in_set_conv_nth)
  then show ?thesis using assms by (simp add: pool_ok_def pooled_def rgtp_memory_pool_destroy_def)
next
  case (Some i)
  then show ?thesis using that find_slot [OF Some] by auto
qed

lemma find_gap:
  assumes "pool_ok p" "free_count p < total_blocks p"
  obtains i where "find (\<lambda>i. blocks p ! i = None) [0..<total_blocks p] = Some i" "i < total_blocks p" "blocks p ! i = None"
proof (cases "find (\<lambda>i. blocks p ! i = None) [0..<total_blocks p]")
  case None
  then have "filter (\<lambda>b. b \<noteq> None) (take (total_blocks p) (blocks p)) = take (total_blocks p) (blocks p)"
    using assms(1) by (intro filter_True) (auto simp: pool_ok_def find_None_iff in_set_conv_nth)
  then show ?thesis using assms by (simp add: pool_ok_def pooled_def rgtp_memory_pool_destroy_def)
next
  case (Some i)
  then show ?thesis using that find_slot [OF Some] by auto
qed

lemma pool_ok_count: "pool_ok p \<Longrightarrow> free_count p = size (mset (pooled p))"
  by (simp add: pool_ok_def)

lemma pool_alloc_cases:
  assumes "pool_ok p"
  shows "(pooled p = [] \<and> rgtp_memory_pool_alloc (Some p) = (None, Some p)) \<or>
    (\<exists>b q. rgtp_memory_pool_alloc (Some p) = (Some b, Some q) \<and> pool_ok q \<and> total_blocks q = total_blocks p \<and>
       mset (pooled p) = add_mset b (mset (pooled q)))"
proof (cases "free_count p = 0")
  case True
  then show ?thesis using assms by (simp add: pool_ok_def rgtp_memory_pool_alloc_def)
next
  case False
  obtain i b where i: "find (\<lambda>i. blocks p ! i \<noteq> None) [0..<total_blocks p] = Some i" "i < total_blocks p" "blocks p ! i = Some b"
    by (rule find_block [OF assms False])
  have len: "total_blocks p \<le> length (blocks p)" using assms by (simp add: pool_ok_def)
  obtain M where M: "mset (take (total_blocks p) (blocks p)) = add_mset (Some b) M"
    "\<And>v. mset (take (total_blocks p) ((blocks p)[i := v])) = add_mset v M"
    using mset_pooled_update [OF i(2) len] i(3) by metis
  define q where "q = p\<lparr>blocks := (blocks p)[i := None], free_count := free_count p - 1\<rparr>"
  have m: "mset (pooled p) = add_mset b (mset (pooled q))"
    unfolding mset_pooled q_def by (simp add: M)
  then have "length (pooled p) = Suc (length (pooled q))" by (metis size_add_mset size_mset)
  moreover have "free_count q = free_count p - 1" "total_blocks q = total_blocks p" "length (blocks q) = length (blocks p)"
    by (simp_all add: q_def)
  ultimately have "pool_ok q" using assms by (simp add: pool_ok_def)
  moreover have "rgtp_memory_pool_alloc (Some p) = (Some b, Some q)"
    using False i by (simp add: rgtp_memory_pool_alloc_def q_def)
  moreover have "total_blocks q = total_blocks p" by (simp add: q_def)
  ultimately show ?thesis using m by blast
qed

lemma pool_free_cases:
  assumes "pool_ok p" "free_count p < total_blocks p"
  shows "\<exists>q. rgtp_memory_pool_free (Some p) (Some b) = (Some q, None) \<and> pool_ok q \<and> total_blocks q = total_blocks p \<and>
    mset (pooled q) = add_mset b (mset (pooled p))"
proof -
  obtain i where i: "find (\<lambda>i. blocks p ! i = None) [0..<total_blocks p] = Some i" "i < total_blocks p" "blocks p ! i = None"
    by (rule find_gap [OF assms])
  have len: "total_blocks p \<le> length (blocks p)" using assms(1) by (simp add: pool_ok_def)
  obtain M where M: "mset (take (total_blocks p) (blocks p)) = add_mset None M"
    "\<And>v. mset (take (total_blocks p) ((blocks p)[i := v])) = add_mset v M"
    using mset_pooled_update [OF i(2) len] i(3) by metis
  define q where "q = p\<lparr>blocks := (blocks p)[i := Some b], free_count := free_count p + 1\<rparr>"
  have m: "mset (pooled q) = add_mset b (mset (pooled p))"
    unfolding mset_pooled q_def by (simp add: M)
  then have "length (pooled q) = Suc (length (pooled p))" by (metis size_add_mset size_mset)
  then have "pool_ok q" using assms(1) by (simp add: pool_ok_def) (simp add: q_def)
  moreover have "rgtp_memory_pool_free (Some p) (Some b) = (Some q, None)"
    using assms(2) i by (simp add: rgtp_memory_pool_free_def q_def)
  ultimately show ?thesis using m by (auto simp: q_def)
qed

text \<open>A client that allocates, and frees what it holds: the pool, the blocks it holds and the
  blocks given to the system.\<close>

datatype pool_op = Alloc | Free nat

fun pool_step :: "pool_op \<Rightarrow> 'p pool \<times> 'p list \<times> 'p list \<Rightarrow> 'p pool \<times> 'p list \<times> 'p list" where
  "pool_step Alloc (p, held, released) =
    (case rgtp_memory_pool_alloc (Some p) of (Some b, Some q) \<Rightarrow> (q, b # held, released) | _ \<Rightarrow> (p, held, released))"
| "pool_step (Free k) (p, held, released) =
    (if k < length held then
       (case rgtp_memory_pool_free (Some p) (Some (held ! k)) of
          (Some q, r) \<Rightarrow> (q, take k held @ drop (Suc k) held, (case r of Some b \<Rightarrow> b # released | None \<Rightarrow> released))
        | _ \<Rightarrow> (p, held, released))
     else (p, held, released))"

definition pool_inv :: "'p multiset \<Rightarrow> 'p pool \<times> 'p list \<times> 'p list \<Rightarrow> bool" where
  "pool_inv B st \<longleftrightarrow> (case st of (p, held, released) \<Rightarrow>
     pool_ok p \<and> released = [] \<and> mset (pooled p) + mset held = B \<and> total_blocks p = size B)"

lemma pool_step_inv:
  assumes "pool_inv B st"
  shows "pool_inv B (pool_step op st)"
proof -
  obtain p held released where st: "st = (p, held, released)" by (cases st) auto
  note inv = assms [unfolded st pool_inv_def prod.case]
  show ?thesis
  proof (cases op)
    case Alloc
    have "pool_ok p" using inv by simp
    from pool_alloc_cases [OF this] show ?thesis
    proof (elim disjE exE conjE)
      fix b q
      assume "rgtp_memory_pool_alloc (Some p) = (Some b, Some q)" "pool_ok q" "total_blocks q = total_blocks p"
        "mset (pooled p) = add_mset b (mset (pooled q))"
      then show ?thesis using Alloc st inv by (simp add: pool_inv_def)
    qed (use Alloc st assms in simp)
  next
    case (Free k)
    show ?thesis
    proof (cases "k < length held")
      case True
      have held: "mset held = add_mset (held ! k) (mset (take k held @ drop (Suc k) held))"
        by (subst id_take_nth_drop [OF True]) simp
      have "free_count p + length held = total_blocks p"
      proof -
        have "B = mset (pooled p) + mset held" using inv by simp
        then have "size B = length (pooled p) + length held" by simp
        then show ?thesis using pool_ok_count [of p] inv by simp
      qed
      then have "free_count p < total_blocks p" using True by linarith
      then obtain q where "rgtp_memory_pool_free (Some p) (Some (held ! k)) = (Some q, None)" "pool_ok q"
        "total_blocks q = total_blocks p" "mset (pooled q) = add_mset (held ! k) (mset (pooled p))"
        using pool_free_cases [OF conjunct1 [OF inv], of "held ! k"] by auto
      then show ?thesis using Free st inv True held by (simp add: pool_inv_def)
    qed (use Free st assms in simp)
  qed
qed

lemma pool_created:
  assumes "rgtp_memory_pool_create pool_max calloc_ok malloc bsize n = Some p"
  shows "pool_inv (mset (map (\<lambda>i. the (malloc i)) [0..<nat n])) (p, [], [])"
proof -
  have p: "p = \<lparr>block_size = bsize, total_blocks = nat n, free_count = nat n,
       blocks = map malloc [0..<nat n] @ replicate (pool_max - nat n) None\<rparr>" "\<forall>i < nat n. malloc i \<noteq> None"
    using assms by (auto simp: rgtp_memory_pool_create_def list_all_iff split: if_splits)
  have "filter (\<lambda>b. b \<noteq> None) (map malloc [0..<nat n]) = map malloc [0..<nat n]"
    using p(2) by (intro filter_True) auto
  then have "pooled p = map (\<lambda>i. the (malloc i)) [0..<nat n]"
    by (simp add: pooled_def rgtp_memory_pool_destroy_def p(1))
  then show ?thesis by (simp add: pool_inv_def pool_ok_def) (simp add: p(1))
qed

lemma pool_run_inv: "pool_inv B st \<Longrightarrow> pool_inv B (fold pool_step ops st)"
  by (induction ops arbitrary: st) (simp_all add: pool_step_inv)

text \<open>C31: A pool that was created loses and duplicates no block: after any sequence of
  allocations and of frees of blocks that are held, the blocks in the pool and the blocks held are
  together the blocks allocated at the creation, none was given back to the system, and the free
  count is the number of blocks in the pool.  So, if the blocks are distinct, an allocation never
  returns one that is held, and it fails exactly when all blocks are held.\<close>

theorem pool_conserves:
  assumes "rgtp_memory_pool_create pool_max calloc_ok malloc bsize n = Some p0"
    and "distinct (map malloc [0..<nat n])"
    and "fold pool_step ops (p0, [], []) = (p, held, released)"
  shows "released = [] \<and> mset (rgtp_memory_pool_destroy (Some p)) + mset held = mset (map (\<lambda>i. the (malloc i)) [0..<nat n]) \<and>
    free_count p = length (rgtp_memory_pool_destroy (Some p)) \<and> distinct held \<and>
    (case rgtp_memory_pool_alloc (Some p) of
       (Some b, q) \<Rightarrow> b \<notin> set held \<and> length held < nat n
     | (None, q) \<Rightarrow> length held = nat n)"
proof -
  let ?B = "mset (map (\<lambda>i. the (malloc i)) [0..<nat n])"
  have all: "\<forall>i < nat n. malloc i \<noteq> None"
    using assms(1) by (auto simp: rgtp_memory_pool_create_def list_all_iff split: if_splits)
  have inv: "pool_ok p" "released = []" "mset (pooled p) + mset held = ?B"
    using pool_run_inv [OF pool_created [OF assms(1)], of ops] assms(3) by (simp_all add: pool_inv_def)
  have "distinct (map (\<lambda>i. the (malloc i)) [0..<nat n])"
  proof -
    have "inj_on malloc {0..<nat n}" using assms(2) by (simp add: distinct_map)
    moreover have "malloc x = malloc y" if "x < nat n" "y < nat n" "the (malloc x) = the (malloc y)" for x y
      using all that by (metis option.expand)
    ultimately have "inj_on (\<lambda>i. the (malloc i)) {0..<nat n}" by (simp add: inj_on_def)
    then show ?thesis by (simp add: distinct_map)
  qed
  moreover have "mset (pooled p @ held) = ?B" using inv(3) by simp
  ultimately have dist: "distinct (pooled p @ held)" by (metis mset_eq_imp_distinct_iff)
  have "length (pooled p @ held) = length (map (\<lambda>i. the (malloc i)) [0..<nat n])"
    using \<open>mset (pooled p @ held) = ?B\<close> by (rule mset_eq_length)
  then have len: "length (pooled p) + length held = nat n" by simp
  have "case rgtp_memory_pool_alloc (Some p) of (Some b, q) \<Rightarrow> b \<notin> set held \<and> length held < nat n | (None, q) \<Rightarrow> length held = nat n"
    using pool_alloc_cases [OF inv(1)]
  proof (elim disjE exE conjE)
    fix b q
    assume a: "rgtp_memory_pool_alloc (Some p) = (Some b, Some q)" "mset (pooled p) = add_mset b (mset (pooled q))"
    then have "b \<in> set (pooled p)" by (metis set_mset_mset union_single_eq_member)
    then have "b \<notin> set held" "pooled p \<noteq> []" using dist by auto
    then show ?thesis using a(1) len by (cases "pooled p") auto
  qed (use len in simp)
  then show ?thesis using inv dist by (simp add: pool_ok_def flip: pooled_def)
qed

definition example_pool :: "nat pool" where
  "example_pool = \<lparr>block_size = 1450, total_blocks = 2, free_count = 2, blocks = [Some 100, Some 101, None]\<rparr>"

theorem pool_conserves_witness:
  "rgtp_memory_pool_create 3 True (\<lambda>i. Some (100 + i)) 1450 2 = Some example_pool \<and>
   (case fold pool_step [Alloc, Alloc, Free 0, Alloc] (example_pool, [], []) of
      (p, held, released) \<Rightarrow> released = [] \<and> mset held = {#100, 101#})"
proof -
  have c: "rgtp_memory_pool_create 3 True (\<lambda>i. Some (100 + i)) 1450 2 = Some example_pool" by code_simp
  have d: "distinct (map (\<lambda>i. Some (100 + i)) [0..<nat 2])" by code_simp
  obtain p held released where r: "fold pool_step [Alloc, Alloc, Free 0, Alloc] (example_pool, [], []) = (p, held, released)"
    by (cases "fold pool_step [Alloc, Alloc, Free 0, Alloc] (example_pool, [], [])") auto
  have "snd (fold pool_step [Alloc, Alloc, Free 0, Alloc] (example_pool, [], [])) = ([101, 100], [])" by code_simp
  then show ?thesis using pool_conserves [OF c d r] r c by simp
qed

end
