(* ===== verification/Rgtp_Programs.thy ===== *)
theory Rgtp_Programs
  imports Rgtp_Format
begin

text \<open>
  The programs under \<^verbatim>\<open>examples/c\<close>: the arguments and the sizes that
  \<^verbatim>\<open>udp_expose_file.c\<close> and \<^verbatim>\<open>udp_pull_file.c\<close> read and print, and the
  requests of \<^verbatim>\<open>_legacy/http_over_rgtp_server.c\<close>.  The file system and the transport are
  arguments; what the server exposes is a result.
\<close>

subsection \<open>Arguments and sizes\<close>

text \<open>Undefined when the port is no \<^verbatim>\<open>int\<close>.\<close>

definition parse_host_port :: "string \<Rightarrow> nat \<Rightarrow> (string \<times> u16) option option" where
  "parse_host_port arg host_sz =
    (case strrchr arg CHR '':'' of
       None \<Rightarrow> Some None
     | Some colon \<Rightarrow>
         if colon = 0 \<or> host_sz \<le> colon then Some None
         else map_option (\<lambda>port. if port \<le> 0 \<or> 65535 < port then None else Some (take colon arg, word_of_int port))
           (atoi (drop (colon + 1) arg)))"

definition parse_exposure_id :: "string \<Rightarrow> bytes option" where
  "parse_exposure_id hex =
    (if length hex \<noteq> 32 then None
     else map_option (map ucast) (those (map (\<lambda>i. scan_2x (drop (i * 2) hex)) [0..<16])))"

text \<open>The port of the exposer, with no check of its range.\<close>

definition expose_port :: "string list \<Rightarrow> u16 option" where
  "expose_port argv = (if length argv = 3 then map_option word_of_int (atoi (argv ! 2)) else Some 9000)"

definition size_units :: "string list" where
  "size_units = [''B'', ''KB'', ''MB'', ''GB'', ''TB'']"

text \<open>The loop over the units still left.\<close>

fun scale_bytes :: "nat \<Rightarrow> nat \<Rightarrow> flt \<Rightarrow> flt \<times> nat" where
  "scale_bytes 0 u v = (v, u)"
| "scale_bytes (Suc left) u v = (if f_le (Fin 1024) v then scale_bytes left (u + 1) (f_div f64 v (Fin 1024)) else (v, u))"

definition fmt_bytes :: "u64 \<Rightarrow> nat \<Rightarrow> string" where
  "fmt_bytes n bufsz = (let (v, u) = scale_bytes 4 0 (flt_of_nat f64 (unat n)) in
     snprintf_text bufsz (fmt_f 2 v @ '' '' @ size_units ! u))"

text \<open>The arguments of the pull command that the exposer prints, after the address of the
  server.\<close>

definition pull_arguments :: "string \<Rightarrow> u16 \<Rightarrow> bytes \<Rightarrow> string \<times> string" where
  "pull_arguments host port eid = (host @ '':'' @ fmt_u (unat port), concat (map fmt_02x eid))"

subsection \<open>Requests of the server\<close>

definition validate_path :: "string option \<Rightarrow> nat \<Rightarrow> string option" where
  "validate_path path sanitized_size =
    (case path of
       None \<Rightarrow> None
     | Some p0 \<Rightarrow>
         if p0 = [] then None
         else if p0 = ''/'' then Some (take (sanitized_size - 1) ''/index.html'')
         else
           (let p1 = (if hd p0 = CHR ''/'' then tl p0 else p0) in
            if strstr p1 ''..'' \<noteq> None then None
            else
              (let p2 = dropWhile (\<lambda>c. c = CHR ''/'') p1 in
               Some (if p2 = [] then take (sanitized_size - 1) ''index.html'' else snprintf_text sanitized_size (''/'' @ p2)))))"

definition parse_http_path :: "string \<Rightarrow> nat \<Rightarrow> string option" where
  "parse_http_path request path_size =
    (case strstr request ''GET '' of
       None \<Rightarrow> None
     | Some i \<Rightarrow>
         (let start = drop (i + 4) request in
          (case strchr start CHR '' '' of
             None \<Rightarrow> None
           | Some len0 \<Rightarrow>
               (let len = (if path_size \<le> len0 then path_size - 1 else len0); path = take len start in
                Some (if path = ''/'' then snprintf_text path_size ''/index.html'' else path)))))"

definition get_mime_type :: "string \<Rightarrow> string" where
  "get_mime_type filename =
    (case strrchr filename CHR ''.'' of
       None \<Rightarrow> ''application/octet-stream''
     | Some i \<Rightarrow>
         (let ext = drop i filename in
          if ext = ''.html'' then ''text/html'' else if ext = ''.css'' then ''text/css''
          else if ext = ''.js'' then ''application/javascript'' else if ext = ''.png'' then ''image/png''
          else if ext = ''.jpg'' \<or> ext = ''.jpeg'' then ''image/jpeg'' else if ext = ''.gif'' then ''image/gif''
          else if ext = ''.pdf'' then ''application/pdf'' else if ext = ''.zip'' then ''application/zip''
          else if ext = ''.mp4'' then ''video/mp4'' else if ext = ''.mp3'' then ''audio/mpeg''
          else ''application/octet-stream''))"

text \<open>What \<^verbatim>\<open>stat\<close> finds, and what the server exposes: data, or the
  content of a file.\<close>

datatype file_kind = Missing | Regular | Special

datatype exposed_item = Data string | File_content string

definition crlf :: string where
  "crlf = [CHR 0x0D, CHR 0x0A]"

definition http_response :: "string \<Rightarrow> string \<Rightarrow> nat \<Rightarrow> string \<Rightarrow> string" where
  "http_response status mime len body = ''HTTP/1.1 '' @ status @ crlf @ ''Content-Type: '' @ mime @ crlf @
     ''Content-Length: '' @ fmt_u len @ crlf @ ''Connection: close'' @ crlf @ crlf @ body"

definition bad_request :: string where
  "bad_request = http_response ''400 Bad Request'' ''text/plain'' 11 ''Bad Request''"

definition not_found_body :: string where
  "not_found_body = ''<html><body><h1>404 Not Found</h1></body></html>''"

definition not_found :: string where
  "not_found = http_response ''404 Not Found'' ''text/html'' 47 not_found_body"

definition forbidden_body :: string where
  "forbidden_body = ''<html><body><h1>403 Forbidden</h1></body></html>''"

definition forbidden :: string where
  "forbidden = http_response ''403 Forbidden'' ''text/html'' 46 forbidden_body"

definition ok_headers :: "string \<Rightarrow> string" where
  "ok_headers mime = snprintf_text 1024 (''HTTP/1.1 200 OK'' @ crlf @ ''Content-Type: '' @ mime @ crlf @
     ''Transfer-Encoding: rgtp-chunked'' @ crlf @ ''Accept-Ranges: bytes'' @ crlf @
     ''Cache-Control: public, max-age=3600'' @ crlf @ ''Connection: close'' @ crlf @ crlf)"

text \<open>The arguments are the file system and whether a file can be exposed.\<close>

definition handle_http_request :: "(string \<Rightarrow> file_kind) \<Rightarrow> (string \<Rightarrow> bool) \<Rightarrow> string \<Rightarrow> string \<Rightarrow> int \<times> exposed_item list" where
  "handle_http_request stat expose_ok document_root request =
    (case parse_http_path request 512 of
       None \<Rightarrow> (- 1, [Data bad_request])
     | Some path \<Rightarrow>
         (case validate_path (Some path) 512 of
            None \<Rightarrow> (- 1, [Data bad_request])
          | Some sanitized \<Rightarrow>
              (let full_path = snprintf_text 512 (document_root @ sanitized) in
               (case stat full_path of
                  Missing \<Rightarrow> (- 1, [Data not_found])
                | Special \<Rightarrow> (- 1, [Data forbidden])
                | Regular \<Rightarrow>
                    (if expose_ok full_path then 0 else - 1,
                     [Data (ok_headers (get_mime_type full_path))] @ (if expose_ok full_path then [File_content full_path] else []))))))"

subsection \<open>Reading back the printed command\<close>

lemma those_Some_map: "\<forall>x \<in> set xs. f x = Some (g x) \<Longrightarrow> those (map f xs) = Some (map g xs)"
  by (induction xs) simp_all

lemma drop_concat_hex: "drop (2 * i) (concat (map fmt_02x eid)) = concat (map fmt_02x (drop i eid))"
proof (induction i arbitrary: eid)
  case (Suc i)
  then show ?case by (cases eid) (simp_all add: fmt_02x_def)
qed simp

lemma parse_exposure_id_printed:
  assumes "length eid = 16"
  shows "parse_exposure_id (concat (map fmt_02x eid)) = Some eid"
proof -
  have len: "length (concat (map fmt_02x eid)) = 2 * length eid"
    by (induction eid) (simp_all add: fmt_02x_def)
  have scan: "scan_2x (drop (i * 2) (concat (map fmt_02x eid))) = Some (ucast (eid ! i))" if "i < 16" for i
  proof -
    have "drop i eid = eid ! i # drop (Suc i) eid" using that assms by (simp add: Cons_nth_drop_Suc)
    then show ?thesis using drop_concat_hex [of i eid] by (simp add: mult.commute scan_fmt_02x)
  qed
  have "those (map (\<lambda>i. scan_2x (drop (i * 2) (concat (map fmt_02x eid)))) [0..<16]) = Some (map (\<lambda>i. ucast (eid ! i)) [0..<16])"
    by (rule those_Some_map) (use scan in simp)
  moreover have "ucast (ucast b :: u32) = b" for b :: u8
    by (rule bit_word_eqI) (auto simp: bit_simps)
  then have "map ucast (map (\<lambda>i. ucast (eid ! i) :: u32) [0..<16]) = eid"
    by (intro nth_equalityI) (use assms in \<open>simp_all del: upt_rec_numeral\<close>)
  ultimately show ?thesis using len assms by (simp add: parse_exposure_id_def del: upt_rec_numeral)
qed

lemma fmt_u_no_colon: "CHR '':'' \<notin> set (fmt_u n)"
  using fmt_u_digits [of n] by (auto simp: list_all_iff is_digit_def)

lemma parse_host_port_printed:
  assumes "host \<noteq> []" "length host < host_sz" "port \<noteq> 0"
  shows "parse_host_port (host @ '':'' @ fmt_u (unat port)) host_sz = Some (Some (host, port))"
proof -
  have p: "0 < unat port" "unat port < 65536" using assms(3) unsigned_less [of port] by (simp_all add: unat_gt_0)
  have colon: "strrchr (host @ '':'' @ fmt_u (unat port)) CHR '':'' = Some (length host)"
    using strrchr_split [OF fmt_u_no_colon, of host "unat port"] by simp
  have "atoi (fmt_u n) = Some (int n)" if "n < 65536" for n
    using atoi_fmt_d [of "int n" "[]"] that by (simp add: fmt_d_def)
  from this [OF p(2)] have port: "atoi (fmt_u (unat port)) = Some (int (unat port))" .
  have "\<not> int (unat port) \<le> 0" "\<not> 65535 < int (unat port)" using p by linarith+
  then show ?thesis using assms unfolding parse_host_port_def colon by (simp add: port)
qed

text \<open>C37: The address and the identifier in the pull command that the exposer prints are
  read back by the puller, for every host name that fits its buffer, every port other than 0 and
  every identifier of 16 bytes.\<close>

theorem pull_command_roundtrip:
  assumes "host \<noteq> []" "length host < 256" "port \<noteq> 0" "length eid = 16"
  shows "parse_host_port (fst (pull_arguments host port eid)) 256 = Some (Some (host, port)) \<and>
    parse_exposure_id (snd (pull_arguments host port eid)) = Some eid"
  using parse_host_port_printed [OF assms(1-3)] parse_exposure_id_printed [OF assms(4)]
  by (simp add: pull_arguments_def)

theorem pull_command_roundtrip_witness:
  "parse_host_port (fst (pull_arguments ''10.0.0.1'' 9000 (replicate 16 0xAB))) 256 = Some (Some (''10.0.0.1'', 9000)) \<and>
   parse_exposure_id (snd (pull_arguments ''10.0.0.1'' 9000 (replicate 16 0xAB))) = Some (replicate 16 0xAB)"
  by (rule pull_command_roundtrip) simp_all

text \<open>Signs and white space are read as well: this is no identifier of 32 hexadecimal
  digits.\<close>

lemma parse_exposure_id_sign: "parse_exposure_id (concat (replicate 16 ''-1'')) = Some (replicate 16 0xFF)"
  by code_simp

subsection \<open>No traversal\<close>

lemma strstr_None: "strstr s t = None \<longleftrightarrow> (\<nexists>a b. s = a @ t @ b)"
proof
  assume none: "strstr s t = None"
  show "\<nexists>a b. s = a @ t @ b"
  proof
    assume "\<exists>a b. s = a @ t @ b"
    then obtain a b where "s = a @ t @ b" by blast
    then have "take (length t) (drop (length a) s) = t" "length a < Suc (length s)" by simp_all
    then show False using none by (auto simp: strstr_def find_None_iff simp del: upt_Suc)
  qed
next
  assume no: "\<nexists>a b. s = a @ t @ b"
  have "take (length t) (drop i s) \<noteq> t" for i
  proof
    assume "take (length t) (drop i s) = t"
    then have "s = take i s @ t @ drop (length t) (drop i s)" by (metis append_take_drop_id)
    then show False using no by blast
  qed
  then show "strstr s t = None" by (simp add: strstr_def find_None_iff)
qed

definition dotdot_free :: "string \<Rightarrow> bool" where
  "dotdot_free s \<longleftrightarrow> (\<nexists>a b. s = a @ ''..'' @ b)"

lemma dotdot_free_take: "dotdot_free s \<Longrightarrow> dotdot_free (take n s)"
  unfolding dotdot_free_def by (metis append.assoc append_take_drop_id)

lemma dotdot_free_dropWhile: "dotdot_free s \<Longrightarrow> dotdot_free (dropWhile P s)"
  unfolding dotdot_free_def by (metis append.assoc takeWhile_dropWhile_id)

lemma dotdot_free_Cons: "dotdot_free s \<Longrightarrow> c \<noteq> CHR ''.'' \<Longrightarrow> dotdot_free (c # s)"
  by (auto simp: dotdot_free_def Cons_eq_append_conv)

lemma validate_path_safe:
  assumes "validate_path path n = Some p"
  shows "dotdot_free p"
proof -
  have lit: "dotdot_free ''/index.html''" "dotdot_free ''index.html''"
    by (simp_all add: dotdot_free_def Cons_eq_append_conv)
  obtain p0 where path: "path = Some p0" "p0 \<noteq> []" using assms by (auto simp: validate_path_def split: option.splits if_splits)
  define p1 where "p1 = (if hd p0 = CHR ''/'' then tl p0 else p0)"
  define p2 where "p2 = dropWhile (\<lambda>c. c = CHR ''/'') p1"
  show ?thesis
  proof (cases "p0 = ''/''")
    case True
    then show ?thesis using assms path lit(1) by (auto simp: validate_path_def intro: dotdot_free_take)
  next
    case False
    then have "validate_path path n = (if strstr p1 ''..'' \<noteq> None then None
        else Some (if p2 = [] then take (n - 1) ''index.html'' else snprintf_text n (''/'' @ p2)))"
      unfolding p2_def p1_def path(1) validate_path_def Let_def using path(2) by (simp only: option.case if_False)
    then have r: "strstr p1 ''..'' = None"
        "p = (if p2 = [] then take (n - 1) ''index.html'' else snprintf_text n (''/'' @ p2))"
      using assms by (cases "strstr p1 ''..''"; simp only: if_True if_False option.inject option.distinct not_True_eq_False not_False_eq_True simp_thms)+
    have "dotdot_free p1" using r(1) by (simp add: strstr_None dotdot_free_def)
    then have "dotdot_free (CHR ''/'' # p2)" unfolding p2_def by (intro dotdot_free_Cons dotdot_free_dropWhile) simp_all
    then show ?thesis using r(2) lit(2) by (auto simp: snprintf_text_def intro: dotdot_free_take)
  qed
qed

text \<open>C33: whatever the request, the file system and the outcome of exposing, the server
  either answers 400, or it looks at one path: the document root followed by a path that does
  not contain two consecutive dots, cut to the 511 characters of its buffer.  A missing path is
  answered 404 and one that is not a regular file 403, each with -1 and nothing else exposed.
  For a regular file the 200 header is exposed and then the content of just this file.  If the
  content cannot be exposed, the call returns -1 and the 200 header stays as the only answer; no
  error page follows it.\<close>

theorem http_no_traversal:
  "handle_http_request stat expose_ok document_root request = (- 1, [Data bad_request]) \<or>
   (\<exists>p f. (\<nexists>a b. p = a @ ''..'' @ b) \<and> f = take 511 (document_root @ p) \<and>
     handle_http_request stat expose_ok document_root request =
       (case stat f of
          Missing \<Rightarrow> (- 1, [Data not_found])
        | Special \<Rightarrow> (- 1, [Data forbidden])
        | Regular \<Rightarrow>
            if expose_ok f then (0, [Data (ok_headers (get_mime_type f)), File_content f])
            else (- 1, [Data (ok_headers (get_mime_type f))])))"
proof (cases "parse_http_path request 512")
  case None
  then show ?thesis by (simp add: handle_http_request_def)
next
  case (Some path)
  show ?thesis
  proof (cases "validate_path (Some path) 512")
    case None
    then show ?thesis using Some by (simp add: handle_http_request_def)
  next
    case p: (Some p)
    then have "\<nexists>a b. p = a @ ''..'' @ b" using validate_path_safe [OF p] by (simp add: dotdot_free_def)
    moreover have "handle_http_request stat expose_ok document_root request =
       (case stat (take 511 (document_root @ p)) of
          Missing \<Rightarrow> (- 1, [Data not_found])
        | Special \<Rightarrow> (- 1, [Data forbidden])
        | Regular \<Rightarrow>
            if expose_ok (take 511 (document_root @ p))
            then (0, [Data (ok_headers (get_mime_type (take 511 (document_root @ p)))), File_content (take 511 (document_root @ p))])
            else (- 1, [Data (ok_headers (get_mime_type (take 511 (document_root @ p))))]))"
      using Some p by (simp add: handle_http_request_def snprintf_text_def Let_def split: file_kind.split)
    ultimately show ?thesis by blast
  qed
qed

text \<open>The lengths that the error pages declare are not those of their bodies.\<close>

lemma error_page_lengths: "length not_found_body = 48" "length forbidden_body = 48"
  by (simp_all add: not_found_body_def forbidden_body_def)

text \<open>A path of slashes only becomes a name without a slash, next to the document root and
  not in it.\<close>

lemma slashes_leave_root: "validate_path (Some ''//'') 512 = Some ''index.html''"
  by code_simp

end
