(* ===== verification/Rgtp_Priority.thy ===== *)
theory Rgtp_Priority
  imports Rgtp_Core "HOL-Library.Multiset"
begin

text \<open>
  The strict priority queue and the jitter buffer of
  \<^verbatim>\<open>src/transport/rgtp_priority.c\<close>.  Each of the 8 levels is a ring
  of 256 slots whose head and tail are 32-bit counters that wrap.  The contract of a
  priority queue is a locale; its client lemma is that draining yields the levels in
  order, each first in, first out.
\<close>

subsection \<open>Contract of a strict priority queue\<close>

locale priority_levels =
  fixes enq :: "nat \<Rightarrow> 'y \<Rightarrow> 'q \<Rightarrow> 'q option"
    and item :: "'y \<Rightarrow> 'x"
    and deq :: "'q \<Rightarrow> ((nat \<times> 'x) \<times> 'q) option"
    and level :: "'q \<Rightarrow> nat \<Rightarrow> 'x list"
    and inv :: "'q \<Rightarrow> bool"
    and levels :: nat
    and cap :: nat
  assumes enq_full: "inv q \<Longrightarrow> p < levels \<Longrightarrow> enq p y q = None \<longleftrightarrow> length (level q p) = cap"
    and enq_some: "inv q \<Longrightarrow> p < levels \<Longrightarrow> enq p y q = Some q' \<Longrightarrow>
      inv q' \<and> level q' = (level q)(p := level q p @ [item y])"
    and deq_none: "inv q \<Longrightarrow> deq q = None \<longleftrightarrow> (\<forall>p < levels. level q p = [])"
    and deq_some: "inv q \<Longrightarrow> deq q = Some ((p, x), q') \<Longrightarrow>
      inv q' \<and> p < levels \<and> (\<forall>r < p. level q r = []) \<and> level q = (level q')(p := x # level q' p)"
begin

text \<open>The items in the order of service.\<close>

definition service :: "'q \<Rightarrow> (nat \<times> 'x) list" where
  "service q = concat (map (\<lambda>p. map (Pair p) (level q p)) [0..<levels])"

primrec drain :: "nat \<Rightarrow> 'q \<Rightarrow> (nat \<times> 'x) list" where
  "drain 0 q = []"
| "drain (Suc n) q = (case deq q of None \<Rightarrow> [] | Some (y, q') \<Rightarrow> y # drain n q')"

lemma service_split:
  assumes "p < levels"
  shows "service q = concat (map (\<lambda>r. map (Pair r) (level q r)) [0..<p]) @ map (Pair p) (level q p)
    @ concat (map (\<lambda>r. map (Pair r) (level q r)) [Suc p..<levels])"
proof -
  have "[0..<levels] = [0..<p] @ p # [Suc p..<levels]"
    using upt_add_eq_append [of 0 p "levels - p"] upt_conv_Cons [OF assms] assms by simp
  then show ?thesis by (simp add: service_def)
qed

lemma service_deq:
  assumes "inv q" and "deq q = Some ((p, x), q')"
  shows "service q = (p, x) # service q'"
proof -
  have d: "p < levels" "\<forall>r < p. level q r = []" "level q = (level q')(p := x # level q' p)"
    using deq_some [OF assms] by blast+
  have low: "concat (map (\<lambda>r. map (Pair r) (level q r)) [0..<p]) = []"
      "concat (map (\<lambda>r. map (Pair r) (level q' r)) [0..<p]) = []"
    using d(2,3) by (auto simp: fun_upd_def split: if_splits)
  have high: "map (\<lambda>r. map (Pair r) (level q r)) [Suc p..<levels] = map (\<lambda>r. map (Pair r) (level q' r)) [Suc p..<levels]"
    using d(3) by simp
  show ?thesis
    unfolding service_split [OF d(1), of q] service_split [OF d(1), of q'] low high using d(3) by simp
qed

lemma drain_service: "inv q \<Longrightarrow> drain n q = take n (service q)"
proof (induction n arbitrary: q)
  case (Suc n)
  show ?case
  proof (cases "deq q")
    case None
    with deq_none [OF Suc.prems] have "service q = []" by (simp add: service_def)
    with None show ?thesis by simp
  next
    case (Some a)
    obtain p x q' where a: "a = ((p, x), q')" by (cases a) auto
    with Some service_deq [OF Suc.prems, of p x q'] deq_some [OF Suc.prems, of p x q'] Suc.IH show ?thesis by simp
  qed
qed simp

text \<open>Enqueuing a sequence appends to each level the items of that level.\<close>

primrec enq_all :: "(nat \<times> 'y) list \<Rightarrow> 'q \<Rightarrow> 'q option" where
  "enq_all [] q = Some q"
| "enq_all (y # ys) q = do {q' \<leftarrow> enq (fst y) (snd y) q; enq_all ys q'}"

lemma enq_all_levels:
  assumes "inv q" and "\<forall>y \<in> set ys. fst y < levels"
    and "\<forall>p < levels. length (level q p) + length (filter (\<lambda>y. fst y = p) ys) \<le> cap"
  shows "\<exists>q'. enq_all ys q = Some q' \<and> inv q' \<and> (\<forall>p < levels. level q' p = level q p @ map (\<lambda>y. item (snd y)) (filter (\<lambda>y. fst y = p) ys))"
  using assms
proof (induction ys arbitrary: q)
  case (Cons y ys)
  let ?p = "fst y"
  have p: "?p < levels" using Cons.prems(2) by simp
  have "length (level q ?p) < cap" using Cons.prems(3) p by fastforce
  then obtain q1 where q1: "enq ?p (snd y) q = Some q1"
    using enq_full [OF Cons.prems(1) p, of "snd y"] by fastforce
  have s: "inv q1" "level q1 = (level q)(?p := level q ?p @ [item (snd y)])" using enq_some [OF Cons.prems(1) p q1] by blast+
  have "\<forall>p < levels. length (level q1 p) + length (filter (\<lambda>y. fst y = p) ys) \<le> cap"
    using Cons.prems(3) s(2) by auto
  with Cons.IH [OF s(1)] Cons.prems(2) obtain q' where
    "enq_all ys q1 = Some q'" "inv q'" "\<forall>p < levels. level q' p = level q1 p @ map (\<lambda>y. item (snd y)) (filter (\<lambda>y. fst y = p) ys)"
    by auto
  then show ?case using q1 s(2) by auto
qed simp

text \<open>From an empty queue, the order of service is the stable sort by
  priority.\<close>

lemma level_sort:
  fixes ys :: "(nat \<times> 'x) list"
  assumes "\<forall>y \<in> set ys. fst y < levels"
  shows "concat (map (\<lambda>p. filter (\<lambda>y. fst y = p) ys) [0..<levels]) = sort_key fst ys"
proof (rule properties_for_sort_key [symmetric])
  let ?c = "\<lambda>n. concat (map (\<lambda>p. filter (\<lambda>y. fst y = p) ys) [0..<n])"
  have m: "mset (?c n) = mset (filter (\<lambda>y. fst y < n) ys)" for n
  proof (induction n)
    case (Suc n)
    have "mset (filter (\<lambda>y. fst y < Suc n) ys) = mset (filter (\<lambda>y. fst y < n) ys) + mset (filter (\<lambda>y. fst y = n) ys)"
      by (induction ys) auto
    with Suc show ?case by simp
  qed simp
  have "filter (\<lambda>y. fst y < levels) ys = ys" using assms by (simp add: filter_id_conv)
  then show "mset (?c levels) = mset ys" using m [of levels] by simp
  have s: "sorted (map fst (?c n)) \<and> (\<forall>y \<in> set (?c n). fst y < n)" for n
    by (induction n) (auto simp: sorted_append less_imp_le intro!: sorted_map_same)
  then show "sorted (map fst (?c levels))" by blast
  have f: "filter (\<lambda>x. fst k = fst x) (?c n) = (if fst k < n then filter (\<lambda>x. fst k = fst x) ys else [])" for k n
  proof (induction n)
    case (Suc n)
    have "filter (\<lambda>x. fst k = fst x) (filter (\<lambda>y. fst y = n) ys) = (if fst k = n then filter (\<lambda>x. fst k = fst x) ys else [])"
      by (auto simp: filter_empty_conv intro!: filter_cong)
    with Suc show ?case by auto
  qed simp
  show "filter (\<lambda>x. fst k = fst x) (?c levels) = filter (\<lambda>x. fst k = fst x) ys" if "k \<in> set (?c levels)" for k
    using f [of k levels] that assms by auto
qed

lemma service_order:
  assumes "inv q" and "\<And>p. p < levels \<Longrightarrow> level q p = []" and "\<forall>y \<in> set ys. fst y < levels"
    and "\<forall>p < levels. length (filter (\<lambda>y. fst y = p) ys) \<le> cap"
  shows "\<exists>q'. enq_all ys q = Some q' \<and> drain (length ys) q' = sort_key fst (map (\<lambda>y. (fst y, item (snd y))) ys)"
proof -
  let ?zs = "map (\<lambda>y. (fst y, item (snd y))) ys"
  obtain q' where q': "enq_all ys q = Some q'" "inv q'"
      "\<forall>p < levels. level q' p = map (\<lambda>y. item (snd y)) (filter (\<lambda>y. fst y = p) ys)"
    using enq_all_levels [OF assms(1,3)] assms(2,4) by auto
  have "map (Pair p) (map (\<lambda>y. item (snd y)) (filter (\<lambda>y. fst y = p) ys)) = filter (\<lambda>y. fst y = p) ?zs" for p
    by (induction ys) auto
  then have "map (\<lambda>p. map (Pair p) (level q' p)) [0..<levels] = map (\<lambda>p. filter (\<lambda>y. fst y = p) ?zs) [0..<levels]"
    using q'(3) by (intro map_cong) simp_all
  then have "service q' = concat (map (\<lambda>p. filter (\<lambda>y. fst y = p) ?zs) [0..<levels])"
    by (simp only: service_def)
  then have "service q' = sort_key fst ?zs" using level_sort [of ?zs] assms(3) by simp
  then show ?thesis using q'(1) drain_service [OF q'(2), of "length ys"] by simp
qed

end

subsection \<open>The queue of the exposer\<close>

definition RGTP_PRIORITY_LEVELS :: nat where "RGTP_PRIORITY_LEVELS = 8"
definition RGTP_PRIORITY_QUEUE_DEPTH :: nat where "RGTP_PRIORITY_QUEUE_DEPTH = 256"

record rgtp_pq_entry =
  pq_chunk_index :: u32
  pq_priority :: u8
  enqueue_us :: u64

record rgtp_priority_queue =
  entries :: "rgtp_pq_entry list list"
  head :: "u32 list"
  tail :: "u32 list"
  count :: "u32 list"

definition zero_pq_entry :: rgtp_pq_entry where
  "zero_pq_entry = \<lparr>pq_chunk_index = 0, pq_priority = 0, enqueue_us = 0\<rparr>"

definition rgtp_pq_init :: rgtp_priority_queue where
  "rgtp_pq_init = \<lparr>
     entries = replicate RGTP_PRIORITY_LEVELS (replicate RGTP_PRIORITY_QUEUE_DEPTH zero_pq_entry),
     head = replicate RGTP_PRIORITY_LEVELS 0, tail = replicate RGTP_PRIORITY_LEVELS 0,
     count = replicate RGTP_PRIORITY_LEVELS 0\<rparr>"

definition rgtp_pq_enqueue ::
    "rgtp_priority_queue \<Rightarrow> u32 \<Rightarrow> u8 \<Rightarrow> u64 \<Rightarrow> rgtp_error option \<times> rgtp_priority_queue" where
  "rgtp_pq_enqueue pq chunk_index priority now_us =
    (let priority = (if priority \<ge> 8 then 7 else priority); p = unat priority in
     if count pq ! p \<ge> 256 then (Some RGTP_ERR_NOMEM, pq)
     else
       (let slot = unat (tail pq ! p mod 256);
            e = \<lparr>pq_chunk_index = chunk_index, pq_priority = priority, enqueue_us = now_us\<rparr>
        in (None, pq\<lparr>entries := (entries pq)[p := (entries pq ! p)[slot := e]],
               tail := (tail pq)[p := tail pq ! p + 1], count := (count pq)[p := count pq ! p + 1]\<rparr>)))"

text \<open>The loop over the levels from \<open>p\<close> on.\<close>

fun pq_scan :: "rgtp_priority_queue \<Rightarrow> nat list \<Rightarrow> ((u32 \<times> nat) \<times> rgtp_priority_queue) option" where
  "pq_scan pq [] = None"
| "pq_scan pq (p # ps) =
    (if count pq ! p = 0 then pq_scan pq ps
     else
       (let slot = unat (head pq ! p mod 256) in
        Some ((pq_chunk_index (entries pq ! p ! slot), p),
          pq\<lparr>head := (head pq)[p := head pq ! p + 1], count := (count pq)[p := count pq ! p - 1]\<rparr>)))"

definition rgtp_pq_dequeue ::
    "rgtp_priority_queue \<Rightarrow> (rgtp_error + u32 \<times> u8) \<times> rgtp_priority_queue" where
  "rgtp_pq_dequeue pq =
    (case pq_scan pq [0..<RGTP_PRIORITY_LEVELS] of
       None \<Rightarrow> (Inl RGTP_ERR_TIMEOUT, pq)
     | Some ((c, p), pq') \<Rightarrow> (Inr (c, word_of_nat p), pq'))"

subsection \<open>Rings\<close>

text \<open>The items between the counters of a ring.\<close>

definition ring_items :: "'b list \<Rightarrow> u32 \<Rightarrow> u32 \<Rightarrow> 'b list" where
  "ring_items es h n = map (\<lambda>i. es ! ((unat h + i) mod 256)) [0..<unat n]"

lemma ring_add_mod: "unat (h + n) mod 256 = (unat h + unat n) mod 256" for h n :: u32
  using unat_of_nat [of "unat h + unat n", where 'a = 32] by (simp add: take_bit_eq_mod mod_mod_cancel)

lemma ring_succ_mod: "unat (h + 1) mod 256 = (unat h + 1) mod 256" for h :: u32
  using ring_add_mod [of h 1] by simp

lemma unat_mod_256: "unat (h mod 256) = unat h mod 256" for h :: u32
  by (simp add: unat_mod)

lemma ring_slots_differ: "i < n \<Longrightarrow> n < 256 \<Longrightarrow> (a + i) mod 256 \<noteq> (a + n) mod 256" for a i n :: nat
  using mod_eq_dvd_iff_nat [of "a + i" "a + n" 256] nat_dvd_not_less [of "n - i" 256] by simp

lemma ring_push:
  assumes "length es = 256" and "n < 256"
  shows "ring_items (es[unat ((h + n) mod 256) := e]) h (n + 1) = ring_items es h n @ [e]"
proof -
  have n: "unat n < 256" using assms(2) by (simp add: word_less_nat_alt)
  have n1: "unat (n + 1) = unat n + 1"
    using word_of_nat_unat_32 [of "unat n + 1"] n by (simp add: add.commute)
  let ?s = "(unat h + unat n) mod 256"
  have other: "es[?s := e] ! ((unat h + i) mod 256) = es ! ((unat h + i) mod 256)" if "i < unat n" for i
    using ring_slots_differ [OF that n, of "unat h"] by simp
  have s: "unat ((h + n) mod 256) = ?s" by (simp only: unat_mod_256 ring_add_mod)
  show ?thesis unfolding ring_items_def s n1 using other assms(1) by simp
qed

lemma ring_pop:
  assumes "n \<noteq> 0"
  shows "ring_items es h n = es ! unat (h mod 256) # ring_items es (h + 1) (n - 1)"
proof -
  have "unat n = Suc (unat (n - 1))" using assms by (simp add: unat_minus_one unat_gt_0)
  then have "[0..<unat n] = 0 # map Suc [0..<unat (n - 1)]" by (simp add: map_Suc_upt upt_conv_Cons)
  moreover have "(unat h + Suc i) mod 256 = (unat (h + 1) + i) mod 256" for i
  proof -
    have "(unat (h + 1) + i) mod 256 = (unat (h + 1) mod 256 + i) mod 256" by (simp only: mod_add_left_eq)
    also have "\<dots> = (unat h + 1 + i) mod 256" by (simp only: ring_succ_mod mod_add_left_eq)
    finally show ?thesis by simp
  qed
  ultimately show ?thesis by (simp add: ring_items_def unat_mod_256)
qed

subsection \<open>The queue meets the contract\<close>

definition pq_inv :: "rgtp_priority_queue \<Rightarrow> bool" where
  "pq_inv pq \<longleftrightarrow> length (entries pq) = 8 \<and> length (head pq) = 8 \<and> length (tail pq) = 8 \<and> length (count pq) = 8 \<and>
    (\<forall>p < 8. length (entries pq ! p) = 256 \<and> count pq ! p \<le> 256 \<and> tail pq ! p = head pq ! p + count pq ! p)"

definition pq_level :: "rgtp_priority_queue \<Rightarrow> nat \<Rightarrow> u32 list" where
  "pq_level pq p =
    (if p < 8 then map pq_chunk_index (ring_items (entries pq ! p) (head pq ! p) (count pq ! p)) else [])"

text \<open>A request is a chunk index with its time.\<close>

definition pq_enq :: "nat \<Rightarrow> u32 \<times> u64 \<Rightarrow> rgtp_priority_queue \<Rightarrow> rgtp_priority_queue option" where
  "pq_enq p r pq =
    (case rgtp_pq_enqueue pq (fst r) (word_of_nat p) (snd r) of (None, pq') \<Rightarrow> Some pq' | _ \<Rightarrow> None)"

definition pq_deq :: "rgtp_priority_queue \<Rightarrow> ((nat \<times> u32) \<times> rgtp_priority_queue) option" where
  "pq_deq pq = (case rgtp_pq_dequeue pq of (Inr (c, p), pq') \<Rightarrow> Some ((unat p, c), pq') | _ \<Rightarrow> None)"

lemma pq_level_length: "p < 8 \<Longrightarrow> length (pq_level pq p) = unat (count pq ! p)"
  by (simp add: pq_level_def ring_items_def)

lemma priority_small:
  assumes "p < 8"
  shows "\<not> (word_of_nat p :: u8) \<ge> 8" and "unat (word_of_nat p :: u8) = p"
proof -
  show "unat (word_of_nat p :: u8) = p" using assms by (simp add: unat_of_nat take_bit_nat_eq_self)
  with assms show "\<not> (word_of_nat p :: u8) \<ge> 8" by (simp add: word_le_nat_alt)
qed

lemma pq_enq_full:
  assumes "pq_inv pq" and "p < 8"
  shows "pq_enq p r pq = None \<longleftrightarrow> length (pq_level pq p) = 256"
proof -
  have "count pq ! p \<le> 256" using assms by (simp add: pq_inv_def)
  then have "count pq ! p \<ge> 256 \<longleftrightarrow> unat (count pq ! p) = 256" by (auto simp: word_le_nat_alt)
  then show ?thesis
    using priority_small [OF assms(2)] pq_level_length [OF assms(2), of pq]
    by (simp add: pq_enq_def rgtp_pq_enqueue_def Let_def)
qed

lemma pq_enq_some:
  assumes "pq_inv pq" and "p < 8" and "pq_enq p x pq = Some pq'"
  shows "pq_inv pq' \<and> pq_level pq' = (pq_level pq)(p := pq_level pq p @ [fst x])"
proof -
  define e where "e = \<lparr>pq_chunk_index = fst x, pq_priority = word_of_nat p, enqueue_us = snd x\<rparr>"
  let ?n = "count pq ! p" and ?h = "head pq ! p"
  have lt: "?n < 256" and eq: "pq' = pq\<lparr>entries := (entries pq)[p := (entries pq ! p)[unat (tail pq ! p mod 256) := e]],
      tail := (tail pq)[p := tail pq ! p + 1], count := (count pq)[p := ?n + 1]\<rparr>"
    using assms(3) priority_small [OF assms(2)]
    by (auto simp: pq_enq_def rgtp_pq_enqueue_def Let_def e_def split: if_splits)
  have inv: "length (entries pq) = 8" "length (head pq) = 8" "length (tail pq) = 8" "length (count pq) = 8"
      "length (entries pq ! p) = 256" "tail pq ! p = ?h + ?n"
    using assms(1,2) by (simp_all add: pq_inv_def)
  have n1: "?n + 1 \<le> 256" using lt by (simp add: inc_le)
  have "pq_inv pq'"
    using assms(1,2) n1 inv unfolding pq_inv_def eq by (auto simp: nth_list_update ac_simps)
  moreover have "pq_level pq' r = ((pq_level pq)(p := pq_level pq p @ [fst x])) r" for r
    using ring_push [OF inv(5) lt, of ?h e] inv assms(2)
    by (cases "r = p") (simp_all add: pq_level_def eq e_def)
  ultimately show ?thesis by blast
qed

lemma pq_scan_none: "pq_scan pq ps = None \<longleftrightarrow> (\<forall>p \<in> set ps. count pq ! p = 0)"
  by (induction ps) (auto simp: Let_def)

lemma pq_scan_some:
  assumes "pq_scan pq ps = Some ((c, p), pq')"
  shows "p \<in> set ps \<and> count pq ! p \<noteq> 0 \<and> c = pq_chunk_index (entries pq ! p ! unat (head pq ! p mod 256)) \<and>
    pq' = pq\<lparr>head := (head pq)[p := head pq ! p + 1], count := (count pq)[p := count pq ! p - 1]\<rparr>"
  using assms
proof (induction ps)
  case (Cons q ps)
  then show ?case by (cases "count pq ! q = 0") (auto simp: Let_def)
qed simp

lemma pq_scan_first:
  "pq_scan pq ps = Some ((c, p), pq') \<Longrightarrow> sorted ps \<Longrightarrow> r \<in> set ps \<Longrightarrow> r < p \<Longrightarrow> count pq ! r = 0"
proof (induction ps)
  case (Cons q ps)
  show ?case
  proof (cases "count pq ! q = 0")
    case True
    with Cons show ?thesis by auto
  next
    case False
    with Cons.prems show ?thesis by (auto simp: Let_def)
  qed
qed simp

lemma pq_deq_scan:
  "pq_deq pq = map_option (\<lambda>((c, p), pq'). ((p, c), pq')) (pq_scan pq [0..<8])"
proof (cases "pq_scan pq [0..<8]")
  case None
  then show ?thesis by (simp add: pq_deq_def rgtp_pq_dequeue_def RGTP_PRIORITY_LEVELS_def del: upt_Suc)
next
  case (Some a)
  obtain c p pq' where a: "a = ((c, p), pq')" by (cases a) auto
  then have "p < 8" using pq_scan_some [of pq "[0..<8]" c p pq'] Some by simp
  with Some a priority_small(2) [of p] show ?thesis
    by (simp add: pq_deq_def rgtp_pq_dequeue_def RGTP_PRIORITY_LEVELS_def del: upt_Suc)
qed

lemma pq_level_empty: "p < 8 \<Longrightarrow> pq_level pq p = [] \<longleftrightarrow> count pq ! p = 0"
  using pq_level_length [of p pq] by (simp add: unat_eq_0 length_0_conv [symmetric] del: length_0_conv)

lemma pq_deq_some:
  assumes "pq_inv pq" and "pq_deq pq = Some ((p, c), pq')"
  shows "pq_inv pq' \<and> p < 8 \<and> (\<forall>r < p. pq_level pq r = []) \<and> pq_level pq = (pq_level pq')(p := c # pq_level pq' p)"
proof -
  have scan: "pq_scan pq [0..<8] = Some ((c, p), pq')" using assms(2) by (auto simp: pq_deq_scan)
  let ?n = "count pq ! p" and ?h = "head pq ! p"
  have p: "p < 8" and n: "?n \<noteq> 0" and c: "c = pq_chunk_index (entries pq ! p ! unat (?h mod 256))"
    and eq: "pq' = pq\<lparr>head := (head pq)[p := ?h + 1], count := (count pq)[p := ?n - 1]\<rparr>"
    using pq_scan_some [OF scan] by simp_all
  have low: "\<forall>r < p. count pq ! r = 0"
    using pq_scan_first [OF scan sorted_upt] p by simp
  have inv: "length (head pq) = 8" "length (count pq) = 8" using assms(1) by (simp_all add: pq_inv_def)
  have "?n \<le> 256" using assms(1) p by (simp add: pq_inv_def)
  then have "unat (?n - 1) \<le> 256" using n by (simp add: unat_minus_one word_le_nat_alt)
  then have "?n - 1 \<le> 256" by (simp add: word_le_nat_alt)
  then have "pq_inv pq'"
    using assms(1) p inv unfolding pq_inv_def eq by (auto simp: nth_list_update)
  moreover have "pq_level pq r = ((pq_level pq')(p := c # pq_level pq' p)) r" for r
    using ring_pop [OF n, of "entries pq ! p" ?h] inv p
    by (cases "r = p") (simp_all add: pq_level_def eq c)
  moreover have "\<forall>r < p. pq_level pq r = []" using low p by (simp add: pq_level_empty)
  ultimately show ?thesis using p by blast
qed

interpretation pq: priority_levels pq_enq fst pq_deq pq_level pq_inv 8 256
proof
  fix q assume "pq_inv q"
  show "pq_deq q = None \<longleftrightarrow> (\<forall>p < 8. pq_level q p = [])"
    by (auto simp: pq_deq_scan pq_scan_none pq_level_empty simp del: upt_Suc)
qed (use pq_enq_full pq_enq_some pq_deq_some in blast)+

lemma pq_init_inv: "pq_inv rgtp_pq_init"
  by (simp add: pq_inv_def rgtp_pq_init_def RGTP_PRIORITY_LEVELS_def RGTP_PRIORITY_QUEUE_DEPTH_def nth_replicate del: replicate.simps)

lemma pq_init_level: "pq_level rgtp_pq_init p = []"
  by (simp add: pq_level_def rgtp_pq_init_def RGTP_PRIORITY_LEVELS_def ring_items_def nth_replicate del: replicate.simps)

subsection \<open>Jitter buffer\<close>

definition RGTP_JITTER_BUF_MAX_SLOTS :: u32 where "RGTP_JITTER_BUF_MAX_SLOTS = 1024"
definition JITTER_SLOT_BYTES :: nat where "JITTER_SLOT_BYTES = 40"

record rgtp_jitter_slot =
  js_data :: "bytes option"
  js_len :: nat
  js_chunk_index :: u32
  js_arrival_us :: u64
  js_valid :: bool

record rgtp_jitter_buf =
  jb_slots :: "rgtp_jitter_slot list option"
  jb_capacity :: u32
  jb_depth_us :: u32
  jb_next_deliver :: u32
  jb_play_start_us :: u64

definition zero_jitter_slot :: rgtp_jitter_slot where
  "zero_jitter_slot = \<lparr>js_data = None, js_len = 0, js_chunk_index = 0, js_arrival_us = 0, js_valid = False\<rparr>"

definition rgtp_jitter_buf_init :: "mem_env \<Rightarrow> bool \<Rightarrow> u32 \<Rightarrow> u32 \<Rightarrow> rgtp_jitter_buf cres" where
  "rgtp_jitter_buf_init env jb depth_ms capacity =
    (if \<not> jb \<or> depth_ms < 1 \<or> depth_ms > 100 then err RGTP_ERR_INVALID_ARG
     else
       (let capacity = (if capacity = 0 \<or> capacity > RGTP_JITTER_BUF_MAX_SLOTS then RGTP_JITTER_BUF_MAX_SLOTS else capacity) in
        if \<not> rgtp_calloc env 0 (unat capacity) JITTER_SLOT_BYTES then err RGTP_ERR_NOMEM
        else ok \<lparr>jb_slots = Some (replicate (unat capacity) zero_jitter_slot), jb_capacity = capacity,
                 jb_depth_us = depth_ms * 1000, jb_next_deliver = 0, jb_play_start_us = 0\<rparr>))"

text \<open>The releases of a destroy, in order: the data of every slot, then the slot
  array.\<close>

definition rgtp_jitter_buf_destroy :: "mem_env \<Rightarrow> rgtp_jitter_buf option \<Rightarrow> (free_call list \<times> rgtp_jitter_buf option) option" where
  "rgtp_jitter_buf_destroy env jb_ptr =
    (case jb_ptr of
       None \<Rightarrow> Some ([], None)
     | Some jb \<Rightarrow>
         (case jb_slots jb of
            None \<Rightarrow> Some ([], Some jb)
          | Some slots \<Rightarrow>
              if unat (jb_capacity jb) \<le> length slots then
                Some (map (\<lambda>i. rgtp_free env (js_data (slots ! i) \<noteq> None)) [0..<unat (jb_capacity jb)] @ [rgtp_free env True],
                  Some (jb\<lparr>jb_slots := None\<rparr>))
              else None))"

definition jitter_slot :: "rgtp_jitter_buf \<Rightarrow> u32 \<Rightarrow> (nat \<times> rgtp_jitter_slot list) option" where
  "jitter_slot jb i =
    (case jb_slots jb of
       None \<Rightarrow> None
     | Some slots \<Rightarrow>
         if jb_capacity jb = 0 then None
         else (let s = unat (i mod jb_capacity jb) in if s < length slots then Some (s, slots) else None))"

definition rgtp_jitter_buf_insert ::
    "mem_env \<Rightarrow> rgtp_jitter_buf option \<Rightarrow> u32 \<Rightarrow> bytes option \<Rightarrow> u64 \<Rightarrow>
      (rgtp_error option \<times> rgtp_jitter_buf option) option" where
  "rgtp_jitter_buf_insert env jb_ptr chunk_index data_ptr arrival_us =
    (case (jb_ptr, data_ptr) of
       (Some jb, Some d) \<Rightarrow> do {
         (s, slots) \<leftarrow> jitter_slot jb chunk_index;
         if js_valid (slots ! s) then Some (None, Some jb)
         else if \<not> rgtp_malloc env 0 (length d)
           then Some (Some RGTP_ERR_NOMEM, Some (jb\<lparr>jb_slots := Some (slots[s := (slots ! s)\<lparr>js_data := None\<rparr>])\<rparr>))
         else
           (let e = \<lparr>js_data = Some d, js_len = length d, js_chunk_index = chunk_index, js_arrival_us = arrival_us, js_valid = True\<rparr>;
                start = (if jb_play_start_us jb = 0 then arrival_us + ucast (jb_depth_us jb) else jb_play_start_us jb)
            in Some (None, Some (jb\<lparr>jb_slots := Some (slots[s := e]), jb_play_start_us := start\<rparr>)))}
     | _ \<Rightarrow> Some (Some RGTP_ERR_INVALID_ARG, jb_ptr))"

definition rgtp_jitter_buf_dequeue ::
    "rgtp_jitter_buf option \<Rightarrow> u64 \<Rightarrow> bool \<Rightarrow> nat \<Rightarrow> bool \<Rightarrow>
      ((rgtp_error + bytes \<times> u32) \<times> rgtp_jitter_buf option) option" where
  "rgtp_jitter_buf_dequeue jb_ptr now_us buf buf_size out_len =
    (case jb_ptr of
       None \<Rightarrow> Some (Inl RGTP_ERR_INVALID_ARG, jb_ptr)
     | Some jb \<Rightarrow>
         if \<not> buf \<or> \<not> out_len then Some (Inl RGTP_ERR_INVALID_ARG, jb_ptr)
         else if jb_play_start_us jb > 0 \<and> now_us < jb_play_start_us jb then Some (Inl RGTP_ERR_TIMEOUT, jb_ptr)
         else do {
           (s, slots) \<leftarrow> jitter_slot jb (jb_next_deliver jb);
           if \<not> js_valid (slots ! s) then Some (Inl RGTP_ERR_TIMEOUT, jb_ptr)
           else if js_len (slots ! s) > buf_size then Some (Inl RGTP_ERR_INVALID_ARG, jb_ptr)
           else do {
             d \<leftarrow> js_data (slots ! s);
             if js_len (slots ! s) \<le> length d
             then Some (Inr (take (js_len (slots ! s)) d, jb_next_deliver jb),
               Some (jb\<lparr>jb_slots := Some (slots[s := (slots ! s)\<lparr>js_data := None, js_valid := False\<rparr>]),
                        jb_next_deliver := jb_next_deliver jb + 1\<rparr>))
             else None}})"

subsection \<open>Timeout of priority-0 chunks\<close>

text \<open>True when the error event is logged.\<close>

definition rgtp_check_priority_timeout :: "u64 \<Rightarrow> u32 \<Rightarrow> u64 \<Rightarrow> bool" where
  "rgtp_check_priority_timeout last_chunk_arrival_us inter_chunk_us now_us =
    (if inter_chunk_us = 0 then False
     else (let deadline = last_chunk_arrival_us + 2 * ucast inter_chunk_us in now_us > deadline))"

subsection \<open>Properties\<close>

text \<open>C27: requests of at most 256 per level are all accepted, and dequeuing serves
  them in the stable order of their priorities: a lower level first, and within a level
  first come, first served.\<close>

theorem pq_service_order:
  assumes "\<forall>y \<in> set reqs. fst y < 8" and "\<forall>p < 8. length (filter (\<lambda>y. fst y = p) reqs) \<le> 256"
  shows "\<exists>q. pq.enq_all reqs rgtp_pq_init = Some q \<and>
    pq.drain (length reqs) q = sort_key fst (map (\<lambda>y. (fst y, fst (snd y))) reqs)"
  by (rule pq.service_order [OF pq_init_inv pq_init_level assms])

theorem pq_service_order_witness:
  "\<exists>q. pq.enq_all [(3, 10, 0), (0, 11, 1), (3, 12, 2), (0, 13, 3)] rgtp_pq_init = Some q \<and>
    pq.drain 4 q = [(0, 11), (0, 13), (3, 10), (3, 12)]"
proof -
  let ?r = "[(3, 10, 0), (0, 11, 1), (3, 12, 2), (0, 13, 3)] :: (nat \<times> u32 \<times> u64) list"
  have "length (filter P ?r) \<le> 256" for P by (rule le_trans [OF length_filter_le]) simp
  then have "\<exists>q. pq.enq_all ?r rgtp_pq_init = Some q \<and>
      pq.drain (length ?r) q = sort_key fst (map (\<lambda>y. (fst y, fst (snd y))) ?r)"
    by (intro pq_service_order) simp_all
  moreover have "sort_key fst (map (\<lambda>y. (fst y, fst (snd y))) ?r) = [(0, 11), (0, 13), (3, 10), (3, 12)]" by simp
  moreover have "length ?r = 4" by simp
  ultimately show ?thesis by (simp only:)
qed

text \<open>The jitter buffer does not compare an index with the delivery position: a
  chunk that arrives one buffer length ahead takes the slot of chunk 0, is delivered as
  chunk 0, and the real chunk 0 is dropped although the call reports success.\<close>

theorem jitter_wrong_chunk:
  assumes "plenty env"
  shows "do {
    jb \<leftarrow> (case rgtp_jitter_buf_init env True 10 4 of Some (Inr jb) \<Rightarrow> Some jb | _ \<Rightarrow> None);
    (r1, jb) \<leftarrow> rgtp_jitter_buf_insert env (Some jb) 4 (Some [44]) 1;
    (r2, jb) \<leftarrow> rgtp_jitter_buf_insert env jb 0 (Some [40]) 2;
    (r3, jb) \<leftarrow> rgtp_jitter_buf_dequeue jb 20000 True 100 True;
    Some (r1, r2, r3)} = Some (None, None, Inr ([44], 0))"
proof -
  have four: "replicate 4 x = [x, x, x, x]" for x :: rgtp_jitter_slot by (simp add: numeral_eq_Suc)
  have "rgtp_jitter_buf_init env True 10 4 = ok \<lparr>jb_slots = Some [zero_jitter_slot, zero_jitter_slot, zero_jitter_slot, zero_jitter_slot],
      jb_capacity = 4, jb_depth_us = 10000, jb_next_deliver = 0, jb_play_start_us = 0\<rparr>"
    using assms by (simp add: rgtp_jitter_buf_init_def RGTP_JITTER_BUF_MAX_SLOTS_def JITTER_SLOT_BYTES_def SIZE_MAX_def four)
  then show ?thesis
    using assms by (simp add: rgtp_jitter_buf_insert_def rgtp_jitter_buf_dequeue_def jitter_slot_def zero_jitter_slot_def)
qed

theorem jitter_wrong_chunk_witness:
  "let env = \<lparr>g_alloc = \<lparr>alloc_fn = None, free_fn_set = False\<rparr>, memory_profile_embedded = False, sys_malloc = (\<lambda>c s. True)\<rparr>
   in do {
    jb \<leftarrow> (case rgtp_jitter_buf_init env True 10 4 of Some (Inr jb) \<Rightarrow> Some jb | _ \<Rightarrow> None);
    (r1, jb) \<leftarrow> rgtp_jitter_buf_insert env (Some jb) 4 (Some [44]) 1;
    (r2, jb) \<leftarrow> rgtp_jitter_buf_insert env jb 0 (Some [40]) 2;
    (r3, jb) \<leftarrow> rgtp_jitter_buf_dequeue jb 20000 True 100 True;
    Some (r1, r2, r3)} = Some (None, None, Inr ([44], 0))"
  unfolding Let_def by (rule jitter_wrong_chunk) (simp add: plenty_def)

end
