(* ===== verification/Rgtp_Reorder.thy ===== *)
theory Rgtp_Reorder
  imports Rgtp_Core
begin

text \<open>
  The partial-pull range and the reorder buffer of
  \<^verbatim>\<open>src/transport/rgtp_streaming.c\<close>.  The buffer refines a
  specification with unbounded indices: a delivery position and a finite map of the
  chunks received ahead of it.  Hence every chunk is delivered once, in order, with the
  data that was inserted for it first.
\<close>

subsection \<open>Partial pull\<close>

definition rgtp_compute_chunk_range :: "u32 \<Rightarrow> u32 \<Rightarrow> u64 \<Rightarrow> u64 \<Rightarrow> bool \<Rightarrow> bool \<Rightarrow> (u32 \<times> u32) cres" where
  "rgtp_compute_chunk_range chunk_size chunk_count offset len first_chunk last_chunk =
    (if chunk_size = 0 \<or> chunk_count = 0 \<or> \<not> first_chunk \<or> \<not> last_chunk then err RGTP_ERR_INVALID_ARG
     else if len = 0 then err RGTP_ERR_INVALID_ARG
     else
       (let last_byte = offset + len - 1;
            fc = ucast (offset div ucast chunk_size);
            lc = ucast (last_byte div ucast chunk_size)
        in if fc \<ge> chunk_count then err RGTP_ERR_INVALID_ARG
           else ok (fc, if lc \<ge> chunk_count then chunk_count - 1 else lc)))"

subsection \<open>Reorder buffer\<close>

record rgtp_reorder_buf =
  max_out_of_order :: u32
  next_deliver :: u32
  capacity :: u32
  slots :: "bytes option list"
  slot_sizes :: "nat list"
  slot_valid :: "bool list"

definition rgtp_reorder_buf_init :: "mem_env \<Rightarrow> bool \<Rightarrow> u32 \<Rightarrow> rgtp_reorder_buf cres" where
  "rgtp_reorder_buf_init env rb max_ooo =
    (if \<not> rb then err RGTP_ERR_INVALID_ARG
     else
       (let cap = max_ooo + 1 in
        if \<not> rgtp_calloc env 0 (unat cap) 8 \<or> \<not> rgtp_calloc env 1 (unat cap) 8 \<or> \<not> rgtp_calloc env 2 (unat cap) 1
        then err RGTP_ERR_NOMEM
        else ok \<lparr>max_out_of_order = max_ooo, next_deliver = 0, capacity = cap,
                 slots = replicate (unat cap) None, slot_sizes = replicate (unat cap) 0,
                 slot_valid = replicate (unat cap) False\<rparr>))"

text \<open>The releases of a destroy, in order, and the zeroed structure.\<close>

definition rgtp_reorder_buf_destroy :: "mem_env \<Rightarrow> rgtp_reorder_buf option \<Rightarrow> (free_call list \<times> rgtp_reorder_buf option) option" where
  "rgtp_reorder_buf_destroy env rb_ptr =
    (case rb_ptr of
       None \<Rightarrow> Some ([], None)
     | Some rb \<Rightarrow>
         if unat (capacity rb) \<le> length (slots rb) then
           Some (map (\<lambda>i. rgtp_free env (slots rb ! i \<noteq> None)) [0..<unat (capacity rb)] @ replicate 3 (rgtp_free env True),
             Some \<lparr>max_out_of_order = 0, next_deliver = 0, capacity = 0, slots = [], slot_sizes = [], slot_valid = []\<rparr>)
         else None)"

definition rgtp_reorder_buf_insert ::
    "mem_env \<Rightarrow> rgtp_reorder_buf option \<Rightarrow> u32 \<Rightarrow> bytes option \<Rightarrow> (rgtp_error option \<times> rgtp_reorder_buf option) option" where
  "rgtp_reorder_buf_insert env rb_ptr chunk_index data_ptr =
    (case (rb_ptr, data_ptr) of
       (Some rb, Some d) \<Rightarrow>
         if chunk_index < next_deliver rb then Some (Some RGTP_ERR_INVALID_ARG, rb_ptr)
         else if chunk_index - next_deliver rb \<ge> capacity rb then Some (Some RGTP_ERR_INVALID_ARG, rb_ptr)
         else
           (let slot = unat (chunk_index mod capacity rb) in
            if length (slot_valid rb) \<le> slot \<or> length (slots rb) \<le> slot \<or> length (slot_sizes rb) \<le> slot then None
            else if slot_valid rb ! slot then Some (None, rb_ptr)
            else if \<not> rgtp_malloc env 0 (length d)
              then Some (Some RGTP_ERR_NOMEM, Some (rb\<lparr>slots := (slots rb)[slot := None]\<rparr>))
            else Some (None, Some (rb\<lparr>slots := (slots rb)[slot := Some d],
                slot_sizes := (slot_sizes rb)[slot := length d], slot_valid := (slot_valid rb)[slot := True]\<rparr>)))
     | _ \<Rightarrow> Some (Some RGTP_ERR_INVALID_ARG, rb_ptr))"

definition rgtp_reorder_buf_dequeue ::
    "rgtp_reorder_buf option \<Rightarrow> bool \<Rightarrow> nat \<Rightarrow> bool \<Rightarrow> ((rgtp_error + bytes \<times> u32) \<times> rgtp_reorder_buf option) option" where
  "rgtp_reorder_buf_dequeue rb_ptr buffer buf_size out_len =
    (case rb_ptr of
       None \<Rightarrow> Some (Inl RGTP_ERR_INVALID_ARG, rb_ptr)
     | Some rb \<Rightarrow>
         if \<not> buffer \<or> \<not> out_len then Some (Inl RGTP_ERR_INVALID_ARG, rb_ptr)
         else if capacity rb = 0 then None
         else
           (let slot = unat (next_deliver rb mod capacity rb) in
            if length (slot_valid rb) \<le> slot \<or> length (slots rb) \<le> slot \<or> length (slot_sizes rb) \<le> slot then None
            else if \<not> slot_valid rb ! slot then Some (Inl RGTP_ERR_TIMEOUT, rb_ptr)
            else if slot_sizes rb ! slot > buf_size then Some (Inl RGTP_ERR_INVALID_ARG, rb_ptr)
            else do {
              d \<leftarrow> slots rb ! slot;
              if slot_sizes rb ! slot \<le> length d
              then Some (Inr (take (slot_sizes rb ! slot) d, next_deliver rb),
                Some (rb\<lparr>slots := (slots rb)[slot := None], slot_sizes := (slot_sizes rb)[slot := 0],
                  slot_valid := (slot_valid rb)[slot := False], next_deliver := next_deliver rb + 1\<rparr>))
              else None}))"

subsection \<open>Specification\<close>

text \<open>An operation carries the allocator that it meets.\<close>

datatype reorder_op = Insert mem_env u32 bytes | Dequeue nat

type_synonym reorder_out = "rgtp_error option + (rgtp_error + bytes \<times> nat)"

text \<open>The delivery position and the chunks received ahead of it.\<close>

fun reorder_spec :: "nat \<Rightarrow> reorder_op \<Rightarrow> nat \<times> (nat \<rightharpoonup> bytes) \<Rightarrow> reorder_out \<times> nat \<times> (nat \<rightharpoonup> bytes)" where
  "reorder_spec N (Insert env i d) (nxt, m) =
    (if unat i < nxt \<or> nxt + N \<le> unat i then (Inl (Some RGTP_ERR_INVALID_ARG), nxt, m)
     else if m (unat i) \<noteq> None then (Inl None, nxt, m)
     else if \<not> rgtp_malloc env 0 (length d) then (Inl (Some RGTP_ERR_NOMEM), nxt, m)
     else (Inl None, nxt, m(unat i \<mapsto> d)))"
| "reorder_spec N (Dequeue sz) (nxt, m) =
    (case m nxt of
       None \<Rightarrow> (Inr (Inl RGTP_ERR_TIMEOUT), nxt, m)
     | Some d \<Rightarrow> if length d > sz then (Inr (Inl RGTP_ERR_INVALID_ARG), nxt, m)
         else (Inr (Inr (d, nxt)), Suc nxt, m(nxt := None)))"

fun reorder_step :: "reorder_op \<Rightarrow> rgtp_reorder_buf \<Rightarrow> (reorder_out \<times> rgtp_reorder_buf) option" where
  "reorder_step (Insert env i d) rb =
    (case rgtp_reorder_buf_insert env (Some rb) i (Some d) of Some (r, Some rb') \<Rightarrow> Some (Inl r, rb') | _ \<Rightarrow> None)"
| "reorder_step (Dequeue sz) rb =
    (case rgtp_reorder_buf_dequeue (Some rb) True sz True of
       Some (r, Some rb') \<Rightarrow> Some (Inr (map_sum id (map_prod id unat) r), rb') | _ \<Rightarrow> None)"

text \<open>The last 32-bit index is excluded: after it the delivery position wraps.\<close>

fun reorder_allowed :: "reorder_op \<Rightarrow> bool" where
  "reorder_allowed (Insert env i d) = (unat i < 4294967295)"
| "reorder_allowed (Dequeue sz) = True"

subsection \<open>Abstraction\<close>

definition in_window :: "rgtp_reorder_buf \<Rightarrow> nat \<Rightarrow> bool" where
  "in_window rb i \<longleftrightarrow> unat (next_deliver rb) \<le> i \<and> i < unat (next_deliver rb) + unat (capacity rb)"

definition reorder_abs :: "rgtp_reorder_buf \<Rightarrow> nat \<times> (nat \<rightharpoonup> bytes)" where
  "reorder_abs rb = (unat (next_deliver rb), \<lambda>i.
    if in_window rb i \<and> slot_valid rb ! (i mod unat (capacity rb)) then slots rb ! (i mod unat (capacity rb)) else None)"

definition reorder_inv :: "nat \<Rightarrow> rgtp_reorder_buf \<Rightarrow> bool" where
  "reorder_inv N rb \<longleftrightarrow> unat (capacity rb) = N \<and> 0 < N \<and>
    length (slots rb) = N \<and> length (slot_sizes rb) = N \<and> length (slot_valid rb) = N \<and>
    (\<forall>s < N. slot_valid rb ! s \<longrightarrow> (\<exists>d. slots rb ! s = Some d \<and> slot_sizes rb ! s = length d)) \<and>
    (\<forall>i. in_window rb i \<and> slot_valid rb ! (i mod N) \<longrightarrow> i < 4294967295)"

lemma window_slots_differ:
  assumes "nxt \<le> i" "i < nxt + N" "nxt \<le> j" "j < nxt + N" "i mod N = j mod N"
  shows "i = (j :: nat)"
proof (cases "i \<le> j")
  case True
  then have "N dvd j - i" using assms(5) mod_eq_dvd_iff_nat [OF True, of N] by simp
  then show ?thesis using assms True nat_dvd_not_less [of "j - i" N] by (cases "i = j") auto
next
  case False
  then have "N dvd i - j" using assms(5) mod_eq_dvd_iff_nat [of j i N] by simp
  then show ?thesis using assms False nat_dvd_not_less [of "i - j" N] by auto
qed

lemma unat_mod_cap: "unat (i mod c) = unat i mod unat c" for i c :: u32
  by (simp add: unat_mod)

text \<open>The shape of a buffer, and the slot of an index in the window.\<close>

lemma reorder_shape:
  assumes "reorder_inv N rb"
  shows "unat (capacity rb) = N" "0 < N" "capacity rb \<noteq> 0" "length (slots rb) = N" "length (slot_sizes rb) = N" "length (slot_valid rb) = N"
  using assms by (auto simp: reorder_inv_def)

lemma slot_unique:
  assumes "reorder_inv N rb" and "in_window rb i" and "in_window rb j"
  shows "i mod N = j mod N \<longleftrightarrow> i = j"
  using window_slots_differ [of "unat (next_deliver rb)" i N j] assms reorder_shape(1) [OF assms(1)] by (auto simp: in_window_def)

lemma abs_fst: "fst (reorder_abs rb) = unat (next_deliver rb)"
  by (simp add: reorder_abs_def)

lemma abs_at:
  assumes "reorder_inv N rb" and "in_window rb i"
  shows "snd (reorder_abs rb) i = (if slot_valid rb ! (i mod N) then slots rb ! (i mod N) else None)"
  using assms reorder_shape(1) [OF assms(1)] by (simp add: reorder_abs_def)

lemma in_window_word:
  assumes "reorder_inv N rb"
  shows "in_window rb (unat i) \<longleftrightarrow> \<not> i < next_deliver rb \<and> \<not> capacity rb \<le> i - next_deliver rb"
proof (cases "i < next_deliver rb")
  case False
  then have "unat (i - next_deliver rb) = unat i - unat (next_deliver rb)" by (simp add: unat_sub)
  with False show ?thesis by (auto simp: in_window_def word_le_nat_alt word_less_nat_alt)
qed (auto simp: in_window_def word_less_nat_alt)

text \<open>The changes that the operations make to a slot.\<close>

lemma clear_slot:
  assumes "reorder_inv N rb" and "\<not> slot_valid rb ! s"
  shows "reorder_inv N (rb\<lparr>slots := (slots rb)[s := None]\<rparr>)" and "reorder_abs (rb\<lparr>slots := (slots rb)[s := None]\<rparr>) = reorder_abs rb"
proof -
  let ?rb = "rb\<lparr>slots := (slots rb)[s := None]\<rparr>"
  have w: "in_window ?rb = in_window rb" by (simp add: in_window_def fun_eq_iff)
  show "reorder_abs ?rb = reorder_abs rb"
    unfolding reorder_abs_def w using assms(2) by (auto simp: fun_eq_iff) (metis nth_list_update_neq)
  show "reorder_inv N ?rb"
    using assms unfolding reorder_inv_def w by auto (metis nth_list_update_neq)
qed

lemma store_slot:
  fixes d :: bytes
  assumes "reorder_inv N rb" and "in_window rb i" and "i < 4294967295"
  defines "rb' \<equiv> rb\<lparr>slots := (slots rb)[i mod N := Some d], slot_sizes := (slot_sizes rb)[i mod N := length d],
    slot_valid := (slot_valid rb)[i mod N := True]\<rparr>"
  shows "reorder_inv N rb'" and "reorder_abs rb' = (unat (next_deliver rb), (snd (reorder_abs rb))(i \<mapsto> d))"
proof -
  note sh = reorder_shape [OF assms(1)]
  have s: "i mod N < N" using sh(2) by simp
  have w: "in_window rb' = in_window rb" by (simp add: in_window_def fun_eq_iff rb'_def)
  have other: "\<forall>j. in_window rb j \<longrightarrow> (i mod N = j mod N \<longleftrightarrow> i = j)" using slot_unique [OF assms(1,2)] by blast
  have "snd (reorder_abs rb') j = ((snd (reorder_abs rb))(i \<mapsto> d)) j" for j
    unfolding reorder_abs_def w using sh s assms(2) other by (auto simp: nth_list_update rb'_def)
  then have "snd (reorder_abs rb') = (snd (reorder_abs rb))(i \<mapsto> d)" by blast
  then show "reorder_abs rb' = (unat (next_deliver rb), (snd (reorder_abs rb))(i \<mapsto> d))"
    by (simp add: reorder_abs_def rb'_def)
  show "reorder_inv N rb'"
    using assms(1,3) other s sh unfolding reorder_inv_def w by (auto simp: nth_list_update rb'_def split: if_splits)
qed

lemma advance_slot:
  assumes "reorder_inv N rb" and "slot_valid rb ! (unat (next_deliver rb) mod N)"
  defines "s \<equiv> unat (next_deliver rb) mod N"
  defines "rb' \<equiv> rb\<lparr>slots := (slots rb)[s := None], slot_sizes := (slot_sizes rb)[s := 0],
    slot_valid := (slot_valid rb)[s := False], next_deliver := next_deliver rb + 1\<rparr>"
  shows "reorder_inv N rb'" and "reorder_abs rb' = (Suc (unat (next_deliver rb)), (snd (reorder_abs rb))(unat (next_deliver rb) := None))"
proof -
  let ?n = "unat (next_deliver rb)"
  note sh = reorder_shape [OF assms(1)]
  have s: "s < N" using sh(2) by (simp add: s_def)
  have win: "in_window rb ?n" using sh by (simp add: in_window_def)
  then have "?n < 4294967295" using assms(1,2) by (auto simp: reorder_inv_def)
  then have n1: "unat (next_deliver rb + 1) = ?n + 1"
    using word_of_nat_unat_32 [of "?n + 1"] by (simp add: add.commute)
  have w: "in_window rb' j \<longleftrightarrow> (in_window rb j \<and> j \<noteq> ?n) \<or> j = ?n + N" for j
    using sh by (auto simp: in_window_def n1 rb'_def)
  have last: "(?n + N) mod N = s" by (simp add: s_def)
  have other: "j mod N = s \<longleftrightarrow> j = ?n" if "in_window rb j" for j using slot_unique [OF assms(1) that win] by (simp add: s_def)
  have "snd (reorder_abs rb') j = ((snd (reorder_abs rb))(?n := None)) j" for j
    unfolding reorder_abs_def w using sh s other [of j] last by (auto simp: nth_list_update rb'_def)
  then have "snd (reorder_abs rb') = (snd (reorder_abs rb))(?n := None)" by blast
  then show "reorder_abs rb' = (Suc ?n, (snd (reorder_abs rb))(?n := None))"
    by (simp add: reorder_abs_def n1 rb'_def)
  show "reorder_inv N rb'"
    using assms(1) last sh s unfolding reorder_inv_def w by (auto simp: nth_list_update rb'_def)
qed

lemma insert_refines:
  assumes inv: "reorder_inv N rb" and i: "unat i < 4294967295"
  shows "\<exists>r rb'. reorder_step (Insert env i d) rb = Some (r, rb') \<and> reorder_inv N rb' \<and>
    reorder_spec N (Insert env i d) (reorder_abs rb) = (r, reorder_abs rb')"
proof -
  let ?s = "unat i mod N"
  note sh = reorder_shape [OF inv]
  obtain m where m: "reorder_abs rb = (unat (next_deliver rb), m)" by (simp add: reorder_abs_def)
  show ?thesis
  proof (cases "in_window rb (unat i)")
    case False
    then have "reorder_step (Insert env i d) rb = Some (Inl (Some RGTP_ERR_INVALID_ARG), rb)"
      using in_window_word [OF inv] by (auto simp: rgtp_reorder_buf_insert_def)
    with False inv m sh(1) show ?thesis by (auto simp: in_window_def)
  next
    case True
    have s: "?s < N" "\<not> N \<le> ?s" "unat (i mod capacity rb) = ?s" using sh by (simp_all add: unat_mod_cap not_le)
    have step: "reorder_step (Insert env i d) rb =
        (if slot_valid rb ! ?s then Some (Inl None, rb)
         else if \<not> rgtp_malloc env 0 (length d) then Some (Inl (Some RGTP_ERR_NOMEM), rb\<lparr>slots := (slots rb)[?s := None]\<rparr>)
         else Some (Inl None, rb\<lparr>slots := (slots rb)[?s := Some d], slot_sizes := (slot_sizes rb)[?s := length d],
            slot_valid := (slot_valid rb)[?s := True]\<rparr>))"
      using True in_window_word [OF inv] s sh by (simp add: rgtp_reorder_buf_insert_def Let_def)
    have at: "m (unat i) = (if slot_valid rb ! ?s then slots rb ! ?s else None)" using abs_at [OF inv True] m by simp
    have "slot_valid rb ! ?s \<Longrightarrow> slots rb ! ?s \<noteq> None" using inv s(1) by (auto simp: reorder_inv_def)
    then have spec: "reorder_spec N (Insert env i d) (reorder_abs rb) =
        (if slot_valid rb ! ?s then (Inl None, reorder_abs rb)
         else if \<not> rgtp_malloc env 0 (length d) then (Inl (Some RGTP_ERR_NOMEM), reorder_abs rb)
         else (Inl None, unat (next_deliver rb), m(unat i \<mapsto> d)))"
      using True sh(1) at m by (auto simp: in_window_def)
    show ?thesis
      using step spec inv clear_slot [OF inv, of ?s] store_slot [OF inv True i, of d] m by auto
  qed
qed

lemma dequeue_refines:
  assumes inv: "reorder_inv N rb"
  shows "\<exists>r rb'. reorder_step (Dequeue sz) rb = Some (r, rb') \<and> reorder_inv N rb' \<and>
    reorder_spec N (Dequeue sz) (reorder_abs rb) = (r, reorder_abs rb')"
proof -
  let ?n = "unat (next_deliver rb)"
  let ?s = "?n mod N"
  note sh = reorder_shape [OF inv]
  obtain m where m: "reorder_abs rb = (?n, m)" by (simp add: reorder_abs_def)
  have s: "?s < N" "\<not> N \<le> ?s" "unat (next_deliver rb mod capacity rb) = ?s" using sh by (simp_all add: unat_mod_cap not_le)
  have "in_window rb ?n" using sh by (simp add: in_window_def)
  then have at: "m ?n = (if slot_valid rb ! ?s then slots rb ! ?s else None)" using abs_at [OF inv] m by simp
  show ?thesis
  proof (cases "slot_valid rb ! ?s")
    case False
    then have "reorder_step (Dequeue sz) rb = Some (Inr (Inl RGTP_ERR_TIMEOUT), rb)"
      using s sh by (simp add: rgtp_reorder_buf_dequeue_def Let_def)
    then show ?thesis using inv m at False by simp
  next
    case True
    obtain d where d: "slots rb ! ?s = Some d" "slot_sizes rb ! ?s = length d"
      using inv True s(1) by (auto simp: reorder_inv_def)
    then have "reorder_step (Dequeue sz) rb =
        (if length d > sz then Some (Inr (Inl RGTP_ERR_INVALID_ARG), rb)
         else Some (Inr (Inr (d, ?n)), rb\<lparr>slots := (slots rb)[?s := None], slot_sizes := (slot_sizes rb)[?s := 0],
           slot_valid := (slot_valid rb)[?s := False], next_deliver := next_deliver rb + 1\<rparr>))"
      using True s sh by (simp add: rgtp_reorder_buf_dequeue_def Let_def)
    then show ?thesis using inv m at True d advance_slot [OF inv True] by auto
  qed
qed

interpretation reorder: refinement reorder_step "reorder_spec N" reorder_abs "reorder_inv N" reorder_allowed for N
proof
  fix rb x assume "reorder_inv N rb" "reorder_allowed x"
  then show "\<exists>r rb'. reorder_step x rb = Some (r, rb') \<and> reorder_inv N rb' \<and> reorder_spec N x (reorder_abs rb) = (r, reorder_abs rb')"
    using insert_refines dequeue_refines by (cases x) auto
qed

lemma reorder_init_inv:
  assumes "rgtp_reorder_buf_init env True m = ok rb"
  shows "reorder_inv (unat (m + 1)) rb" and "reorder_abs rb = (0, \<lambda>_. None)"
proof -
  have "rgtp_calloc env 0 (unat (m + 1)) 8" and rb: "rb = \<lparr>max_out_of_order = m, next_deliver = 0, capacity = m + 1,
      slots = replicate (unat (m + 1)) None, slot_sizes = replicate (unat (m + 1)) 0,
      slot_valid = replicate (unat (m + 1)) False\<rparr>"
    using assms by (auto simp: rgtp_reorder_buf_init_def Let_def split: if_splits)
  then have "unat (m + 1) \<noteq> 0" using calloc_no_wrap by blast
  then show "reorder_inv (unat (m + 1)) rb" "reorder_abs rb = (0, \<lambda>_. None)"
    by (auto simp: rb reorder_inv_def reorder_abs_def fun_eq_iff)
qed

lemma clamp_u32:
  fixes n w :: u32
  assumes "n \<noteq> 0"
  shows "(if w \<ge> n then n - 1 else w) = word_of_nat (min (unat n - 1) (unat w))"
proof (rule word_unat_eq_iff [THEN iffD2])
  have "min (unat n - 1) (unat w) < 2 ^ 32" using unat_u32_bound [of w] by (simp add: min_less_iff_disj)
  then have "unat (word_of_nat (min (unat n - 1) (unat w)) :: u32) = min (unat n - 1) (unat w)"
    by (intro word_of_nat_unat_32) simp
  then show "unat (if w \<ge> n then n - 1 else w) = unat (word_of_nat (min (unat n - 1) (unat w)) :: u32)"
    using assms by (auto simp: word_le_nat_alt unat_minus_one)
qed

text \<open>The blocks of size \<open>s\<close> that a range of bytes touches.\<close>

lemma div_cover:
  fixes a l s c :: nat
  assumes "0 < s" and "0 < l"
  shows "(\<exists>b. a \<le> b \<and> b < a + l \<and> b div s = c) \<longleftrightarrow> a div s \<le> c \<and> c \<le> (a + l - 1) div s"
proof
  assume "\<exists>b. a \<le> b \<and> b < a + l \<and> b div s = c"
  then show "a div s \<le> c \<and> c \<le> (a + l - 1) div s" by (auto intro!: div_le_mono)
next
  assume c: "a div s \<le> c \<and> c \<le> (a + l - 1) div s"
  show "\<exists>b. a \<le> b \<and> b < a + l \<and> b div s = c"
  proof (cases "a div s = c")
    case True
    with assms(2) show ?thesis by (intro exI [of _ a]) simp
  next
    case False
    with c have "a div s < c" by simp
    then have "a < c * s" using assms(1) by (simp add: div_less_iff_less_mult)
    moreover have "c * s \<le> a + l - 1" using c assms(1) by (simp add: less_eq_div_iff_mult_less_eq)
    ultimately show ?thesis using assms by (intro exI [of _ "c * s"]) simp
  qed
qed

subsection \<open>Properties\<close>

text \<open>C15: the reorder buffer refines the specification with a delivery position and a
  map of the chunks ahead: whatever the order of insertions, duplicates, stale and far
  indices, allocation failures and deliveries, the results are those of the
  specification, in which each chunk is delivered once, in order, with the data first
  stored for it.\<close>

theorem reorder_refines:
  assumes "rgtp_reorder_buf_init env True m = ok rb" and "list_all reorder_allowed ops"
  shows "run_outputs reorder_step ops rb = Some (spec_outputs (reorder_spec (unat (m + 1))) ops (0, \<lambda>_. None))"
  using reorder.outputs_refine [OF reorder_init_inv(1) [OF assms(1)] assms(2)] reorder_init_inv(2) [OF assms(1)] by simp

theorem reorder_refines_witness:
  "let env = \<lparr>g_alloc = \<lparr>alloc_fn = None, free_fn_set = False\<rparr>, memory_profile_embedded = False, sys_malloc = (\<lambda>c s. True)\<rparr>
   in \<exists>rb. rgtp_reorder_buf_init env True 3 = ok rb \<and>
     run_outputs reorder_step [Insert env 1 [11], Dequeue 9, Insert env 0 [10], Insert env 0 [99], Dequeue 9, Dequeue 9] rb =
     Some [Inl None, Inr (Inl RGTP_ERR_TIMEOUT), Inl None, Inl None, Inr (Inr ([10], 0)), Inr (Inr ([11], 1))]"
proof -
  let ?env = "\<lparr>g_alloc = \<lparr>alloc_fn = None, free_fn_set = False\<rparr>, memory_profile_embedded = False, sys_malloc = (\<lambda>c s. True)\<rparr>"
  let ?ops = "[Insert ?env 1 [11], Dequeue 9, Insert ?env 0 [10], Insert ?env 0 [99], Dequeue 9, Dequeue 9]"
  have p: "plenty ?env" by (simp add: plenty_def)
  then obtain rb where rb: "rgtp_reorder_buf_init ?env True 3 = ok rb"
    by (simp add: rgtp_reorder_buf_init_def SIZE_MAX_def)
  have "run_outputs reorder_step ?ops rb = Some (spec_outputs (reorder_spec (unat (3 + 1 :: u32))) ?ops (0, \<lambda>_. None))"
    by (rule reorder_refines [OF rb]) simp
  then show ?thesis using rb p by (auto simp: Let_def simp del: run_outputs.simps reorder_step.simps)
qed

lemma u64_div_u32_mod:
  "unat (ucast (a div ucast (c :: u32)) :: u32) = unat (a :: u64) div unat c mod 2 ^ 32"
proof -
  have "unat (a div ucast c) = unat a div unat c" by (simp add: unat_div unat_ucast_32_64 del: unsigned_ucast_eq)
  then show ?thesis by (simp add: unsigned_ucast_eq take_bit_eq_mod)
qed

lemma range_end: "len \<noteq> 0 \<Longrightarrow> unat (offset + len - 1) = (unat offset + unat len - 1) mod 2 ^ 64" for offset len :: u64
proof -
  assume "len \<noteq> 0"
  then have "0 < unat len" by (simp add: unat_gt_0)
  then have "offset + len - 1 = word_of_nat (unat offset + unat len - 1)" by (simp add: of_nat_diff)
  then show ?thesis by (simp add: unat_of_nat take_bit_eq_mod)
qed

text \<open>The computed range for every range of bytes, with the truncations of the code.\<close>

lemma chunk_range_formula:
  assumes "chunk_size \<noteq> 0" and "chunk_count \<noteq> 0" and "len \<noteq> 0"
  shows "rgtp_compute_chunk_range chunk_size chunk_count offset len True True =
    (if unat chunk_count \<le> unat offset div unat chunk_size mod 2 ^ 32 then err RGTP_ERR_INVALID_ARG
     else ok (word_of_nat (unat offset div unat chunk_size mod 2 ^ 32),
       word_of_nat (min (unat chunk_count - 1) ((unat offset + unat len - 1) mod 2 ^ 64 div unat chunk_size mod 2 ^ 32))))"
proof -
  let ?fc = "ucast (offset div ucast chunk_size) :: u32" and ?lc = "ucast ((offset + len - 1) div ucast chunk_size) :: u32"
  note fc = u64_div_u32_mod [of offset chunk_size]
    and lc = u64_div_u32_mod [of "offset + len - 1" chunk_size, unfolded range_end [OF assms(3)]]
  have "word_of_nat (unat ?fc) = ?fc" by simp
  then show ?thesis
    using assms clamp_u32 [OF assms(2), of ?lc, unfolded lc] fc
    by (simp add: rgtp_compute_chunk_range_def Let_def word_le_nat_alt)
qed

text \<open>C29: the range of chunks computed for a non-empty range of bytes.  If the range of
  bytes does not wrap around 64 bits and its last byte lies below chunk number
  \<open>2 ^ 32\<close>, the result is exactly the set of existing chunks that contain a byte
  of it, and a range that starts behind the last chunk is an error.  Outside these bounds
  the code truncates the chunk numbers to 32 bits: if the first byte lies in a chunk from
  number \<open>2 ^ 32\<close> on, which no exposure has, the call is not always an error,
  and where it succeeds the first chunk it returns is smaller than the one asked for.\<close>

theorem chunk_range_exact:
  assumes "chunk_size \<noteq> 0" and "chunk_count \<noteq> 0" and "len \<noteq> 0"
  shows "(unat offset + unat len \<le> 2 ^ 64 \<and> (unat offset + unat len - 1) div unat chunk_size < 2 ^ 32 \<longrightarrow>
     rgtp_compute_chunk_range chunk_size chunk_count offset len True True =
      (if unat chunk_count \<le> unat offset div unat chunk_size then err RGTP_ERR_INVALID_ARG
       else ok (word_of_nat (unat offset div unat chunk_size),
         word_of_nat (min (unat chunk_count - 1) ((unat offset + unat len - 1) div unat chunk_size)))) \<and>
     (\<forall>c. (\<exists>b. unat offset \<le> b \<and> b < unat offset + unat len \<and> b div unat chunk_size = c) \<longleftrightarrow>
        unat offset div unat chunk_size \<le> c \<and> c \<le> (unat offset + unat len - 1) div unat chunk_size)) \<and>
   (2 ^ 32 \<le> unat offset div unat chunk_size \<longrightarrow>
     (case rgtp_compute_chunk_range chunk_size chunk_count offset len True True of
        Some (Inr (f, l)) \<Rightarrow> unat f = unat offset div unat chunk_size mod 2 ^ 32 \<and>
          unat f < unat offset div unat chunk_size
      | r \<Rightarrow> r = err RGTP_ERR_INVALID_ARG \<and> unat chunk_count \<le> unat offset div unat chunk_size mod 2 ^ 32))"
proof -
  let ?s = "unat chunk_size" and ?o = "unat offset" and ?l = "unat len" and ?n = "unat chunk_count"
  note formula = chunk_range_formula [OF assms, of offset]
  have pos: "0 < ?s" "0 < ?l" using assms(1,3) by (simp_all add: unat_gt_0)
  have exact: "rgtp_compute_chunk_range chunk_size chunk_count offset len True True =
      (if ?n \<le> ?o div ?s then err RGTP_ERR_INVALID_ARG
       else ok (word_of_nat (?o div ?s), word_of_nat (min (?n - 1) ((?o + ?l - 1) div ?s))))"
    if *: "?o + ?l \<le> 2 ^ 64" "(?o + ?l - 1) div ?s < 2 ^ 32"
  proof -
    have "?o div ?s \<le> (?o + ?l - 1) div ?s" using pos(2) by (intro div_le_mono) simp
    then have "?o div ?s mod 2 ^ 32 = ?o div ?s" "(?o + ?l - 1) mod 2 ^ 64 = ?o + ?l - 1"
      "(?o + ?l - 1) div ?s mod 2 ^ 32 = (?o + ?l - 1) div ?s"
      using * pos(2) by simp_all
    then show ?thesis using formula by (simp only:)
  qed
  have cover: "(\<exists>b. ?o \<le> b \<and> b < ?o + ?l \<and> b div ?s = c) \<longleftrightarrow> ?o div ?s \<le> c \<and> c \<le> (?o + ?l - 1) div ?s" for c
    by (rule div_cover [OF pos])
  have small: "unat (word_of_nat (m mod 2 ^ 32) :: u32) = m mod 2 ^ 32" for m
    by (simp add: unat_of_nat take_bit_eq_mod)
  have "m mod 2 ^ 32 < m" if "2 ^ 32 \<le> m" for m :: nat
    using that by (meson less_le_trans mod_less_divisor zero_less_numeral zero_less_power)
  then have wrong: "case rgtp_compute_chunk_range chunk_size chunk_count offset len True True of
      Some (Inr (f, l)) \<Rightarrow> unat f = ?o div ?s mod 2 ^ 32 \<and> unat f < ?o div ?s
    | r \<Rightarrow> r = err RGTP_ERR_INVALID_ARG \<and> ?n \<le> ?o div ?s mod 2 ^ 32" if "2 ^ 32 \<le> ?o div ?s"
    unfolding formula using that small by (simp split: if_splits)
  show ?thesis using exact cover wrong by blast
qed

theorem chunk_range_exact_witness:
  "rgtp_compute_chunk_range 1000 10 2500 3000 True True = ok (2, 5) \<and>
   (case rgtp_compute_chunk_range 1 10 (2 ^ 32) 1 True True of Some (Inr (f, l)) \<Rightarrow> f = 0 | _ \<Rightarrow> False)"
  using chunk_range_exact [of 1000 10 3000 2500] chunk_range_exact [of 1 10 1 "2 ^ 32"]
  by (auto simp: unat_eq_zero split: option.splits sum.splits)

end
