(* ===== verification/Rgtp_NAT.thy ===== *)
theory Rgtp_NAT
  imports Rgtp_Surface
begin

text \<open>
  Address discovery and keepalive of \<^verbatim>\<open>src/transport/rgtp_nat.c\<close>: the
  STUN request, the parser of the response with its loop over the attributes, and the
  keepalive packet of a puller.  Datagrams and the outcome of a send are arguments.
\<close>

subsection \<open>Messages\<close>

definition STUN_BINDING_RESPONSE :: u16 where "STUN_BINDING_RESPONSE = 0x0101"
definition STUN_MAGIC_COOKIE :: u32 where "STUN_MAGIC_COOKIE = 0x2112A442"
definition STUN_HEADER_LEN :: nat where "STUN_HEADER_LEN = 20"
definition STUN_ATTR_XOR_MAPPED :: u16 where "STUN_ATTR_XOR_MAPPED = 0x0020"

definition stun_build_binding_request :: "bytes \<Rightarrow> bytes" where
  "stun_build_binding_request transaction_id = [0x00, 0x01] @ [0x00, 0x00] @ [0x21, 0x12, 0xA4, 0x42] @ take 12 transaction_id"

text \<open>An IPv4 socket address; port and address are stored in network byte order.\<close>

record sockaddr_in =
  sin_port :: bytes
  sin_addr :: bytes

text \<open>The loop over the attributes.  \<open>None\<close> is a read outside the buffer or a
  loop that does not end; \<open>Some None\<close> is the return value \<open>-1\<close>.\<close>

partial_function (option) stun_attributes :: "bytes \<Rightarrow> nat \<Rightarrow> sockaddr_in option option" where
  "stun_attributes buf offset =
    (if offset + 4 \<le> length buf then
       Option.bind (read_u16_be (drop offset buf)) (\<lambda>attr_type.
       Option.bind (read_u16_be (drop (offset + 2) buf)) (\<lambda>attr_len.
       if attr_type = STUN_ATTR_XOR_MAPPED \<and> attr_len \<ge> 8 then
         (if offset + 4 + 8 > length buf then Some None
          else
            Option.bind (read_u16_be (drop (offset + 4 + 2) buf)) (\<lambda>port.
            Option.bind (read_u32_be (drop (offset + 4 + 4) buf)) (\<lambda>addr.
            Some (Some \<lparr>sin_port = u16_be (port XOR ucast (drop_bit 16 STUN_MAGIC_COOKIE)),
                        sin_addr = u32_be (addr XOR STUN_MAGIC_COOKIE)\<rparr>))))
       else stun_attributes buf
         (offset + 4 + unat attr_len + (if attr_len mod 4 \<noteq> 0 then 4 - unat (attr_len mod 4) else 0))))
     else Some None)"

definition stun_parse_binding_response :: "bytes \<Rightarrow> sockaddr_in option option" where
  "stun_parse_binding_response buf =
    (if length buf < STUN_HEADER_LEN then Some None
     else do {
       msg_type \<leftarrow> read_u16_be buf;
       if msg_type \<noteq> STUN_BINDING_RESPONSE then Some None
       else do {
         magic \<leftarrow> read_u32_be (drop 4 buf);
         if magic \<noteq> STUN_MAGIC_COOKIE then Some None
         else stun_attributes buf STUN_HEADER_LEN}})"

subsection \<open>Operations\<close>

definition stun_transaction_id :: bytes where
  "stun_transaction_id = map (\<lambda>i. word_of_nat (i + 1)) [0..<12]"

text \<open>The result and the request that was sent; 512 bytes of the response are
  read.\<close>

definition rgtp_stun_discover :: "bool \<Rightarrow> bytes option \<Rightarrow> sockaddr_in cres \<times> bytes" where
  "rgtp_stun_discover send_ok datagram =
    (let req = stun_build_binding_request stun_transaction_id in
     (if \<not> send_ok then err RGTP_ERR_SOCKET
      else (case datagram of
          None \<Rightarrow> err RGTP_ERR_TIMEOUT
        | Some dg \<Rightarrow>
            if dg = [] then err RGTP_ERR_TIMEOUT
            else do {
              r \<leftarrow> stun_parse_binding_response (take 512 dg);
              case r of None \<Rightarrow> err RGTP_ERR_INVALID_ARG | Some a \<Rightarrow> ok a}), req))"

definition rgtp_send_keepalive :: "rgtp_surface option \<Rightarrow> u64 \<Rightarrow> bytes \<Rightarrow> bool \<Rightarrow> unit cres \<times> bytes list" where
  "rgtp_send_keepalive surface now buf send_ok =
    (case surface of
       None \<Rightarrow> (err RGTP_ERR_INVALID_ARG, [])
     | Some s \<Rightarrow>
         if s_is_exposer s then (err RGTP_ERR_INVALID_ARG, [])
         else (case rgtp_serialize_packet (Some (Keepalive \<lparr>ka_exposure_id = s_exposure_id s, ka_timestamp_us = now, ka_reserved = 0\<rparr>))
               (Some buf) True of
             None \<Rightarrow> (None, [])
           | Some (Inl e) \<Rightarrow> (err e, [])
           | Some (Inr (b, n)) \<Rightarrow> (if send_ok then ok () else err RGTP_ERR_SOCKET, [take n b])))"

subsection \<open>The attribute loop\<close>

lemma stun_attributes_total: "\<exists>r. stun_attributes buf offset = Some r"
proof (induction "length buf - offset" arbitrary: offset rule: less_induct)
  case less
  show ?case
  proof (cases "offset + 4 \<le> length buf")
    case True
    have reads: "\<exists>v. read_u16_be (drop k buf) = Some v" if "k + 2 \<le> length buf" for k by (rule reads_defined(1) [OF that])
    obtain ty len where t: "read_u16_be (drop offset buf) = Some ty" "read_u16_be (drop (offset + 2) buf) = Some len"
      using reads [of offset] reads [of "offset + 2"] True by auto
    let ?next = "offset + 4 + unat len + (if len mod 4 \<noteq> 0 then 4 - unat (len mod 4) else 0)"
    have "length buf - ?next < length buf - offset" using True by linarith
    then have "\<exists>r. stun_attributes buf ?next = Some r" by (rule less)
    moreover have "\<exists>r. Option.bind (read_u16_be (drop (offset + 4 + 2) buf)) (\<lambda>port.
        Option.bind (read_u32_be (drop (offset + 4 + 4) buf)) (\<lambda>addr.
          Some (Some \<lparr>sin_port = u16_be (port XOR ucast (drop_bit 16 STUN_MAGIC_COOKIE)),
            sin_addr = u32_be (addr XOR STUN_MAGIC_COOKIE)\<rparr>))) = Some r" if "\<not> offset + 4 + 8 > length buf"
      using reads [of "offset + 4 + 2"] reads_defined(2) [of "offset + 4 + 4" buf] that by auto
    ultimately show ?thesis using t True by (subst stun_attributes.simps) auto
  qed (subst stun_attributes.simps, simp)
qed

text \<open>A message as servers write it: attributes padded to four bytes, the mapped address
  combined with the cookie.\<close>

definition stun_attribute :: "u16 \<times> bytes \<Rightarrow> bytes" where
  "stun_attribute a = u16_be (fst a) @ u16_be (word_of_nat (length (snd a))) @ snd a @
     replicate (if length (snd a) mod 4 \<noteq> 0 then 4 - length (snd a) mod 4 else 0) 0"

definition xor_mapped :: "u16 \<Rightarrow> u32 \<Rightarrow> u16 \<times> bytes" where
  "xor_mapped port addr = (STUN_ATTR_XOR_MAPPED, [0, 1] @ u16_be (port XOR ucast (drop_bit 16 STUN_MAGIC_COOKIE)) @
     u32_be (addr XOR STUN_MAGIC_COOKIE))"

definition stun_response :: "bytes \<Rightarrow> (u16 \<times> bytes) list \<Rightarrow> bytes" where
  "stun_response tid attrs = u16_be STUN_BINDING_RESPONSE @ u16_be (word_of_nat (length (concat (map stun_attribute attrs)))) @
     u32_be STUN_MAGIC_COOKIE @ tid @ concat (map stun_attribute attrs)"

lemma stun_attributes_skip:
  assumes "fst a \<noteq> STUN_ATTR_XOR_MAPPED" and "length (snd a) < 2 ^ 16"
  shows "stun_attributes (pre @ stun_attribute a @ rest) (length pre) =
    stun_attributes (pre @ stun_attribute a @ rest) (length (pre @ stun_attribute a))"
proof -
  let ?n = "length (snd a)" and ?buf = "pre @ stun_attribute a @ rest"
  have n: "unat (word_of_nat ?n :: u16) = ?n" using assms(2) by (intro word_of_nat_unat_16) simp
  have r: "read_u16_be (drop (length pre) ?buf) = Some (fst a)" "read_u16_be (drop (length pre + 2) ?buf) = Some (word_of_nat ?n)"
    by (simp_all add: stun_attribute_def codec_lengths)
  have m: "(word_of_nat ?n :: u16) mod 4 \<noteq> 0 \<longleftrightarrow> ?n mod 4 \<noteq> 0" "unat ((word_of_nat ?n :: u16) mod 4) = ?n mod 4"
    using n by (simp_all add: unat_mod unat_eq_zero [symmetric])
  have len: "length (stun_attribute a) = 4 + ?n + (if ?n mod 4 \<noteq> 0 then 4 - ?n mod 4 else 0)"
    by (simp add: stun_attribute_def)
  then show ?thesis using r assms(1) n m by (subst stun_attributes.simps) (simp add: add.assoc)
qed

lemma stun_attributes_mapped:
  assumes "\<forall>a \<in> set attrs. fst a \<noteq> STUN_ATTR_XOR_MAPPED \<and> length (snd a) < 2 ^ 16"
  shows "stun_attributes (pre @ concat (map stun_attribute attrs) @ stun_attribute (xor_mapped port addr) @ rest) (length pre) =
    Some (Some \<lparr>sin_port = u16_be port, sin_addr = u32_be addr\<rparr>)"
  using assms
proof (induction attrs arbitrary: pre)
  case Nil
  let ?buf = "pre @ stun_attribute (xor_mapped port addr) @ rest"
  have "read_u16_be (drop (length pre) ?buf) = Some STUN_ATTR_XOR_MAPPED" "read_u16_be (drop (length pre + 2) ?buf) = Some 8"
      "read_u16_be (drop (length pre + 6) ?buf) = Some (port XOR ucast (drop_bit 16 STUN_MAGIC_COOKIE))"
      "read_u32_be (drop (length pre + 8) ?buf) = Some (addr XOR STUN_MAGIC_COOKIE)"
      "length pre + 12 \<le> length ?buf"
    by (simp_all add: stun_attribute_def xor_mapped_def)
  then show ?case by (subst stun_attributes.simps) (simp add: xor.assoc add.assoc)
next
  case (Cons a attrs)
  have "stun_attributes (pre @ stun_attribute a @ concat (map stun_attribute attrs) @ stun_attribute (xor_mapped port addr) @ rest) (length pre) =
      stun_attributes ((pre @ stun_attribute a) @ concat (map stun_attribute attrs) @ stun_attribute (xor_mapped port addr) @ rest)
        (length (pre @ stun_attribute a))"
    using stun_attributes_skip [of a pre "concat (map stun_attribute attrs) @ stun_attribute (xor_mapped port addr) @ rest"] Cons.prems
    by simp
  then show ?case using Cons.IH [of "pre @ stun_attribute a"] Cons.prems by simp
qed

subsection \<open>Properties\<close>

text \<open>C36: the parser of STUN responses ends and stays inside the buffer for every byte
  string, and from a response in which other attributes come before the mapped address it
  recovers port and address, whatever follows.\<close>

theorem stun_parse_terminates:
  assumes "length tid = 12" and "\<forall>a \<in> set attrs. fst a \<noteq> STUN_ATTR_XOR_MAPPED \<and> length (snd a) < 2 ^ 16"
  shows "(\<exists>r. stun_parse_binding_response buf = Some r) \<and>
    stun_parse_binding_response (stun_response tid (attrs @ xor_mapped port addr # later)) =
      Some (Some \<lparr>sin_port = u16_be port, sin_addr = u32_be addr\<rparr>)"
proof
  show "\<exists>r. stun_parse_binding_response buf = Some r"
  proof (cases "length buf < STUN_HEADER_LEN")
    case False
    then show ?thesis
      using reads_defined(1) [of 0 buf] reads_defined(2) [of 4 buf] stun_attributes_total [of buf STUN_HEADER_LEN]
      by (auto simp: stun_parse_binding_response_def STUN_HEADER_LEN_def)
  qed (simp add: stun_parse_binding_response_def)
  define hdr where "hdr = u16_be STUN_BINDING_RESPONSE @
    u16_be (word_of_nat (length (concat (map stun_attribute (attrs @ xor_mapped port addr # later))))) @ u32_be STUN_MAGIC_COOKIE @ tid"
  let ?buf = "hdr @ concat (map stun_attribute attrs) @ stun_attribute (xor_mapped port addr) @ concat (map stun_attribute later)"
  have resp: "stun_response tid (attrs @ xor_mapped port addr # later) = ?buf" by (simp add: stun_response_def hdr_def)
  have hdr: "length hdr = 20" "read_u16_be ?buf = Some STUN_BINDING_RESPONSE" "read_u32_be (drop 4 ?buf) = Some STUN_MAGIC_COOKIE"
    using assms(1) by (simp_all add: hdr_def)
  show "stun_parse_binding_response (stun_response tid (attrs @ xor_mapped port addr # later)) =
      Some (Some \<lparr>sin_port = u16_be port, sin_addr = u32_be addr\<rparr>)"
    unfolding resp using hdr stun_attributes_mapped [OF assms(2), of hdr port addr "concat (map stun_attribute later)"]
    by (simp add: stun_parse_binding_response_def STUN_HEADER_LEN_def)
qed

theorem stun_parse_terminates_witness:
  "(\<exists>r. stun_parse_binding_response [1, 1, 0, 9] = Some r) \<and>
   stun_parse_binding_response (stun_response (replicate 12 7) [(0x8022, [65, 66, 67]), xor_mapped 4242 0x7F000001]) =
     Some (Some \<lparr>sin_port = [16, 146], sin_addr = [127, 0, 0, 1]\<rparr>)"
proof -
  have "u16_be 4242 = [16, 146]" "u32_be 0x7F000001 = [127, 0, 0, 1]" by (simp_all add: u16_be_def u32_be_def)
  then show ?thesis
    using stun_parse_terminates [of "replicate 12 7" "[(0x8022, [65, 66, 67])]" "[1, 1, 0, 9]" 4242 "0x7F000001" "[]"]
    by (simp add: STUN_ATTR_XOR_MAPPED_def)
qed

end
