(* ===== verification/Rgtp_CCSDS.thy ===== *)
theory Rgtp_CCSDS
  imports Rgtp_Prelude
begin

text \<open>
  The space packet backend of \<^verbatim>\<open>src/io/transport_ccsds.c\<close>: headers,
  fragmentation of a packet into frames, and reception with reassembly.  The device is a
  byte stream; a write is a whole frame that may fail, and a read delivers the number of
  bytes that was asked for while the stream lasts.
\<close>

unbundle bit_operations_syntax

subsection \<open>Headers\<close>

definition CCSDS_APID_RGTP :: u16 where "CCSDS_APID_RGTP = 0x3E0"
definition CCSDS_PRIMARY_HDR_LEN :: nat where "CCSDS_PRIMARY_HDR_LEN = 6"
definition CCSDS_SEQ_STANDALONE :: u8 where "CCSDS_SEQ_STANDALONE = 3"
definition CCSDS_SEQ_FIRST :: u8 where "CCSDS_SEQ_FIRST = 1"
definition CCSDS_SEQ_CONTINUE :: u8 where "CCSDS_SEQ_CONTINUE = 0"
definition CCSDS_SEQ_LAST :: u8 where "CCSDS_SEQ_LAST = 2"
definition CCSDS_MAX_FRAME_DATA :: nat where "CCSDS_MAX_FRAME_DATA = 1024"

text \<open>Version, type and secondary header flag are 0.\<close>

definition build_ccsds_hdr :: "u16 \<Rightarrow> u8 \<Rightarrow> u16 \<Rightarrow> u16 \<Rightarrow> bytes" where
  "build_ccsds_hdr apid seq_flags seq_count data_len =
    (let ccsds_len = (if data_len > 0 then data_len - 1 else 0) in
     [ucast (drop_bit 8 apid AND 0x07), ucast (apid AND 0xFF),
      push_bit 6 seq_flags OR ucast (drop_bit 8 seq_count AND 0x3F), ucast (seq_count AND 0xFF),
      ucast (drop_bit 8 ccsds_len), ucast (ccsds_len AND 0xFF)])"

definition parse_ccsds_hdr :: "bytes \<Rightarrow> u16 \<times> u8 \<times> u16 \<times> u16" where
  "parse_ccsds_hdr hdr =
    (push_bit 8 (ucast (hdr ! 0 AND 0x07)) OR ucast (hdr ! 1), drop_bit 6 (hdr ! 2) AND 0x03,
     push_bit 8 (ucast (hdr ! 2 AND 0x3F)) OR ucast (hdr ! 3),
     (push_bit 8 (ucast (hdr ! 4)) OR ucast (hdr ! 5)) + 1)"

subsection \<open>Sending\<close>

text \<open>The context: \<open>reasm\<close> holds the first \<^verbatim>\<open>reasm_len\<close>
  bytes of the reassembly buffer.\<close>

record ccsds_ctx =
  seq_count :: u16
  reasm :: bytes
  reasm_alloc :: nat
  reasm_expected_seq :: u16
  reasm_active :: bool

text \<open>The loop over the frames of one packet; \<open>write_ok k\<close> says whether write
  number \<open>k\<close> succeeds.  The result is the return code and the frames
  written.\<close>

function ccsds_send_loop :: "(nat \<Rightarrow> bool) \<Rightarrow> nat \<Rightarrow> u16 \<Rightarrow> u8 \<Rightarrow> bytes \<Rightarrow> int \<times> bytes list" where
  "ccsds_send_loop write_ok k seq seq_flags src =
    (if length src > 0 then
       (let this_chunk = (if length src > CCSDS_MAX_FRAME_DATA then CCSDS_MAX_FRAME_DATA else length src);
            buf = build_ccsds_hdr CCSDS_APID_RGTP seq_flags seq (word_of_nat this_chunk) @ take this_chunk src in
        if \<not> write_ok k then (-1, [])
        else (let rest = drop this_chunk src;
                  seq_flags = (if length rest = 0 then CCSDS_SEQ_LAST else CCSDS_SEQ_CONTINUE);
                  (r, frames) = ccsds_send_loop write_ok (Suc k) seq seq_flags rest
              in (r, buf # frames)))
     else (0, []))"
  by auto
termination
  by (relation "measure (\<lambda>(write_ok, k, seq, seq_flags, src). length src)") (auto simp: CCSDS_MAX_FRAME_DATA_def)

declare ccsds_send_loop.simps [simp del]

definition ccsds_send_packet :: "(nat \<Rightarrow> bool) \<Rightarrow> ccsds_ctx \<Rightarrow> bytes \<Rightarrow> int \<times> bytes list \<times> ccsds_ctx" where
  "ccsds_send_packet write_ok ctx pkt =
    (if length pkt = 0 then (0, [], ctx)
     else
       (let seq_flags = (if length pkt \<le> CCSDS_MAX_FRAME_DATA then CCSDS_SEQ_STANDALONE else CCSDS_SEQ_FIRST);
            (r, frames) = ccsds_send_loop write_ok 0 (seq_count ctx) seq_flags pkt
        in if r < 0 then (-1, frames, ctx)
           else (0, frames, ctx\<lparr>seq_count := (seq_count ctx + 1) AND 0x3FFF\<rparr>)))"

subsection \<open>Receiving\<close>

text \<open>The data of a foreign packet is skipped in pieces.\<close>

function ccsds_skip :: "bytes \<Rightarrow> u16 \<Rightarrow> int \<times> bytes" where
  "ccsds_skip stream data_len =
    (if data_len > 0 then
       (let skip = (if unat data_len > CCSDS_MAX_FRAME_DATA then CCSDS_MAX_FRAME_DATA else unat data_len) in
        if length (take skip stream) \<noteq> skip then (-1, drop skip stream)
        else ccsds_skip (drop skip stream) (data_len - word_of_nat skip))
     else (1, stream))"
  by auto
termination
proof (relation "measure (\<lambda>(stream, data_len). unat data_len)")
  fix stream :: bytes and data_len :: u16 and skip
  assume "0 < data_len" and skip: "skip = (if unat data_len > CCSDS_MAX_FRAME_DATA then CCSDS_MAX_FRAME_DATA else unat data_len)"
  then have pos: "0 < unat data_len" by (simp add: word_less_nat_alt)
  then have k: "0 < skip" "skip \<le> unat data_len" by (auto simp: skip CCSDS_MAX_FRAME_DATA_def)
  then have "unat (word_of_nat skip :: u16) = skip" using unat_u16_bound [of data_len] by (intro word_of_nat_unat_16) simp
  then have "unat (data_len - word_of_nat skip) = unat data_len - skip"
    using k(2) by (simp add: unat_sub word_le_nat_alt)
  then show "((drop skip stream, data_len - word_of_nat skip), stream, data_len) \<in> measure (\<lambda>(stream, data_len). unat data_len)"
    using k pos by simp
qed simp

declare ccsds_skip.simps [simp del]

text \<open>A fragment: \<open>cap\<close> is the size of the caller's buffer and \<open>can_grow\<close>
  says whether \<^verbatim>\<open>realloc\<close> succeeds.\<close>

definition ccsds_fragment ::
    "bool \<Rightarrow> nat \<Rightarrow> ccsds_ctx \<Rightarrow> u8 \<Rightarrow> u16 \<Rightarrow> bytes \<Rightarrow> int \<times> bytes option \<times> ccsds_ctx" where
  "ccsds_fragment can_grow cap ctx seq_flags seq payload =
    (let append = (\<lambda>ctx.
       if length (reasm ctx) + length payload > reasm_alloc ctx then (-1, None, ctx)
       else
         (let ctx = ctx\<lparr>reasm := reasm ctx @ payload, reasm_expected_seq := (seq + 1) AND 0x3FFF\<rparr> in
          if seq_flags = CCSDS_SEQ_LAST then
            (if length (reasm ctx) > cap then (-1, None, ctx)
             else (0, Some (reasm ctx), ctx\<lparr>reasm_active := False, reasm := []\<rparr>))
          else (1, None, ctx))) in
     if \<not> reasm_active ctx then
       (if seq_flags \<noteq> CCSDS_SEQ_FIRST then (-2, None, ctx)
        else
          (let ctx = ctx\<lparr>reasm_active := True, reasm := []\<rparr> in
           if reasm_alloc ctx < length payload + 65536 then
             (if \<not> can_grow then (-1, None, ctx)
              else append (ctx\<lparr>reasm_alloc := length payload + 65536\<rparr>))
           else append ctx))
     else if seq \<noteq> reasm_expected_seq ctx then (-2, None, ctx)
     else append ctx)"

text \<open>The return code, the packet, the context and the rest of the stream.  A payload
  array of length 0 is undefined.\<close>

definition ccsds_recv_packet ::
    "bool \<Rightarrow> nat \<Rightarrow> ccsds_ctx \<Rightarrow> bytes \<Rightarrow> (int \<times> bytes option \<times> ccsds_ctx \<times> bytes) option" where
  "ccsds_recv_packet can_grow cap ctx stream =
    (let hdr = take CCSDS_PRIMARY_HDR_LEN stream; stream = drop CCSDS_PRIMARY_HDR_LEN stream in
     if length hdr \<noteq> CCSDS_PRIMARY_HDR_LEN then Some (if length hdr = 0 then 1 else -1, None, ctx, stream)
     else
       (let (apid, seq_flags, seq, data_len) = parse_ccsds_hdr hdr in
        if apid \<noteq> CCSDS_APID_RGTP then
          (let (r, stream) = ccsds_skip stream data_len in Some (r, None, ctx, stream))
        else if data_len = 0 then None
        else
          (let payload = take (unat data_len) stream; stream = drop (unat data_len) stream in
           if length payload \<noteq> unat data_len then Some (-1, None, ctx, stream)
           else if seq_flags = CCSDS_SEQ_STANDALONE then
             (if unat data_len > cap then Some (-1, None, ctx, stream)
              else Some (0, Some payload, ctx, stream))
           else
             (let (r, pkt, ctx) = ccsds_fragment can_grow cap ctx seq_flags seq payload in Some (r, pkt, ctx, stream)))))"

subsection \<open>Headers survive\<close>

lemma header_masks:
  "(0x07 :: u16) = mask 3" "(0xFF :: u16) = mask 8" "(0x3F :: u16) = mask 6"
  "(0x07 :: u8) = mask 3" "(0x3F :: u8) = mask 6" "(0x03 :: u8) = mask 2"
  by (simp_all add: mask_eq_exp_minus_1)

lemma bits_below: "unat w < 2 ^ k \<Longrightarrow> bit w n \<Longrightarrow> n < k" for w :: "'a::len word"
proof (rule ccontr)
  assume w: "unat w < 2 ^ k" "bit w n" "\<not> n < k"
  then have "unat w < 2 ^ n" by (meson less_le_trans linorder_not_less one_le_numeral power_increasing)
  then have "\<not> bit (unat w) n" by (simp add: bit_iff_odd)
  then show False using w(2) by (simp add: bit_unsigned_iff)
qed

lemma word_of_halves: "push_bit 8 (ucast (ucast (drop_bit 8 w) :: u8)) OR ucast (ucast (w AND 0xFF) :: u8) = w" for w :: u16
  unfolding header_masks by (rule bit_word_eqI) (auto simp: bit_simps)

lemma ccsds_header_roundtrip:
  assumes "unat apid < 2 ^ 11" and "unat flags < 2 ^ 2" and "unat seq < 2 ^ 14" and "0 < len"
  shows "parse_ccsds_hdr (build_ccsds_hdr apid flags seq len) = (apid, flags, seq, len)"
proof -
  note hi = bits_below [OF assms(1)] bits_below [OF assms(2)] bits_below [OF assms(3)]
  have "push_bit 8 (ucast (ucast (drop_bit 8 apid AND 0x07) AND 0x07 :: u8)) OR ucast (ucast (apid AND 0xFF) :: u8) = apid"
    unfolding header_masks by (rule bit_word_eqI) (auto simp: bit_simps dest: hi(1))
  moreover have "drop_bit 6 (push_bit 6 flags OR ucast (drop_bit 8 seq AND 0x3F)) AND 0x03 = flags"
    unfolding header_masks by (rule bit_word_eqI) (auto simp: bit_simps dest: hi(2))
  moreover have "push_bit 8 (ucast ((push_bit 6 flags OR ucast (drop_bit 8 seq AND 0x3F)) AND 0x3F :: u8)) OR
      ucast (ucast (seq AND 0xFF) :: u8) = seq"
    unfolding header_masks by (rule bit_word_eqI) (auto simp: bit_simps dest: hi(3))
  ultimately show ?thesis
    using assms(4) word_of_halves [of "len - 1"] by (simp add: parse_ccsds_hdr_def build_ccsds_hdr_def Let_def)
qed

subsection \<open>Frames of a packet\<close>

lemma build_length [simp]: "length (build_ccsds_hdr apid flags seq len) = 6"
  by (simp add: build_ccsds_hdr_def Let_def)

text \<open>The header of a frame with \<open>n\<close> bytes as the receiver reads it.\<close>

lemma recv_frame:
  assumes "unat flags < 2 ^ 2" and "unat seq < 2 ^ 14" and "payload \<noteq> []" and "length payload \<le> 1024"
  shows "ccsds_recv_packet can_grow cap ctx (build_ccsds_hdr CCSDS_APID_RGTP flags seq (word_of_nat (length payload)) @ payload @ rest) =
    (if flags = CCSDS_SEQ_STANDALONE then
       (if length payload > cap then Some (-1, None, ctx, rest) else Some (0, Some payload, ctx, rest))
     else (case ccsds_fragment can_grow cap ctx flags seq payload of (r, pkt, ctx) \<Rightarrow> Some (r, pkt, ctx, rest)))"
proof -
  have un: "unat (word_of_nat (length payload) :: u16) = length payload" using assms(4) by (intro word_of_nat_unat_16) simp
  then have pos: "(word_of_nat (length payload) :: u16) \<noteq> 0" using assms(3) by (metis length_0_conv unsigned_0)
  have "unat CCSDS_APID_RGTP < 2 ^ 11" by (simp add: CCSDS_APID_RGTP_def)
  from ccsds_header_roundtrip [OF this assms(1,2), of "word_of_nat (length payload)"] pos
  have "parse_ccsds_hdr (build_ccsds_hdr CCSDS_APID_RGTP flags seq (word_of_nat (length payload))) =
      (CCSDS_APID_RGTP, flags, seq, word_of_nat (length payload))"
    by (simp add: word_neq_0_conv)
  then show ?thesis
    using un pos by (simp add: ccsds_recv_packet_def CCSDS_PRIMARY_HDR_LEN_def Let_def)
qed

lemma send_short:
  assumes "pkt \<noteq> []" and "length pkt \<le> 1024" and "write_ok k"
  shows "ccsds_send_loop write_ok k seq flags pkt = (0, [build_ccsds_hdr CCSDS_APID_RGTP flags seq (word_of_nat (length pkt)) @ pkt])"
  using assms by (simp add: ccsds_send_loop.simps [of _ _ _ _ pkt] ccsds_send_loop.simps [of _ _ _ _ "[]"] CCSDS_MAX_FRAME_DATA_def Let_def)

lemma send_long:
  assumes "1024 < length pkt" and "write_ok k"
  shows "ccsds_send_loop write_ok k seq flags pkt =
    (case ccsds_send_loop write_ok (Suc k) seq CCSDS_SEQ_CONTINUE (drop 1024 pkt) of
       (r, frames) \<Rightarrow> (r, (build_ccsds_hdr CCSDS_APID_RGTP flags seq 1024 @ take 1024 pkt) # frames))"
  using assms by (subst ccsds_send_loop.simps) (auto simp: CCSDS_MAX_FRAME_DATA_def Let_def)

text \<open>The first frame that the loop writes.\<close>

lemma send_first_frame:
  assumes "pkt \<noteq> []" and "\<And>k. write_ok k"
  defines "n \<equiv> min 1024 (length pkt)"
  shows "\<exists>frames. ccsds_send_loop write_ok k seq flags pkt =
    (0, (build_ccsds_hdr CCSDS_APID_RGTP flags seq (word_of_nat n) @ take n pkt) # frames)"
  using assms(1) unfolding n_def
proof (induction "length pkt" arbitrary: pkt k flags rule: less_induct)
  case less
  show ?case
  proof (cases "length pkt \<le> 1024")
    case True
    then show ?thesis using send_short [of pkt write_ok k seq flags] less.prems assms(2) by (simp add: min_def)
  next
    case False
    then have "drop 1024 pkt \<noteq> []" "length (drop 1024 pkt) < length pkt" by simp_all
    from less.hyps [OF this(2,1), of "Suc k" CCSDS_SEQ_CONTINUE] obtain frames where
      "ccsds_send_loop write_ok (Suc k) seq CCSDS_SEQ_CONTINUE (drop 1024 pkt) = (0, frames)" by blast
    then show ?thesis using send_long [of pkt write_ok k seq flags] False assms(2) by (simp add: min_def)
  qed
qed

lemma seq_wraps: "unat (w AND 0x3FFF) < 2 ^ 14" for w :: u16
proof -
  have "(0x3FFF :: u16) = mask 14" by (simp add: mask_eq_exp_minus_1)
  then have "w AND 0x3FFF = take_bit 14 w" by (simp only: take_bit_eq_mask)
  then show ?thesis using take_bit_nat_less_exp [of 14 "unat w"] by (simp only: unsigned_take_bit_eq)
qed

lemma next_seq_differs: "unat seq < 2 ^ 14 \<Longrightarrow> (seq + 1) AND 0x3FFF \<noteq> seq" for seq :: u16
proof
  assume "unat seq < 2 ^ 14" and eq: "(seq + 1) AND 0x3FFF = seq"
  have "bit (seq + 1) 0 = bit seq 0" using arg_cong [OF eq, of "\<lambda>w. bit w 0"] by (simp add: bit_simps)
  then show False by (simp add: bit_0)
qed

subsection \<open>Properties\<close>

text \<open>C35: a packet of up to 1024 bytes that was written arrives intact and leaves the
  receiver as it was.  A longer packet never arrives: all its frames carry the same
  sequence count, so the receiver, which has taken the first, refuses the second.\<close>

theorem ccsds_delivery:
  assumes "pkt \<noteq> []" and "unat (seq_count tx) < 2 ^ 14" and "\<not> reasm_active rx" and "length pkt \<le> cap" and "\<And>k. write_ok k"
  shows "\<exists>frames tx'. ccsds_send_packet write_ok tx pkt = (0, frames, tx') \<and> unat (seq_count tx') < 2 ^ 14 \<and>
    (if length pkt \<le> 1024
     then ccsds_recv_packet can_grow cap rx (concat frames @ rest) = Some (0, Some pkt, rx, rest)
     else \<exists>rx1 s1 s2. ccsds_recv_packet True cap rx (concat frames @ rest) = Some (1, None, rx1, s1) \<and>
       ccsds_recv_packet True cap rx1 s1 = Some (-2, None, rx1, s2))"
proof -
  let ?seq = "seq_count tx" and ?tx = "tx\<lparr>seq_count := (seq_count tx + 1) AND 0x3FFF\<rparr>"
  have tx: "unat (seq_count ?tx) < 2 ^ 14" using seq_wraps by simp
  show ?thesis
  proof (cases "length pkt \<le> 1024")
    case True
    let ?f = "build_ccsds_hdr CCSDS_APID_RGTP CCSDS_SEQ_STANDALONE ?seq (word_of_nat (length pkt)) @ pkt"
    have "ccsds_send_packet write_ok tx pkt = (0, [?f], ?tx)"
      using True assms(1,5) send_short [of pkt write_ok 0] by (simp add: ccsds_send_packet_def CCSDS_MAX_FRAME_DATA_def)
    moreover have "ccsds_recv_packet can_grow cap rx (concat [?f] @ rest) = Some (0, Some pkt, rx, rest)"
      using recv_frame [OF _ assms(2,1) True, of CCSDS_SEQ_STANDALONE] assms(4) by (simp add: CCSDS_SEQ_STANDALONE_def)
    ultimately show ?thesis using True tx by (intro exI [of _ "[?f]"] exI [of _ ?tx]) simp
  next
    case False
    let ?first = "take 1024 pkt" and ?more = "drop 1024 pkt" and ?n = "min 1024 (length pkt - 1024)"
    let ?f = "build_ccsds_hdr CCSDS_APID_RGTP CCSDS_SEQ_FIRST ?seq (word_of_nat (length ?first)) @ ?first"
    let ?g = "build_ccsds_hdr CCSDS_APID_RGTP CCSDS_SEQ_CONTINUE ?seq (word_of_nat (length (take ?n ?more))) @ take ?n ?more"
    have len: "length ?first = 1024" "?more \<noteq> []" "length (take ?n ?more) = ?n" "take ?n ?more \<noteq> []" "?first \<noteq> []" using False by auto
    obtain frames where fr: "ccsds_send_loop write_ok 1 ?seq CCSDS_SEQ_CONTINUE ?more = (0, ?g # frames)"
      using send_first_frame [where pkt = ?more and write_ok = write_ok and k = 1 and seq = ?seq and flags = CCSDS_SEQ_CONTINUE]
        len(2,3) assms(5) by auto
    have send: "ccsds_send_packet write_ok tx pkt = (0, ?f # ?g # frames, ?tx)"
      using False fr len(1) send_long [of pkt write_ok 0 ?seq CCSDS_SEQ_FIRST] assms(1,5)
      by (simp add: ccsds_send_packet_def CCSDS_MAX_FRAME_DATA_def)
    define rx1 where "rx1 = rx\<lparr>reasm_active := True, reasm := ?first, reasm_alloc := max (reasm_alloc rx) 66560,
      reasm_expected_seq := (?seq + 1) AND 0x3FFF\<rparr>"
    have first: "ccsds_fragment True cap rx CCSDS_SEQ_FIRST ?seq ?first = (1, None, rx1)"
      using assms(3) len(1) by (auto simp: ccsds_fragment_def rx1_def CCSDS_SEQ_FIRST_def CCSDS_SEQ_LAST_def Let_def max_def)
    have second: "ccsds_fragment True cap rx1 CCSDS_SEQ_CONTINUE ?seq (take ?n ?more) = (-2, None, rx1)"
      using next_seq_differs [OF assms(2)] by (auto simp: ccsds_fragment_def rx1_def Let_def)
    let ?s = "?g @ concat frames @ rest"
    have r1: "ccsds_recv_packet True cap rx (?f @ ?s) = Some (1, None, rx1, ?s)"
      using recv_frame [OF _ assms(2) len(5), of CCSDS_SEQ_FIRST True cap rx ?s] first len(1)
      by (simp add: CCSDS_SEQ_FIRST_def CCSDS_SEQ_STANDALONE_def)
    have r2: "ccsds_recv_packet True cap rx1 ?s = Some (-2, None, rx1, concat frames @ rest)"
      using recv_frame [OF _ assms(2) len(4), of CCSDS_SEQ_CONTINUE True cap rx1 "concat frames @ rest"] second len(3)
      by (simp add: CCSDS_SEQ_CONTINUE_def CCSDS_SEQ_STANDALONE_def)
    have "ccsds_recv_packet True cap rx (concat (?f # ?g # frames) @ rest) = Some (1, None, rx1, ?s)" using r1 by simp
    then show ?thesis using False send tx r2 by (intro exI [of _ "?f # ?g # frames"] exI [of _ ?tx]) auto
  qed
qed

theorem ccsds_delivery_witness:
  "\<exists>frames tx'. ccsds_send_packet (\<lambda>k. True) \<lparr>seq_count = 16383, reasm = [], reasm_alloc = 0, reasm_expected_seq = 0, reasm_active = False\<rparr>
      [1, 2, 3] = (0, frames, tx') \<and>
    ccsds_recv_packet False 10 \<lparr>seq_count = 5, reasm = [], reasm_alloc = 0, reasm_expected_seq = 0, reasm_active = False\<rparr> (concat frames @ [9]) =
      Some (0, Some [1, 2, 3], \<lparr>seq_count = 5, reasm = [], reasm_alloc = 0, reasm_expected_seq = 0, reasm_active = False\<rparr>, [9])"
  using ccsds_delivery [of "[1, 2, 3]" "\<lparr>seq_count = 16383, reasm = [], reasm_alloc = 0, reasm_expected_seq = 0, reasm_active = False\<rparr>"
      "\<lparr>seq_count = 5, reasm = [], reasm_alloc = 0, reasm_expected_seq = 0, reasm_active = False\<rparr>" 10 "\<lambda>k. True" False "[9]"]
  by auto

end
