(* ===== verification/Spec2Isabelle.thy ===== *)
theory Spec2Isabelle
  imports Rgtp_RSDecode Rgtp_SIMD Rgtp_SomeIP Rgtp_DDS Rgtp_ROS2 Rgtp_Embedded Rgtp_Observability Rgtp_PerfMonitor Rgtp_Http3 Rgtp_Socket Rgtp_Legacy Rgtp_Programs Rgtp_Priority Rgtp_Reorder Rgtp_NAT Rgtp_CCSDS
begin

text \<open>
  A verification development for RGTP, the Red Giant Transport Protocol, a C library under
  \<^verbatim>\<open>src/src/\<close> with its public header \<^verbatim>\<open>src/include/rgtp/rgtp.h\<close>.

  \<^bold>\<open>The program.\<close>  An exposer cuts data into chunks, seals each chunk with an
  authenticated cipher, builds a Merkle tree over the plain chunks and keeps the result in
  a surface.  A puller sends a pull request for the identifier of an exposure; the exposer
  answers with a manifest and the chunks of a window.  The puller checks the replay window,
  the tag and the Merkle proof of a chunk, hands the chunk out and reports its rate.
  Around these two there are the packet format, forward error correction, flow control,
  rate limiting, buffers for ordering and jitter, and adapters to other middleware.

  \<^bold>\<open>Conventions.\<close>  \<^verbatim>\<open>Rgtp_Prelude\<close> states them in full.  A C function that returns an
  error code and a value is a function into \<open>'a cres\<close>: \<open>ok r\<close>, \<open>err e\<close>, or \<open>None\<close> for
  undefined behaviour such as an access out of bounds or a conversion out of range, so
  that a theorem with \<open>ok\<close> or \<open>\<noteq> None\<close> also says that no such access happens.  Pointers
  that may be \<^verbatim>\<open>NULL\<close> are options, output pointers are booleans, fixed-width integers are
  words, and floating-point numbers are rationals rounded to the format.  Allocation is
  decided by an environment, with the numbered calls in the order of the code; datagrams
  and clocks are arguments, and the datagrams sent are results.

  \<^bold>\<open>Code outside the sources.\<close>  The cipher, the hash and the random generator of
  libsodium or OpenSSL are the fields of \<open>crypto_backend\<close>.  What the theorems assume of
  them is named: \<open>aead_lawful\<close> (what a key sealed it opens, 16 bytes are added),
  \<open>digest_total\<close>, \<open>random_lawful\<close> (as many bytes as asked for), \<open>backend_total\<close> (no
  failure).  \<open>demo_backend\<close> satisfies all of them and serves the witnesses.  That a key opens
  only what it sealed is assumed nowhere: the theorem on a receiver with the wrong key
  speaks of the one ciphertext at hand (\<open>chunk_opens\<close>).

  \<^bold>\<open>Theories and what they show.\<close>

  \<^item> \<^verbatim>\<open>Rgtp_Prelude\<close>: result type, memory access, the locales \<open>step_system\<close> (an invariant kept
    by every operation holds after every sequence) and \<open>refinement\<close> (a simulation gives
    equal outputs on every sequence).  Their interpretations are in the theories of the
    replay window, flow control, rate limiter, exposer, reorder buffer and puller.
  \<^item> \<^verbatim>\<open>Rgtp_Wire\<close> (\<^verbatim>\<open>wire/rgtp_packet.c\<close>, \<^verbatim>\<open>wire/rgtp_parser.c\<close>, \<^verbatim>\<open>wire/rgtp_packet_types.h\<close>): the
    serializer writes the specified bytes, the parser is total and safe on arbitrary
    bytes, and parsing inverts serializing, through a locale for the codec of one packet
    type.  The indices of a NAK come back with their bytes reversed, since the parser does
    not convert them and the host is little-endian.
  \<^item> \<^verbatim>\<open>Rgtp_GF256\<close>, \<^verbatim>\<open>Rgtp_RSEncode\<close>, \<^verbatim>\<open>Rgtp_RSDecode\<close>, \<^verbatim>\<open>Rgtp_SIMD\<close> (\<^verbatim>\<open>fec/\<close>): the tables form the
    field of 256 elements, powers obey their laws as long as the product of \<^verbatim>\<open>gf_pow\<close> fits
    an \<^verbatim>\<open>int\<close> (exponents up to 8454660), the encoder computes the systematic codeword, the decoder
    solves the evaluation equations, and each vector routine equals the scalar one.  The
    decoder does not invert the encoder: it returns the data only where the symbols it
    reads are values of the data polynomial.
  \<^item> \<^verbatim>\<open>Rgtp_Core\<close> (\<^verbatim>\<open>core/rgtp_alloc.c\<close>, \<^verbatim>\<open>core/rgtp_init.c\<close>) and \<^verbatim>\<open>Rgtp_Crypto\<close> (\<^verbatim>\<open>crypto/\<close>): guards of
    the allocator, initialisation, encryption of a chunk with the nonce of its index.
  \<^item> \<^verbatim>\<open>Rgtp_Merkle\<close> (\<^verbatim>\<open>merkle/\<close>): a built proof verifies, and two chunks that verify at one place
    exhibit a collision.
  \<^item> \<^verbatim>\<open>Rgtp_Replay\<close>, \<^verbatim>\<open>Rgtp_Flow\<close>, \<^verbatim>\<open>Rgtp_RateLimit\<close>, \<^verbatim>\<open>Rgtp_Priority\<close>, \<^verbatim>\<open>Rgtp_Reorder\<close> with \<^verbatim>\<open>Rgtp_Float\<close>
    (\<^verbatim>\<open>transport/rgtp_replay.c\<close>, \<^verbatim>\<open>rgtp_flow.c\<close>, \<^verbatim>\<open>rgtp_ratelimit.c\<close>, \<^verbatim>\<open>rgtp_priority.c\<close>,
    \<^verbatim>\<open>rgtp_streaming.c\<close>): invariants over all sequences of operations, refinement of a set and
    of in-order delivery, the chunks of a range of bytes, bounds and convergence of the controller, order of service, and
    what happens outside the range where the code works.
  \<^item> \<^verbatim>\<open>Rgtp_Surface\<close> (\<^verbatim>\<open>transport/rgtp_surface.c\<close>, \<^verbatim>\<open>rgtp_surface_internal.h\<close>): allocation, release of
    every block once, progress, statistics (the jitter is the mean absolute deviation).
  \<^item> \<^verbatim>\<open>Rgtp_Exposer\<close> (\<^verbatim>\<open>transport/rgtp_exposer.c\<close>, the appending of \<^verbatim>\<open>rgtp_streaming.c\<close>): exposing
    succeeds and stores chunks that decrypt to the data; polls with arbitrary datagrams and
    appends keep a surface well formed, and no nonce serves two chunks; an append to an exposure with proofs leads to an
    access out of bounds.
  \<^item> \<^verbatim>\<open>Rgtp_Puller\<close> and \<^verbatim>\<open>Rgtp_Progress\<close> (\<^verbatim>\<open>transport/rgtp_puller.c\<close>): the transfer from end to end
    refines first-arrival delivery; against arbitrary senders only authentic chunks are
    handed out, each once; progress counts them; a forged packet blocks a chunk.
  \<^item> \<^verbatim>\<open>Rgtp_Adapter\<close>, \<^verbatim>\<open>Rgtp_SomeIP\<close>, \<^verbatim>\<open>Rgtp_DDS\<close>, \<^verbatim>\<open>Rgtp_ROS2\<close> (\<^verbatim>\<open>middleware/\<close>): the shared loop joins
    chunks in the order of arrival; without a way to pass the key the receivers open
    chunks under a key of zeros, and end in an authentication error at a chunk that does not
    open under it.
  \<^item> \<^verbatim>\<open>Rgtp_Embedded\<close> (\<^verbatim>\<open>transport/rgtp_embedded.c\<close>), \<^verbatim>\<open>Rgtp_CCSDS\<close>
    (\<^verbatim>\<open>io/transport_ccsds.c\<close>), \<^verbatim>\<open>Rgtp_NAT\<close> (\<^verbatim>\<open>transport/rgtp_nat.c\<close>): receive buffers,
    space packets with fragmentation, address discovery.
  \<^item> \<^verbatim>\<open>Rgtp_Format\<close> holds what the code uses of the formatting, scanning and search functions of
    the C library.  \<^verbatim>\<open>Rgtp_Observability\<close> (\<^verbatim>\<open>core/rgtp_error.c\<close>, \<^verbatim>\<open>observability/\<close>): counters
    and gauges with the text of a scrape, log events, spans.  \<^verbatim>\<open>Rgtp_PerfMonitor\<close>
    (\<^verbatim>\<open>analytics/\<close>): after any recordings the ring buffer holds the latest events in order and
    the counters are the sums over the recordings.
  \<^item> \<^verbatim>\<open>Rgtp_Socket\<close> (\<^verbatim>\<open>io/rgtp_socket.c\<close>, \<^verbatim>\<open>rgtp_sendmmsg.c\<close>, \<^verbatim>\<open>rgtp_raweth.c\<close>, \<^verbatim>\<open>rgtp_iouring.c\<close>):
    the answers of the operating system are arguments and the calls that open, close and
    configure descriptors are results.  No failure leaks a descriptor, and a batch is sent as
    a prefix, in order and each message once.
  \<^item> \<^verbatim>\<open>Rgtp_Http3\<close> (\<^verbatim>\<open>webtransport/\<close>): the requests and responses of the proxy and its statistics.
  \<^item> \<^verbatim>\<open>Rgtp_Programs\<close> (\<^verbatim>\<open>examples/c/\<close>): the puller reads the command line that the exposer prints, and
    the HTTP server opens no file through a path with two consecutive dots.  Its answer is
    determined, including the 200 header without a body when exposing fails.
  \<^item> \<^verbatim>\<open>Rgtp_Legacy\<close> (\<^verbatim>\<open>core/rgtp_core.c\<close>): the memory pool loses and duplicates no block; the
    block encoder adds no parity, and a request is ignored for almost every identifier.

  \<^bold>\<open>Bounds.\<close>  Data has at most \<open>2 ^ 26\<close> bytes in the theorems on exposing, which keeps every
  index of the Merkle arrays in 32 bits.  Theorems on a pull are about at most 256 chunks,
  the width of the replay window, beyond which the window does not work as intended
  (\<^verbatim>\<open>Rgtp_Replay\<close>).  Chunks of a transfer have at most 64000 bytes, so that a packet with a
  proof fits a datagram.  A range of bytes is translated exactly up to chunk number
  \<open>2 ^ 32\<close>, where the code cuts the number (\<^verbatim>\<open>Rgtp_Reorder\<close>).  No definition needs fuel: loops are recursions over lists or
  have termination proofs; a loop that asks the kernel again recurses over its answers.

  \<^bold>\<open>Not modelled.\<close>  Atomics and locks are sequential here, and one thread uses a surface.
  \<^verbatim>\<open>io/rgtp_iocp.c\<close> wraps Windows completion ports.  \<^verbatim>\<open>core/rgtp_core.c\<close> is an earlier
  implementation written for another version of the public header, which the repository does
  not have: its surfaces, sessions and clients have no declared layout and are left out.  The
  device of the CCSDS backend is opened through functions that no file defines.  Of the
  examples, reading and writing files and the main loops are left out, and so is the set-up
  of the HTTP server, whose functions do not exist.  The language bindings convert values
  through N-API, cgo and ctypes, which are not part of the sources; the HTTP adapter of the
  Node binding and the command line of the Python binding have logic of their own that is not
  modelled either.  Tests and packaging are left out.
  FEC is not part of the transfer because neither exposer nor puller calls it.
\<close>

end
